(* ===== verification/Constants.thy ===== *)
theory Constants
  imports Prelude
begin

text \<open>
  The constants of \<open>src/ffi.rs\<close> (transcribed there from \<open>include/urma_opcode.h\<close> and
  \<open>include/urma_types.h\<close>), at the width the bindings give them. All of them are in the
  collection \<open>ffi_const\<close>.
\<close>


text \<open>Sizes.\<close>

definition URMA_EID_SIZE :: usize where [ffi_const]: "URMA_EID_SIZE = 16"
definition URMA_MAX_NAME :: usize where [ffi_const]: "URMA_MAX_NAME = 64"
definition URMA_MAX_PATH :: usize where [ffi_const]: "URMA_MAX_PATH = 4096"
definition URMA_GUID_SIZE :: usize where [ffi_const]: "URMA_GUID_SIZE = 16"
definition URMA_MAX_PRIORITY_CNT :: usize where [ffi_const]: "URMA_MAX_PRIORITY_CNT = 16"
definition MAX_PORT_CNT :: usize where [ffi_const]: "MAX_PORT_CNT = 8"

text \<open>\<open>urma_transport_type_t\<close>.\<close>

definition URMA_TRANSPORT_INVALID :: i32 where [ffi_const]: "URMA_TRANSPORT_INVALID = - 1"
definition URMA_TRANSPORT_UB :: i32 where [ffi_const]: "URMA_TRANSPORT_UB = 0"
definition URMA_TRANSPORT_IB :: i32 where [ffi_const]: "URMA_TRANSPORT_IB = 1"
definition URMA_TRANSPORT_IP :: i32 where [ffi_const]: "URMA_TRANSPORT_IP = 2"
definition URMA_TRANSPORT_SOFTUB :: i32 where [ffi_const]: "URMA_TRANSPORT_SOFTUB = 3"
definition URMA_TRANSPORT_HNS_UB :: i32 where [ffi_const]: "URMA_TRANSPORT_HNS_UB = 5"

text \<open>\<open>urma_vlog_level_t\<close>.\<close>

definition URMA_VLOG_LEVEL_EMERG :: i32 where [ffi_const]: "URMA_VLOG_LEVEL_EMERG = 0"
definition URMA_VLOG_LEVEL_ALERT :: i32 where [ffi_const]: "URMA_VLOG_LEVEL_ALERT = 1"
definition URMA_VLOG_LEVEL_CRIT :: i32 where [ffi_const]: "URMA_VLOG_LEVEL_CRIT = 2"
definition URMA_VLOG_LEVEL_ERR :: i32 where [ffi_const]: "URMA_VLOG_LEVEL_ERR = 3"
definition URMA_VLOG_LEVEL_WARNING :: i32 where [ffi_const]: "URMA_VLOG_LEVEL_WARNING = 4"
definition URMA_VLOG_LEVEL_NOTICE :: i32 where [ffi_const]: "URMA_VLOG_LEVEL_NOTICE = 5"
definition URMA_VLOG_LEVEL_INFO :: i32 where [ffi_const]: "URMA_VLOG_LEVEL_INFO = 6"
definition URMA_VLOG_LEVEL_DEBUG :: i32 where [ffi_const]: "URMA_VLOG_LEVEL_DEBUG = 7"

text \<open>Token policies, cacheability.\<close>

definition URMA_TOKEN_NONE :: u32 where [ffi_const]: "URMA_TOKEN_NONE = 0"
definition URMA_TOKEN_PLAIN_TEXT :: u32 where [ffi_const]: "URMA_TOKEN_PLAIN_TEXT = 1"
definition URMA_TOKEN_SIGNED :: u32 where [ffi_const]: "URMA_TOKEN_SIGNED = 2"
definition URMA_TOKEN_ALL_ENCRYPTED :: u32 where [ffi_const]: "URMA_TOKEN_ALL_ENCRYPTED = 3"
definition URMA_NON_CACHEABLE :: u32 where [ffi_const]: "URMA_NON_CACHEABLE = 0"
definition URMA_CACHEABLE :: u32 where [ffi_const]: "URMA_CACHEABLE = 1"

text \<open>Access rights (bits of the access fields).\<close>

definition URMA_ACCESS_LOCAL_ONLY :: u32 where [ffi_const]: "URMA_ACCESS_LOCAL_ONLY = push_bit 0 1"
definition URMA_ACCESS_READ :: u32 where [ffi_const]: "URMA_ACCESS_READ = push_bit 1 1"
definition URMA_ACCESS_WRITE :: u32 where [ffi_const]: "URMA_ACCESS_WRITE = push_bit 2 1"
definition URMA_ACCESS_ATOMIC :: u32 where [ffi_const]: "URMA_ACCESS_ATOMIC = push_bit 3 1"
definition URMA_SEG_NOMAP :: u32 where [ffi_const]: "URMA_SEG_NOMAP = 0"
definition URMA_SEG_MAPPED :: u32 where [ffi_const]: "URMA_SEG_MAPPED = 1"

text \<open>\<open>urma_transport_mode_t\<close>.\<close>

definition URMA_TM_RM :: u32 where [ffi_const]: "URMA_TM_RM = 0x1"
definition URMA_TM_RC :: u32 where [ffi_const]: "URMA_TM_RC = push_bit 1 1"
definition URMA_TM_UM :: u32 where [ffi_const]: "URMA_TM_UM = push_bit 2 1"

text \<open>\<open>urma_tp_type_t\<close>.\<close>

definition URMA_TP_RTP :: u32 where [ffi_const]: "URMA_TP_RTP = 0"
definition URMA_TP_CTP :: u32 where [ffi_const]: "URMA_TP_CTP = 1"
definition URMA_TP_UTP :: u32 where [ffi_const]: "URMA_TP_UTP = 2"

text \<open>\<open>urma_target_type_t\<close>.\<close>

definition URMA_TARGET_JFR :: u32 where [ffi_const]: "URMA_TARGET_JFR = 0"
definition URMA_TARGET_JETTY :: u32 where [ffi_const]: "URMA_TARGET_JETTY = 1"
definition URMA_TARGET_JETTY_GROUP :: u32 where [ffi_const]: "URMA_TARGET_JETTY_GROUP = 2"

text \<open>Capability bits.\<close>

definition URMA_FEATURE_CTP_EN :: u32 where [ffi_const]: "URMA_FEATURE_CTP_EN = push_bit 18 1"
definition URMA_TP_TYPE_CAP_RTP :: u32 where [ffi_const]: "URMA_TP_TYPE_CAP_RTP = push_bit 0 1"
definition URMA_TP_TYPE_CAP_CTP :: u32 where [ffi_const]: "URMA_TP_TYPE_CAP_CTP = push_bit 1 1"
definition URMA_TP_TYPE_CAP_UTP :: u32 where [ffi_const]: "URMA_TP_TYPE_CAP_UTP = push_bit 2 1"
definition URMA_ORDER_CAP_OT :: u32 where [ffi_const]: "URMA_ORDER_CAP_OT = push_bit 0 1"
definition URMA_ORDER_CAP_OI :: u32 where [ffi_const]: "URMA_ORDER_CAP_OI = push_bit 1 1"
definition URMA_ORDER_CAP_OL :: u32 where [ffi_const]: "URMA_ORDER_CAP_OL = push_bit 2 1"
definition URMA_ORDER_CAP_NO :: u32 where [ffi_const]: "URMA_ORDER_CAP_NO = push_bit 3 1"
definition URMA_TP_FEAT_RM_MULTI_PATH :: u32 where [ffi_const]: "URMA_TP_FEAT_RM_MULTI_PATH = push_bit 0 1"
definition URMA_TP_FEAT_RC_MULTI_PATH :: u32 where [ffi_const]: "URMA_TP_FEAT_RC_MULTI_PATH = push_bit 1 1"

text \<open>\<open>urma_jetty_grp_policy_t\<close>.\<close>

definition URMA_JETTY_GRP_POLICY_RR :: u32 where [ffi_const]: "URMA_JETTY_GRP_POLICY_RR = 0"
definition URMA_JETTY_GRP_POLICY_HASH_HINT :: u32 where [ffi_const]: "URMA_JETTY_GRP_POLICY_HASH_HINT = 1"

text \<open>\<open>urma_opcode_t\<close>.\<close>

definition URMA_OPC_WRITE :: u32 where [ffi_const]: "URMA_OPC_WRITE = 0"
definition URMA_OPC_WRITE_IMM :: u32 where [ffi_const]: "URMA_OPC_WRITE_IMM = 1"
definition URMA_OPC_READ :: u32 where [ffi_const]: "URMA_OPC_READ = 0x10"
definition URMA_OPC_SEND :: u32 where [ffi_const]: "URMA_OPC_SEND = 0x40"
definition URMA_OPC_SEND_IMM :: u32 where [ffi_const]: "URMA_OPC_SEND_IMM = 0x41"

text \<open>Flag bits of jettys, jfs and work requests.\<close>

definition URMA_JETTY_FLAG_SHARE_JFR :: u32 where [ffi_const]: "URMA_JETTY_FLAG_SHARE_JFR = push_bit 0 1"
definition URMA_JFS_FLAG_ORDER_TYPE_SHIFT :: u32 where [ffi_const]: "URMA_JFS_FLAG_ORDER_TYPE_SHIFT = 3"
definition URMA_JFS_FLAG_MULTI_PATH :: u32 where [ffi_const]: "URMA_JFS_FLAG_MULTI_PATH = push_bit 11 1"
definition URMA_JFS_WR_FLAG_COMPLETE_ENABLE :: u32 where [ffi_const]: "URMA_JFS_WR_FLAG_COMPLETE_ENABLE = push_bit 5 1"
definition URMA_JFS_WR_FLAG_COMP_ORDER :: u32 where [ffi_const]: "URMA_JFS_WR_FLAG_COMP_ORDER = push_bit 2 1"

text \<open>\<open>urma_status_t\<close>.\<close>

definition URMA_SUCCESS :: i32 where [ffi_const]: "URMA_SUCCESS = 0"
definition URMA_EAGAIN :: i32 where [ffi_const]: "URMA_EAGAIN = 11"
definition URMA_ENOMEM :: i32 where [ffi_const]: "URMA_ENOMEM = 12"
definition URMA_ETIMEOUT :: i32 where [ffi_const]: "URMA_ETIMEOUT = 110"
definition URMA_EINVAL :: i32 where [ffi_const]: "URMA_EINVAL = 22"
definition URMA_EEXIST :: i32 where [ffi_const]: "URMA_EEXIST = 17"
definition URMA_EINPROGRESS :: i32 where [ffi_const]: "URMA_EINPROGRESS = 115"
definition URMA_FAIL :: i32 where [ffi_const]: "URMA_FAIL = 0x1000"

text \<open>\<open>urma_cr_status_t\<close> and typical parameters.\<close>

definition URMA_CR_SUCCESS :: i32 where [ffi_const]: "URMA_CR_SUCCESS = 0"
definition URMA_CR_WR_FLUSH_ERR :: i32 where [ffi_const]: "URMA_CR_WR_FLUSH_ERR = 12"
definition URMA_TYPICAL_RNR_RETRY :: u8 where [ffi_const]: "URMA_TYPICAL_RNR_RETRY = 7"
definition URMA_TYPICAL_ERR_TIMEOUT :: u8 where [ffi_const]: "URMA_TYPICAL_ERR_TIMEOUT = 17"
definition URMA_TYPICAL_MIN_RNR_TIMER :: u8 where [ffi_const]: "URMA_TYPICAL_MIN_RNR_TIMER = 12"
definition URMA_MAX_PRIORITY :: u8 where [ffi_const]: "URMA_MAX_PRIORITY = 15"

end
