(* ===== verification/Errors.thy ===== *)
theory Errors
  imports Constants
begin

text \<open>
  The error type of the crate (\<open>src/error.rs\<close>), its \<open>Display\<close> rendering and
  \<open>check_status\<close>. An \<open>io::Error\<close> is carried as its rendered text; the operating
  system's text for an errno is the parameter \<open>os_text\<close>.
\<close>

datatype error =
    NotFound string
  | NullPtr string i32
  | Status i32 string
  | PollTimeout u64
  | BadCompletion i32 u64
  | Invalid string
  | Io string

type_synonym 'a result = "error + 'a"

definition check_status :: "i32 \<Rightarrow> string \<Rightarrow> unit result" where
  "check_status st what = (if st = URMA_SUCCESS then Inr () else Inl (Status st what))"

fun fmt_error :: "(i32 \<Rightarrow> string) \<Rightarrow> error \<Rightarrow> string" where
  "fmt_error os_text (NotFound m) = ''not found: '' @ m"
| "fmt_error os_text (NullPtr what errno) =
     (if errno = 0 then what @ '' returned NULL''
      else what @ '' returned NULL (errno '' @ show_i32 errno @ '': '' @ os_text errno @ '')'')"
| "fmt_error os_text (Status st what) = what @ '' failed, status '' @ show_i32 st"
| "fmt_error os_text (PollTimeout ctx) =
     ''poll completion timeout (user_ctx 0x'' @ show_hex ctx @ '')''"
| "fmt_error os_text (BadCompletion st ctx) =
     ''bad completion (status '' @ show_i32 st @ '', user_ctx 0x'' @ show_hex ctx @ '')''"
| "fmt_error os_text (Invalid m) = ''invalid: '' @ m"
| "fmt_error os_text (Io e) = ''io: '' @ e"

lemma check_status_ok [res_simps]: "check_status st what = Inr u \<longleftrightarrow> st = URMA_SUCCESS"
  by (simp add: check_status_def)

lemma check_status_err [res_simps]:
  "check_status st what = Inl e \<longleftrightarrow> st \<noteq> URMA_SUCCESS \<and> e = Status st what"
  by (auto simp: check_status_def)

end
