(* ===== verification/Flags.thy ===== *)
theory Flags
  imports Errors
begin

text \<open>
  The flag unions of \<open>src/ffi.rs\<close>: each is a struct with the single word \<open>value\<close>, and
  helper methods that read or set one bit or one bit field of it. Two interfaces cover them:
  \<open>bit_flag\<close> for a single-bit helper pair and \<open>bit_field\<close> for a multi-bit one. Their
  setters do not mask the value they are given, so a field reads back what was set only when
  the value fits the field; the interface states both sides.
\<close>

section \<open>The flag structs\<close>

record urma_device_feature_t = feature_value :: u32
record urma_atomic_feature_t = atomic_value :: u32
record urma_tp_type_cap_t = tp_cap_value :: u32
record urma_order_type_cap_t = order_cap_value :: u32
record urma_tp_feature_t = tp_feature_value :: u32
record urma_tp_type_en_t = tp_en_value :: u32
record urma_jfc_flag_t = jfc_flag_value :: u32
record urma_jfs_flag_t = jfs_flag_value :: u32
record urma_jfr_flag_t = jfr_flag_value :: u32
record urma_jetty_flag_t = jetty_flag_value :: u32
record urma_import_jetty_flag_t = import_jetty_value :: u32
record urma_reg_seg_flag_t = reg_seg_value :: u32
record urma_seg_attr_t = seg_attr_value :: u32
record urma_import_seg_flag_t = import_seg_value :: u32
record urma_jfs_wr_flag_t = wr_flag_value :: u32
record urma_cr_flag_t = cr_flag_value :: u8

section \<open>Helper methods\<close>

definition ctp_en :: "urma_device_feature_t \<Rightarrow> bool" where
  "ctp_en f = (feature_value f AND URMA_FEATURE_CTP_EN \<noteq> 0)"

definition with_ctp_en :: "urma_device_feature_t \<Rightarrow> bool \<Rightarrow> urma_device_feature_t" where
  "with_ctp_en f on =
     (if on then f\<lparr>feature_value := feature_value f OR URMA_FEATURE_CTP_EN\<rparr>
      else f\<lparr>feature_value := feature_value f AND NOT URMA_FEATURE_CTP_EN\<rparr>)"

definition cap_rtp :: "urma_tp_type_cap_t \<Rightarrow> bool" where
  "cap_rtp c = (tp_cap_value c AND URMA_TP_TYPE_CAP_RTP \<noteq> 0)"

definition cap_ctp :: "urma_tp_type_cap_t \<Rightarrow> bool" where
  "cap_ctp c = (tp_cap_value c AND URMA_TP_TYPE_CAP_CTP \<noteq> 0)"

definition cap_utp :: "urma_tp_type_cap_t \<Rightarrow> bool" where
  "cap_utp c = (tp_cap_value c AND URMA_TP_TYPE_CAP_UTP \<noteq> 0)"

definition cap_ot :: "urma_order_type_cap_t \<Rightarrow> bool" where
  "cap_ot c = (order_cap_value c AND URMA_ORDER_CAP_OT \<noteq> 0)"

definition cap_oi :: "urma_order_type_cap_t \<Rightarrow> bool" where
  "cap_oi c = (order_cap_value c AND URMA_ORDER_CAP_OI \<noteq> 0)"

definition cap_ol :: "urma_order_type_cap_t \<Rightarrow> bool" where
  "cap_ol c = (order_cap_value c AND URMA_ORDER_CAP_OL \<noteq> 0)"

definition cap_no :: "urma_order_type_cap_t \<Rightarrow> bool" where
  "cap_no c = (order_cap_value c AND URMA_ORDER_CAP_NO \<noteq> 0)"

definition feat_rm_multi_path :: "urma_tp_feature_t \<Rightarrow> bool" where
  "feat_rm_multi_path f = (tp_feature_value f AND URMA_TP_FEAT_RM_MULTI_PATH \<noteq> 0)"

definition feat_rc_multi_path :: "urma_tp_feature_t \<Rightarrow> bool" where
  "feat_rc_multi_path f = (tp_feature_value f AND URMA_TP_FEAT_RC_MULTI_PATH \<noteq> 0)"

definition order_type :: "urma_jfs_flag_t \<Rightarrow> u32" where
  "order_type f = drop_bit (unat URMA_JFS_FLAG_ORDER_TYPE_SHIFT) (jfs_flag_value f) AND 0xff"

definition with_order_type :: "urma_jfs_flag_t \<Rightarrow> u32 \<Rightarrow> urma_jfs_flag_t" where
  "with_order_type f v =
     f\<lparr>jfs_flag_value :=
        (jfs_flag_value f AND NOT (push_bit (unat URMA_JFS_FLAG_ORDER_TYPE_SHIFT) 0xff))
        OR push_bit (unat URMA_JFS_FLAG_ORDER_TYPE_SHIFT) v\<rparr>"

definition multi_path :: "urma_jfs_flag_t \<Rightarrow> bool" where
  "multi_path f = (jfs_flag_value f AND URMA_JFS_FLAG_MULTI_PATH \<noteq> 0)"

definition with_multi_path :: "urma_jfs_flag_t \<Rightarrow> bool \<Rightarrow> urma_jfs_flag_t" where
  "with_multi_path f on =
     (if on then f\<lparr>jfs_flag_value := jfs_flag_value f OR URMA_JFS_FLAG_MULTI_PATH\<rparr>
      else f\<lparr>jfs_flag_value := jfs_flag_value f AND NOT URMA_JFS_FLAG_MULTI_PATH\<rparr>)"

definition REG_ACCESS_SHIFT :: u32 where [ffi_const]: "REG_ACCESS_SHIFT = 5"
definition REG_ACCESS_MASK :: u32 where
  [ffi_const]: "REG_ACCESS_MASK = push_bit (unat REG_ACCESS_SHIFT) 0x3f"

definition reg_access :: "urma_reg_seg_flag_t \<Rightarrow> u32" where
  "reg_access f = drop_bit (unat REG_ACCESS_SHIFT) (reg_seg_value f AND REG_ACCESS_MASK)"

definition with_reg_access :: "urma_reg_seg_flag_t \<Rightarrow> u32 \<Rightarrow> urma_reg_seg_flag_t" where
  "with_reg_access f access =
     f\<lparr>reg_seg_value := (reg_seg_value f AND NOT REG_ACCESS_MASK)
                        OR push_bit (unat REG_ACCESS_SHIFT) access\<rparr>"

definition IMPORT_ACCESS_SHIFT :: u32 where [ffi_const]: "IMPORT_ACCESS_SHIFT = 1"
definition IMPORT_ACCESS_MASK :: u32 where
  [ffi_const]: "IMPORT_ACCESS_MASK = push_bit (unat IMPORT_ACCESS_SHIFT) 0x3f"

definition import_access :: "urma_import_seg_flag_t \<Rightarrow> u32" where
  "import_access f = drop_bit (unat IMPORT_ACCESS_SHIFT) (import_seg_value f AND IMPORT_ACCESS_MASK)"

definition with_import_access :: "urma_import_seg_flag_t \<Rightarrow> u32 \<Rightarrow> urma_import_seg_flag_t" where
  "with_import_access f access =
     f\<lparr>import_seg_value := (import_seg_value f AND NOT IMPORT_ACCESS_MASK)
                           OR push_bit (unat IMPORT_ACCESS_SHIFT) access\<rparr>"

section \<open>Single-bit helpers\<close>

lemma and_bit_nonzero: "w AND push_bit k 1 \<noteq> 0 \<longleftrightarrow> bit w k"
  for w :: "'a::len word"
proof
  assume "w AND push_bit k 1 \<noteq> 0"
  then obtain n where "bit (w AND push_bit k 1) n"
    by (metis bit_0_eq bit_word_eqI bot_apply bot_bool_def)
  then show "bit w k" by (auto simp: bit_and_iff bit_exp_iff)
next
  assume b: "bit w k"
  then have "k < LENGTH('a)" by (rule bit_imp_le_length)
  with b have "bit (w AND push_bit k 1) k"
    by (simp add: bit_and_iff bit_exp_iff)
  then show "w AND push_bit k 1 \<noteq> 0" by auto
qed

locale bit_flag =
  fixes getb :: "'f \<Rightarrow> bool"
    and setb :: "'f \<Rightarrow> bool \<Rightarrow> 'f"
    and val :: "'f \<Rightarrow> u32"
    and pos :: nat
  assumes pos_bound: "pos < 32"
    and getb_val: "getb f = (val f AND push_bit pos 1 \<noteq> 0)"
    and setb_val: "val (setb f on) = (if on then val f OR push_bit pos 1
                                      else val f AND NOT (push_bit pos 1))"
begin

lemma getb_bit: "getb f \<longleftrightarrow> bit (val f) pos"
  by (simp only: getb_val and_bit_nonzero)

lemma setb_bit: "bit (val (setb f on)) n \<longleftrightarrow> (if n = pos then on else bit (val f) n)"
  using pos_bound bit_imp_le_length [of "val f" n]
  by (auto simp: setb_val bit_or_iff bit_and_iff bit_not_iff bit_exp_iff)

lemma get_set: "getb (setb f on) = on"
  by (simp add: getb_bit setb_bit)

lemma set_set: "val (setb (setb f a) b) = val (setb f b)"
  by (rule bit_word_eqI) (simp add: setb_bit)

end

section \<open>Multi-bit fields\<close>

lemma take_bit_fits: "v < 2 ^ k \<Longrightarrow> take_bit k v = v" for v :: u32
  by (simp add: take_bit_eq_mask less_mask_eq)

locale bit_field =
  fixes getf :: "'f \<Rightarrow> u32"
    and setf :: "'f \<Rightarrow> u32 \<Rightarrow> 'f"
    and val :: "'f \<Rightarrow> u32"
    and shift width :: nat
  assumes fits: "shift + width \<le> 32"
    and getf_val: "getf f = take_bit width (drop_bit shift (val f))"
    and setf_val: "val (setf f v) = (val f AND NOT (push_bit shift (mask width))) OR push_bit shift v"
begin

lemma setf_bit:
  "n < 32 \<Longrightarrow> bit (val (setf f v)) n \<longleftrightarrow>
     (bit (val f) n \<and> \<not> (shift \<le> n \<and> n < shift + width)) \<or> (shift \<le> n \<and> bit v (n - shift))"
  by (auto simp: setf_val bit_or_iff bit_and_iff bit_not_iff bit_push_bit_iff bit_mask_iff)

lemma getf_bit: "bit (getf f) n \<longleftrightarrow> n < width \<and> bit (val f) (shift + n)"
  by (simp add: getf_val bit_take_bit_iff bit_drop_bit_eq)

lemma get_set_masks: "getf (setf f v) = take_bit width v"
proof (rule bit_word_eqI)
  fix n :: nat
  assume "n < LENGTH(32)"
  then show "bit (getf (setf f v)) n \<longleftrightarrow> bit (take_bit width v) n"
    using fits by (cases "n < width") (simp_all add: getf_bit setf_bit bit_take_bit_iff)
qed

lemma get_set: "v < 2 ^ width \<Longrightarrow> getf (setf f v) = v"
  by (simp add: get_set_masks take_bit_fits)

lemma other_bits:
  assumes v: "v < 2 ^ width" and n: "\<not> (shift \<le> n \<and> n < shift + width)"
  shows "bit (val (setf f v)) n = bit (val f) n"
proof (cases "n < 32")
  case True
  have "take_bit width v = v" using v by (simp add: take_bit_fits)
  then have "\<not> bit v (n - shift)" if "shift \<le> n"
    using n that by (metis bit_take_bit_iff le_add_diff_inverse nat_add_left_cancel_less)
  with True n show ?thesis by (auto simp: setf_bit)
next
  case False
  then show ?thesis by (auto dest: bit_imp_le_length)
qed

text \<open>A value wider than the field also sets the bits above the field.\<close>

lemma spills:
  "n < 32 \<Longrightarrow> shift + width \<le> n \<Longrightarrow>
     bit (val (setf f v)) n \<longleftrightarrow> bit (val f) n \<or> bit v (n - shift)"
  by (simp add: setf_bit)

end

section \<open>The helpers are such flags and fields\<close>

interpretation ctp_en_flag: bit_flag ctp_en with_ctp_en feature_value 18
  by unfold_locales (simp_all only: ctp_en_def with_ctp_en_def URMA_FEATURE_CTP_EN_def
      urma_device_feature_t.simps split: if_splits, simp_all)

interpretation multi_path_flag: bit_flag multi_path with_multi_path jfs_flag_value 11
  by unfold_locales (simp_all only: multi_path_def with_multi_path_def
      URMA_JFS_FLAG_MULTI_PATH_def urma_jfs_flag_t.simps split: if_splits, simp_all)

lemma mask_8: "0xff = (mask 8 :: u32)" and mask_6: "0x3f = (mask 6 :: u32)"
  by (simp_all add: mask_eq_exp_minus_1)

interpretation order_field: bit_field order_type with_order_type jfs_flag_value 3 8
  by unfold_locales
    (simp_all only: order_type_def with_order_type_def mask_8 take_bit_eq_mask [symmetric]
       URMA_JFS_FLAG_ORDER_TYPE_SHIFT_def urma_jfs_flag_t.simps, simp_all)

lemma field_read:
  "drop_bit s (w AND push_bit s (mask k)) = take_bit k (drop_bit s w)" for w :: u32
  by (rule bit_word_eqI)
    (auto simp: bit_drop_bit_eq bit_and_iff bit_push_bit_iff bit_mask_iff bit_take_bit_iff
       dest: bit_imp_le_length)

interpretation reg_access_field: bit_field reg_access with_reg_access reg_seg_value 5 6
  by unfold_locales
    (simp_all only: reg_access_def with_reg_access_def REG_ACCESS_MASK_def mask_6 field_read
       REG_ACCESS_SHIFT_def urma_reg_seg_flag_t.simps, simp_all)

interpretation import_access_field: bit_field import_access with_import_access import_seg_value 1 6
  by unfold_locales
    (simp_all only: import_access_def with_import_access_def IMPORT_ACCESS_MASK_def mask_6
       field_read IMPORT_ACCESS_SHIFT_def urma_import_seg_flag_t.simps, simp_all)

section \<open>Properties\<close>

text \<open>
  On jfs flag helpers: An order type that fits its 8 bits reads back, setting it leaves the
  multi-path bit alone, setting multi-path reads back and leaves the order type alone.
\<close>

theorem jfs_flag_helpers:
  assumes "v < 2 ^ 8"
  shows "order_type (with_order_type f v) = v
    \<and> multi_path (with_order_type f v) = multi_path f
    \<and> multi_path (with_multi_path f on) = on
    \<and> order_type (with_multi_path f on) = order_type f"
proof (intro conjI)
  show "order_type (with_order_type f v) = v"
    using assms by (rule order_field.get_set)
  show "multi_path (with_order_type f v) = multi_path f"
    using assms by (simp add: multi_path_flag.getb_bit order_field.other_bits)
  show "multi_path (with_multi_path f on) = on"
    by (rule multi_path_flag.get_set)
  show "order_type (with_multi_path f on) = order_type f"
    by (rule bit_word_eqI) (auto simp: order_field.getf_bit multi_path_flag.setb_bit)
qed

theorem jfs_flag_helpers_witness:
  "order_type (with_order_type \<lparr>jfs_flag_value = 0\<rparr> 2) = 2
   \<and> multi_path (with_multi_path \<lparr>jfs_flag_value = 0\<rparr> True)"
  using jfs_flag_helpers [of 2 "\<lparr>jfs_flag_value = 0\<rparr>" True] by simp

text \<open>
  On access rights of a segment. A combination of rights that fits the 6-bit access field
  reads back from the registration flag and from the import flag, and no bit outside the field
  changes; a value that does not fit also sets the bits above the field.
\<close>

theorem access_fields:
  assumes "rights < 2 ^ 6" and "n \<in> - {5..<11}" and "k \<in> - {1..<7}"
  shows "reg_access (with_reg_access f rights) = rights
    \<and> bit (reg_seg_value (with_reg_access f rights)) n = bit (reg_seg_value f) n
    \<and> import_access (with_import_access g rights) = rights
    \<and> bit (import_seg_value (with_import_access g rights)) k = bit (import_seg_value g) k
    \<and> bit (reg_seg_value (with_reg_access f (rights OR 64))) 11"
proof (intro conjI)
  show "reg_access (with_reg_access f rights) = rights"
    using assms(1) by (rule reg_access_field.get_set)
  show "bit (reg_seg_value (with_reg_access f rights)) n = bit (reg_seg_value f) n"
    using assms(1,2) by (intro reg_access_field.other_bits) auto
  show "import_access (with_import_access g rights) = rights"
    using assms(1) by (rule import_access_field.get_set)
  show "bit (import_seg_value (with_import_access g rights)) k = bit (import_seg_value g) k"
    using assms(1,3) by (intro import_access_field.other_bits) auto
  have "bit (64 :: u32) 6" by simp
  then show "bit (reg_seg_value (with_reg_access f (rights OR 64))) 11"
    by (simp add: reg_access_field.spills bit_or_iff)
qed

theorem access_fields_witness:
  "reg_access (with_reg_access \<lparr>reg_seg_value = 0\<rparr> (URMA_ACCESS_READ OR URMA_ACCESS_WRITE))
     = URMA_ACCESS_READ OR URMA_ACCESS_WRITE"
  using access_fields [of "URMA_ACCESS_READ OR URMA_ACCESS_WRITE" 0 0 "\<lparr>reg_seg_value = 0\<rparr>"]
  by (simp add: ffi_const)

end
