(* ===== verification/FfiTypes.thy ===== *)
theory FfiTypes
  imports Flags
begin

text \<open>
  The structs of \<open>src/ffi.rs\<close> that the wrapper reads or fills, field by field at the width
  of the bindings, with their derived \<open>Default\<close>. A C enum is an \<open>i32\<close> or \<open>u32\<close> word as in
  the bindings, a byte array a list, and a pointer to an object of the C library an address.
  The pointers a work request holds to arrays owned by the posting call (its sges and the next
  request of the list) are \<open>loc option\<close>: which array, which element, \<open>None\<close> for null. The
  opaque types, which cross the API only as pointers, have no record.
\<close>

text \<open>An element of the source-sge, destination-sge or work-request array of one post.\<close>

datatype loc = SrcSge nat | DstSge nat | Wr nat

record urma_token_t =
  tok_token :: u32

definition default_urma_token_t :: urma_token_t where
  "default_urma_token_t = \<lparr>tok_token = 0\<rparr>"

record urma_eid_t =
  eid_raw :: bytes

definition default_urma_eid_t :: urma_eid_t where
  "default_urma_eid_t = \<lparr>eid_raw = replicate (unat URMA_EID_SIZE) 0\<rparr>"

record urma_init_attr_t =
  init_token :: u64
  init_uasid :: u32

definition default_urma_init_attr_t :: urma_init_attr_t where
  "default_urma_init_attr_t = \<lparr>init_token = 0, init_uasid = 0\<rparr>"

record urma_device_t =
  dev_name :: bytes
  dev_path :: bytes
  dev_type :: i32
  dev_ops :: ptr
  dev_sysfs_dev :: ptr

record urma_eid_info_t =
  ei_eid :: urma_eid_t
  ei_eid_index :: u32

definition default_urma_eid_info_t :: urma_eid_info_t where
  "default_urma_eid_info_t = \<lparr>ei_eid = default_urma_eid_t, ei_eid_index = 0\<rparr>"

record urma_sl_info_t =
  sl_sl :: u32
  sl_tp_type :: urma_tp_type_en_t

definition default_urma_sl_info_t :: urma_sl_info_t where
  "default_urma_sl_info_t = \<lparr>sl_sl = 0,
     sl_tp_type = \<lparr>tp_en_value = 0\<rparr>\<rparr>"

record urma_port_attr_t =
  port_max_mtu :: i32
  port_state :: i32
  port_active_width :: i32
  port_active_speed :: i32
  port_active_mtu :: i32

definition default_urma_port_attr_t :: urma_port_attr_t where
  "default_urma_port_attr_t = \<lparr>port_max_mtu = 0, port_state = 0, port_active_width = 0,
     port_active_speed = 0, port_active_mtu = 0\<rparr>"

record urma_guid_t =
  guid_raw :: bytes

definition default_urma_guid_t :: urma_guid_t where
  "default_urma_guid_t = \<lparr>guid_raw = replicate (unat URMA_GUID_SIZE) 0\<rparr>"

record urma_device_cap_t =
  dc_feature :: urma_device_feature_t
  dc_max_jfc :: u32
  dc_max_jfs :: u32
  dc_max_jfr :: u32
  dc_max_jetty :: u32
  dc_max_jetty_grp :: u32
  dc_max_jetty_in_jetty_grp :: u32
  dc_max_jfc_depth :: u32
  dc_max_jfs_depth :: u32
  dc_max_jfr_depth :: u32
  dc_max_jfs_inline_len :: u32
  dc_max_jfs_sge :: u32
  dc_max_jfs_rsge :: u32
  dc_max_jfr_sge :: u32
  dc_max_msg_size :: u64
  dc_max_read_size :: u32
  dc_max_write_size :: u32
  dc_max_cas_size :: u32
  dc_max_swap_size :: u32
  dc_max_fetch_and_add_size :: u32
  dc_max_fetch_and_sub_size :: u32
  dc_max_fetch_and_and_size :: u32
  dc_max_fetch_and_or_size :: u32
  dc_max_fetch_and_xor_size :: u32
  dc_atomic_feat :: urma_atomic_feature_t
  dc_trans_mode :: u16
  dc_reserved :: u16
  dc_congestion_ctrl_alg :: u16
  dc_ceq_cnt :: u32
  dc_max_tp_in_tpg :: u32
  dc_max_eid_cnt :: u32
  dc_page_size_cap :: u64
  dc_max_oor_cnt :: u32
  dc_mn :: u32
  dc_max_netaddr_cnt :: u32
  dc_rm_order_cap :: urma_order_type_cap_t
  dc_rc_order_cap :: urma_order_type_cap_t
  dc_rm_tp_cap :: urma_tp_type_cap_t
  dc_rc_tp_cap :: urma_tp_type_cap_t
  dc_um_tp_cap :: urma_tp_type_cap_t
  dc_tp_feature :: urma_tp_feature_t
  dc_priority_info :: "urma_sl_info_t list"

definition default_urma_device_cap_t :: urma_device_cap_t where
  "default_urma_device_cap_t = \<lparr>dc_feature = \<lparr>feature_value = 0\<rparr>,
     dc_max_jfc = 0, dc_max_jfs = 0, dc_max_jfr = 0, dc_max_jetty = 0, dc_max_jetty_grp = 0,
     dc_max_jetty_in_jetty_grp = 0, dc_max_jfc_depth = 0, dc_max_jfs_depth = 0,
     dc_max_jfr_depth = 0, dc_max_jfs_inline_len = 0, dc_max_jfs_sge = 0, dc_max_jfs_rsge = 0,
     dc_max_jfr_sge = 0, dc_max_msg_size = 0, dc_max_read_size = 0, dc_max_write_size = 0,
     dc_max_cas_size = 0, dc_max_swap_size = 0, dc_max_fetch_and_add_size = 0,
     dc_max_fetch_and_sub_size = 0, dc_max_fetch_and_and_size = 0,
     dc_max_fetch_and_or_size = 0, dc_max_fetch_and_xor_size = 0,
     dc_atomic_feat = \<lparr>atomic_value = 0\<rparr>, dc_trans_mode = 0, dc_reserved = 0,
     dc_congestion_ctrl_alg = 0, dc_ceq_cnt = 0, dc_max_tp_in_tpg = 0, dc_max_eid_cnt = 0,
     dc_page_size_cap = 0, dc_max_oor_cnt = 0, dc_mn = 0, dc_max_netaddr_cnt = 0,
     dc_rm_order_cap = \<lparr>order_cap_value = 0\<rparr>,
     dc_rc_order_cap = \<lparr>order_cap_value = 0\<rparr>,
     dc_rm_tp_cap = \<lparr>tp_cap_value = 0\<rparr>,
     dc_rc_tp_cap = \<lparr>tp_cap_value = 0\<rparr>,
     dc_um_tp_cap = \<lparr>tp_cap_value = 0\<rparr>,
     dc_tp_feature = \<lparr>tp_feature_value = 0\<rparr>,
     dc_priority_info = replicate (unat URMA_MAX_PRIORITY_CNT) default_urma_sl_info_t\<rparr>"

record urma_device_attr_t =
  da_guid :: urma_guid_t
  da_dev_cap :: urma_device_cap_t
  da_port_cnt :: u8
  da_port_attr :: "urma_port_attr_t list"
  da_reserved_jetty_id_min :: u32
  da_reserved_jetty_id_max :: u32

definition default_urma_device_attr_t :: urma_device_attr_t where
  "default_urma_device_attr_t = \<lparr>da_guid = default_urma_guid_t,
     da_dev_cap = default_urma_device_cap_t, da_port_cnt = 0,
     da_port_attr = replicate (unat MAX_PORT_CNT) default_urma_port_attr_t,
     da_reserved_jetty_id_min = 0, da_reserved_jetty_id_max = 0\<rparr>"

record urma_jfc_cfg_t =
  jfc_depth :: u32
  jfc_flag :: urma_jfc_flag_t
  jfc_ceqn :: u32
  jfc_jfce :: ptr
  jfc_user_ctx :: u64

definition default_urma_jfc_cfg_t :: urma_jfc_cfg_t where
  "default_urma_jfc_cfg_t = \<lparr>jfc_depth = 0,
     jfc_flag = \<lparr>jfc_flag_value = 0\<rparr>, jfc_ceqn = 0, jfc_jfce = 0,
     jfc_user_ctx = 0\<rparr>"

record urma_jetty_id_t =
  jid_eid :: urma_eid_t
  jid_uasid :: u32
  jid_id :: u32

definition default_urma_jetty_id_t :: urma_jetty_id_t where
  "default_urma_jetty_id_t = \<lparr>jid_eid = default_urma_eid_t, jid_uasid = 0,
     jid_id = 0\<rparr>"

record urma_jfs_cfg_t =
  jfs_depth :: u32
  jfs_flag :: urma_jfs_flag_t
  jfs_trans_mode :: u32
  jfs_priority :: u8
  jfs_max_sge :: u8
  jfs_max_rsge :: u8
  jfs_max_inline_data :: u32
  jfs_rnr_retry :: u8
  jfs_err_timeout :: u8
  jfs_jfc :: ptr
  jfs_user_ctx :: u64

definition default_urma_jfs_cfg_t :: urma_jfs_cfg_t where
  "default_urma_jfs_cfg_t = \<lparr>jfs_depth = 0,
     jfs_flag = \<lparr>jfs_flag_value = 0\<rparr>, jfs_trans_mode = 0, jfs_priority = 0,
     jfs_max_sge = 0, jfs_max_rsge = 0, jfs_max_inline_data = 0, jfs_rnr_retry = 0,
     jfs_err_timeout = 0, jfs_jfc = 0, jfs_user_ctx = 0\<rparr>"

record urma_jfr_cfg_t =
  jfr_id :: u32
  jfr_depth :: u32
  jfr_flag :: urma_jfr_flag_t
  jfr_trans_mode :: u32
  jfr_max_sge :: u8
  jfr_min_rnr_timer :: u8
  jfr_jfc :: ptr
  jfr_token_value :: urma_token_t
  jfr_user_ctx :: u64

definition default_urma_jfr_cfg_t :: urma_jfr_cfg_t where
  "default_urma_jfr_cfg_t = \<lparr>jfr_id = 0, jfr_depth = 0,
     jfr_flag = \<lparr>jfr_flag_value = 0\<rparr>, jfr_trans_mode = 0, jfr_max_sge = 0,
     jfr_min_rnr_timer = 0, jfr_jfc = 0, jfr_token_value = default_urma_token_t,
     jfr_user_ctx = 0\<rparr>"

record urma_jetty_recv_cfg_t =
  recv_jfr :: ptr
  recv_jfc :: ptr

definition default_urma_jetty_recv_cfg_t :: urma_jetty_recv_cfg_t where
  "default_urma_jetty_recv_cfg_t = \<lparr>recv_jfr = 0, recv_jfc = 0\<rparr>"

record urma_jetty_cfg_t =
  jc_id :: u32
  jc_flag :: urma_jetty_flag_t
  jc_jfs_cfg :: urma_jfs_cfg_t
  jc_recv :: urma_jetty_recv_cfg_t
  jc_jetty_grp :: ptr
  jc_user_ctx :: u64

definition default_urma_jetty_cfg_t :: urma_jetty_cfg_t where
  "default_urma_jetty_cfg_t = \<lparr>jc_id = 0,
     jc_flag = \<lparr>jetty_flag_value = 0\<rparr>, jc_jfs_cfg = default_urma_jfs_cfg_t,
     jc_recv = default_urma_jetty_recv_cfg_t, jc_jetty_grp = 0, jc_user_ctx = 0\<rparr>"

record urma_jetty_t =
  jetty_urma_ctx :: ptr
  jetty_jetty_id :: urma_jetty_id_t
  jetty_remote_jetty :: ptr

record urma_rjetty_t =
  rj_jetty_id :: urma_jetty_id_t
  rj_trans_mode :: u32
  rj_policy :: u32
  rj_type :: u32
  rj_flag :: urma_import_jetty_flag_t
  rj_tp_type :: u32

definition default_urma_rjetty_t :: urma_rjetty_t where
  "default_urma_rjetty_t = \<lparr>rj_jetty_id = default_urma_jetty_id_t, rj_trans_mode = 0,
     rj_policy = 0, rj_type = 0, rj_flag = \<lparr>import_jetty_value = 0\<rparr>,
     rj_tp_type = 0\<rparr>"

record urma_ubva_t =
  ubva_eid :: bytes
  ubva_uasid :: u32
  ubva_va :: u64

definition default_urma_ubva_t :: urma_ubva_t where
  "default_urma_ubva_t = \<lparr>ubva_eid = replicate (unat URMA_EID_SIZE) 0, ubva_uasid = 0,
     ubva_va = 0\<rparr>"

record urma_seg_t =
  seg_ubva :: urma_ubva_t
  seg_len :: u64
  seg_attr :: urma_seg_attr_t
  seg_token_id :: u32

definition default_urma_seg_t :: urma_seg_t where
  "default_urma_seg_t = \<lparr>seg_ubva = default_urma_ubva_t, seg_len = 0,
     seg_attr = \<lparr>seg_attr_value = 0\<rparr>, seg_token_id = 0\<rparr>"

record urma_seg_cfg_t =
  sc_va :: u64
  sc_len :: u64
  sc_token_id :: ptr
  sc_token_value :: urma_token_t
  sc_flag :: urma_reg_seg_flag_t
  sc_user_ctx :: u64
  sc_iova :: u64

definition default_urma_seg_cfg_t :: urma_seg_cfg_t where
  "default_urma_seg_cfg_t = \<lparr>sc_va = 0, sc_len = 0, sc_token_id = 0,
     sc_token_value = default_urma_token_t, sc_flag = \<lparr>reg_seg_value = 0\<rparr>,
     sc_user_ctx = 0, sc_iova = 0\<rparr>"

record urma_target_seg_t =
  ts_seg :: urma_seg_t
  ts_user_ctx :: u64
  ts_mva :: u64
  ts_urma_ctx :: ptr
  ts_token_id :: ptr
  ts_handle :: u64

definition default_urma_target_seg_t :: urma_target_seg_t where
  "default_urma_target_seg_t = \<lparr>ts_seg = default_urma_seg_t, ts_user_ctx = 0,
     ts_mva = 0, ts_urma_ctx = 0, ts_token_id = 0, ts_handle = 0\<rparr>"

record urma_sge_t =
  sge_addr :: u64
  sge_len :: u32
  sge_tseg :: ptr
  sge_user_tseg :: ptr

definition default_urma_sge_t :: urma_sge_t where
  "default_urma_sge_t = \<lparr>sge_addr = 0, sge_len = 0, sge_tseg = 0,
     sge_user_tseg = 0\<rparr>"

record urma_sg_t =
  sg_sge :: "loc option"
  sg_num_sge :: u32

definition default_urma_sg_t :: urma_sg_t where
  "default_urma_sg_t = \<lparr>sg_sge = None, sg_num_sge = 0\<rparr>"

record urma_rw_wr_t =
  rw_src :: urma_sg_t
  rw_dst :: urma_sg_t
  rw_target_hint :: u8
  rw_notify_data :: u64

definition default_urma_rw_wr_t :: urma_rw_wr_t where
  "default_urma_rw_wr_t = \<lparr>rw_src = default_urma_sg_t, rw_dst = default_urma_sg_t,
     rw_target_hint = 0, rw_notify_data = 0\<rparr>"

record urma_jfs_wr_t =
  wr_opcode :: u32
  wr_flag :: urma_jfs_wr_flag_t
  wr_tjetty :: ptr
  wr_user_ctx :: u64
  wr_rw :: urma_rw_wr_t
  wr_next :: "loc option"

definition default_urma_jfs_wr_t :: urma_jfs_wr_t where
  "default_urma_jfs_wr_t = \<lparr>wr_opcode = 0, wr_flag = \<lparr>wr_flag_value = 0\<rparr>,
     wr_tjetty = 0, wr_user_ctx = 0, wr_rw = default_urma_rw_wr_t, wr_next = None\<rparr>"

record urma_jfr_wr_t =
  rwr_src :: urma_sg_t
  rwr_user_ctx :: u64
  rwr_next :: "loc option"

definition default_urma_jfr_wr_t :: urma_jfr_wr_t where
  "default_urma_jfr_wr_t = \<lparr>rwr_src = default_urma_sg_t, rwr_user_ctx = 0,
     rwr_next = None\<rparr>"

record urma_cr_t =
  cr_status :: i32
  cr_user_ctx :: u64
  cr_opcode :: i32
  cr_flag :: urma_cr_flag_t
  cr_completion_len :: u32
  cr_local_id :: u32
  cr_remote_id :: urma_jetty_id_t
  cr_imm_data :: u64
  cr_tpn :: u32
  cr_user_data :: usize

definition default_urma_cr_t :: urma_cr_t where
  "default_urma_cr_t = \<lparr>cr_status = 0, cr_user_ctx = 0, cr_opcode = 0,
     cr_flag = \<lparr>cr_flag_value = 0\<rparr>, cr_completion_len = 0, cr_local_id = 0,
     cr_remote_id = default_urma_jetty_id_t, cr_imm_data = 0, cr_tpn = 0,
     cr_user_data = 0\<rparr>"

text \<open>The unaligned accessors of the packed \<open>urma_ubva_t\<close>.\<close>

definition get_va :: "urma_ubva_t \<Rightarrow> u64" where
  "get_va u = ubva_va u"

definition set_va :: "urma_ubva_t \<Rightarrow> u64 \<Rightarrow> urma_ubva_t" where
  "set_va u v = u\<lparr>ubva_va := v\<rparr>"

lemma va_accessors:
  "get_va (set_va u v) = v" "ubva_eid (set_va u v) = ubva_eid u"
  "ubva_uasid (set_va u v) = ubva_uasid u"
  by (simp_all add: get_va_def set_va_def)

end
