(* ===== verification/Layout.thy ===== *)
theory Layout
  imports FfiTypes
begin

text \<open>
  The memory layout the bindings rely on. \<open>cty\<close> describes a type as \<open>repr(C)\<close> and the C ABI
  see it (LP64: pointers and \<open>size_t\<close> of 8 bytes), \<open>size_align\<close> and \<open>field_offsets\<close> are the
  layout algorithm. The bindings' structs (\<open>src/ffi.rs\<close>) and the header's
  (\<open>include/urma_types.h\<close>) are both written down as such descriptions, so that their agreement,
  which the unit tests of the crate pin down by constants, is a theorem.
\<close>

named_theorems lay_def "the layout descriptions"

section \<open>The layout algorithm\<close>

datatype cty =
    Scalar nat
  | CArray nat cty
  | CStruct "cty list"
  | CPacked "cty list"
  | CAligned nat cty
  | CUnion "cty list"

definition round_up :: "nat \<Rightarrow> nat \<Rightarrow> nat" where
  "round_up a n = (n + a - 1) div a * a"

fun field_starts :: "nat \<Rightarrow> (nat \<times> nat) list \<Rightarrow> nat list" where
  "field_starts off [] = []"
| "field_starts off (f # fs) =
     round_up (snd f) off # field_starts (round_up (snd f) off + fst f) fs"

fun fields_end :: "nat \<Rightarrow> (nat \<times> nat) list \<Rightarrow> nat" where
  "fields_end off [] = off"
| "fields_end off (f # fs) = fields_end (round_up (snd f) off + fst f) fs"

fun max_align :: "(nat \<times> nat) list \<Rightarrow> nat" where
  "max_align [] = 1"
| "max_align (f # fs) = max (snd f) (max_align fs)"

fun max_size :: "(nat \<times> nat) list \<Rightarrow> nat" where
  "max_size [] = 0"
| "max_size (f # fs) = max (fst f) (max_size fs)"

definition struct_size_align :: "(nat \<times> nat) list \<Rightarrow> nat \<times> nat" where
  "struct_size_align fs = (round_up (max_align fs) (fields_end 0 fs), max_align fs)"

definition union_size_align :: "(nat \<times> nat) list \<Rightarrow> nat \<times> nat" where
  "union_size_align fs = (round_up (max_align fs) (max_size fs), max_align fs)"

definition realign :: "nat \<Rightarrow> nat \<times> nat \<Rightarrow> nat \<times> nat" where
  "realign n f = (round_up (max n (snd f)) (fst f), max n (snd f))"

definition array_size_align :: "nat \<Rightarrow> nat \<times> nat \<Rightarrow> nat \<times> nat" where
  "array_size_align k f = (k * fst f, snd f)"

definition packed :: "nat \<times> nat \<Rightarrow> nat \<times> nat" where
  "packed f = (fst f, 1)"

primrec size_align :: "cty \<Rightarrow> nat \<times> nat" where
  "size_align (Scalar n) = (n, n)"
| "size_align (CArray k t) = array_size_align k (size_align t)"
| "size_align (CStruct ts) = struct_size_align (map size_align ts)"
| "size_align (CPacked ts) = struct_size_align (map packed (map size_align ts))"
| "size_align (CAligned n t) = realign n (size_align t)"
| "size_align (CUnion ts) = union_size_align (map size_align ts)"

fun field_offsets :: "cty \<Rightarrow> nat list" where
  "field_offsets (CStruct ts) = field_starts 0 (map size_align ts)"
| "field_offsets (CPacked ts) = field_starts 0 (map packed (map size_align ts))"
| "field_offsets (CAligned n t) = field_offsets t"
| "field_offsets (CUnion ts) = [0]"
| "field_offsets t = []"

section \<open>Its soundness\<close>

lemma round_up_ge: "0 < a \<Longrightarrow> n \<le> round_up a n"
proof -
  assume a: "0 < a"
  have "(n + a - 1) div a * a + (n + a - 1) mod a = n + a - 1" by simp
  moreover have "(n + a - 1) mod a < a" using a by simp
  ultimately show ?thesis unfolding round_up_def using a by linarith
qed

lemma round_up_dvd [simp]: "a dvd round_up a n"
  by (simp add: round_up_def)

lemma length_field_starts [simp]: "length (field_starts off fs) = length fs"
  by (induction off fs rule: field_starts.induct) auto

lemma fields_end_ge: "\<forall>f \<in> set fs. 0 < snd f \<Longrightarrow> off \<le> fields_end off fs"
proof (induction off fs rule: fields_end.induct)
  case (2 off f fs)
  then show ?case using round_up_ge [of "snd f" off] by simp
qed simp

text \<open>
  Every field starts at a multiple of its alignment, after the offset the struct started
  from, and ends before the end of the fields.
\<close>

lemma field_starts_bounds:
  assumes "\<forall>f \<in> set fs. 0 < snd f" and "i < length fs"
  shows "off \<le> field_starts off fs ! i
    \<and> snd (fs ! i) dvd field_starts off fs ! i
    \<and> field_starts off fs ! i + fst (fs ! i) \<le> fields_end off fs"
  using assms
proof (induction off fs arbitrary: i rule: field_starts.induct)
  case (2 off f fs)
  let ?st = "round_up (snd f) off"
  have ge: "off \<le> ?st" using 2(2) by (simp add: round_up_ge)
  show ?case
  proof (cases i)
    case 0
    then show ?thesis using ge fields_end_ge [of fs "?st + fst f"] 2(2) by simp
  next
    case (Suc k)
    then show ?thesis using ge 2(1) [of k] 2(2,3) by simp
  qed
qed simp

lemma field_starts_disjoint:
  assumes "\<forall>f \<in> set fs. 0 < snd f" and "i < j" and "j < length fs"
  shows "field_starts off fs ! i + fst (fs ! i) \<le> field_starts off fs ! j"
  using assms
proof (induction off fs arbitrary: i j rule: field_starts.induct)
  case (2 off f fs)
  obtain k where j: "j = Suc k" and k: "k < length fs" using 2(3,4) by (cases j) auto
  have pos: "\<forall>f \<in> set fs. 0 < snd f" using 2(2) by simp
  show ?case
  proof (cases i)
    case 0
    then show ?thesis using field_starts_bounds [OF pos k] j by simp
  next
    case (Suc m)
    then show ?thesis using 2(1) [OF pos, of m k] 2(3) j k by simp
  qed
qed simp

lemma max_align_pos: "0 < max_align fs"
  by (induction fs) (auto simp: less_max_iff_disj)

lemma max_align_ge: "f \<in> set fs \<Longrightarrow> snd f \<le> max_align fs"
  by (induction fs) auto

section \<open>The bindings\<close>

definition lay_urma_device_feature_t :: cty where
  [lay_def]: "lay_urma_device_feature_t = CStruct [Scalar 4]"

definition lay_urma_atomic_feature_t :: cty where
  [lay_def]: "lay_urma_atomic_feature_t = CStruct [Scalar 4]"

definition lay_urma_tp_type_cap_t :: cty where
  [lay_def]: "lay_urma_tp_type_cap_t = CStruct [Scalar 4]"

definition lay_urma_order_type_cap_t :: cty where
  [lay_def]: "lay_urma_order_type_cap_t = CStruct [Scalar 4]"

definition lay_urma_tp_feature_t :: cty where
  [lay_def]: "lay_urma_tp_feature_t = CStruct [Scalar 4]"

definition lay_urma_tp_type_en_t :: cty where
  [lay_def]: "lay_urma_tp_type_en_t = CStruct [Scalar 4]"

definition lay_urma_jfc_flag_t :: cty where
  [lay_def]: "lay_urma_jfc_flag_t = CStruct [Scalar 4]"

definition lay_urma_jfs_flag_t :: cty where
  [lay_def]: "lay_urma_jfs_flag_t = CStruct [Scalar 4]"

definition lay_urma_jfr_flag_t :: cty where
  [lay_def]: "lay_urma_jfr_flag_t = CStruct [Scalar 4]"

definition lay_urma_jetty_flag_t :: cty where
  [lay_def]: "lay_urma_jetty_flag_t = CStruct [Scalar 4]"

definition lay_urma_import_jetty_flag_t :: cty where
  [lay_def]: "lay_urma_import_jetty_flag_t = CStruct [Scalar 4]"

definition lay_urma_reg_seg_flag_t :: cty where
  [lay_def]: "lay_urma_reg_seg_flag_t = CStruct [Scalar 4]"

definition lay_urma_seg_attr_t :: cty where
  [lay_def]: "lay_urma_seg_attr_t = CStruct [Scalar 4]"

definition lay_urma_import_seg_flag_t :: cty where
  [lay_def]: "lay_urma_import_seg_flag_t = CStruct [Scalar 4]"

definition lay_urma_jfs_wr_flag_t :: cty where
  [lay_def]: "lay_urma_jfs_wr_flag_t = CStruct [Scalar 4]"

definition lay_urma_cr_flag_t :: cty where
  [lay_def]: "lay_urma_cr_flag_t = CStruct [Scalar 1]"

definition lay_urma_token_t :: cty where
  [lay_def]: "lay_urma_token_t = CStruct [Scalar 4]"

definition lay_urma_eid_t :: cty where
  [lay_def]: "lay_urma_eid_t = CAligned 8 (CStruct [CArray (unat URMA_EID_SIZE) (Scalar 1)])"

definition lay_urma_init_attr_t :: cty where
  [lay_def]: "lay_urma_init_attr_t = CStruct [Scalar 8, Scalar 4]"

definition lay_urma_device_t :: cty where
  [lay_def]: "lay_urma_device_t = CStruct [CArray (unat URMA_MAX_NAME) (Scalar 1),
     CArray (unat URMA_MAX_PATH) (Scalar 1), Scalar 4, Scalar 8, Scalar 8]"

definition lay_urma_eid_info_t :: cty where
  [lay_def]: "lay_urma_eid_info_t = CStruct [lay_urma_eid_t, Scalar 4]"

definition lay_urma_sl_info_t :: cty where
  [lay_def]: "lay_urma_sl_info_t = CStruct [Scalar 4, lay_urma_tp_type_en_t]"

definition lay_urma_port_attr_t :: cty where
  [lay_def]: "lay_urma_port_attr_t = CStruct [Scalar 4, Scalar 4, Scalar 4, Scalar 4, Scalar 4]"

definition lay_urma_guid_t :: cty where
  [lay_def]: "lay_urma_guid_t = CStruct [CArray (unat URMA_GUID_SIZE) (Scalar 1)]"

definition lay_urma_device_cap_t :: cty where
  [lay_def]: "lay_urma_device_cap_t = CStruct [lay_urma_device_feature_t, Scalar 4, Scalar 4,
     Scalar 4, Scalar 4, Scalar 4, Scalar 4, Scalar 4, Scalar 4, Scalar 4, Scalar 4, Scalar 4,
     Scalar 4, Scalar 4, Scalar 8, Scalar 4, Scalar 4, Scalar 4, Scalar 4, Scalar 4, Scalar 4,
     Scalar 4, Scalar 4, Scalar 4, lay_urma_atomic_feature_t, Scalar 2, Scalar 2, Scalar 2,
     Scalar 4, Scalar 4, Scalar 4, Scalar 8, Scalar 4, Scalar 4, Scalar 4,
     lay_urma_order_type_cap_t, lay_urma_order_type_cap_t, lay_urma_tp_type_cap_t,
     lay_urma_tp_type_cap_t, lay_urma_tp_type_cap_t, lay_urma_tp_feature_t,
     CArray (unat URMA_MAX_PRIORITY_CNT) (lay_urma_sl_info_t)]"

definition lay_urma_device_attr_t :: cty where
  [lay_def]: "lay_urma_device_attr_t = CStruct [lay_urma_guid_t, lay_urma_device_cap_t,
     Scalar 1, CArray (unat MAX_PORT_CNT) (lay_urma_port_attr_t), Scalar 4, Scalar 4]"

definition lay_urma_jfc_cfg_t :: cty where
  [lay_def]: "lay_urma_jfc_cfg_t = CStruct [Scalar 4, lay_urma_jfc_flag_t, Scalar 4, Scalar 8,
     Scalar 8]"

definition lay_urma_jetty_id_t :: cty where
  [lay_def]: "lay_urma_jetty_id_t = CStruct [lay_urma_eid_t, Scalar 4, Scalar 4]"

definition lay_urma_jfs_cfg_t :: cty where
  [lay_def]: "lay_urma_jfs_cfg_t = CStruct [Scalar 4, lay_urma_jfs_flag_t, Scalar 4, Scalar 1,
     Scalar 1, Scalar 1, Scalar 4, Scalar 1, Scalar 1, Scalar 8, Scalar 8]"

definition lay_urma_jfr_cfg_t :: cty where
  [lay_def]: "lay_urma_jfr_cfg_t = CStruct [Scalar 4, Scalar 4, lay_urma_jfr_flag_t, Scalar 4,
     Scalar 1, Scalar 1, Scalar 8, lay_urma_token_t, Scalar 8]"

definition lay_urma_jetty_recv_cfg_t :: cty where
  [lay_def]: "lay_urma_jetty_recv_cfg_t = CStruct [Scalar 8, Scalar 8]"

definition lay_urma_jetty_cfg_t :: cty where
  [lay_def]: "lay_urma_jetty_cfg_t = CStruct [Scalar 4, lay_urma_jetty_flag_t,
     lay_urma_jfs_cfg_t, lay_urma_jetty_recv_cfg_t, Scalar 8, Scalar 8]"

definition lay_urma_jetty_t :: cty where
  [lay_def]: "lay_urma_jetty_t = CStruct [Scalar 8, lay_urma_jetty_id_t, Scalar 8,
     CArray 0 (Scalar 1)]"

definition lay_urma_rjetty_t :: cty where
  [lay_def]: "lay_urma_rjetty_t = CStruct [lay_urma_jetty_id_t, Scalar 4, Scalar 4, Scalar 4,
     lay_urma_import_jetty_flag_t, Scalar 4]"

definition lay_urma_ubva_t :: cty where
  [lay_def]: "lay_urma_ubva_t = CPacked [CArray (unat URMA_EID_SIZE) (Scalar 1), Scalar 4,
     Scalar 8]"

definition lay_urma_seg_t :: cty where
  [lay_def]: "lay_urma_seg_t = CStruct [lay_urma_ubva_t, Scalar 8, lay_urma_seg_attr_t,
     Scalar 4]"

definition lay_urma_seg_cfg_t :: cty where
  [lay_def]: "lay_urma_seg_cfg_t = CStruct [Scalar 8, Scalar 8, Scalar 8, lay_urma_token_t,
     lay_urma_reg_seg_flag_t, Scalar 8, Scalar 8]"

definition lay_urma_target_seg_t :: cty where
  [lay_def]: "lay_urma_target_seg_t = CStruct [lay_urma_seg_t, Scalar 8, Scalar 8, Scalar 8,
     Scalar 8, Scalar 8]"

definition lay_urma_sge_t :: cty where
  [lay_def]: "lay_urma_sge_t = CStruct [Scalar 8, Scalar 4, Scalar 8, Scalar 8]"

definition lay_urma_sg_t :: cty where
  [lay_def]: "lay_urma_sg_t = CStruct [Scalar 8, Scalar 4]"

definition lay_urma_rw_wr_t :: cty where
  [lay_def]: "lay_urma_rw_wr_t = CStruct [lay_urma_sg_t, lay_urma_sg_t, Scalar 1, Scalar 8]"

definition lay_urma_jfs_wr_t :: cty where
  [lay_def]: "lay_urma_jfs_wr_t = CStruct [Scalar 4, lay_urma_jfs_wr_flag_t, Scalar 8,
     Scalar 8, lay_urma_rw_wr_t, Scalar 8]"

definition lay_urma_jfr_wr_t :: cty where
  [lay_def]: "lay_urma_jfr_wr_t = CStruct [lay_urma_sg_t, Scalar 8, Scalar 8]"

definition lay_urma_cr_t :: cty where
  [lay_def]: "lay_urma_cr_t = CStruct [Scalar 4, Scalar 8, Scalar 4, lay_urma_cr_flag_t,
     Scalar 4, Scalar 4, lay_urma_jetty_id_t, Scalar 8, Scalar 4, Scalar 8]"

text \<open>
  The same structs as \<open>include/urma_types.h\<close> declares them: a C enum is a 4-byte scalar, a
  bit-field struct occupies the word of its \<open>uint32_t\<close> (or \<open>uint8_t\<close>) members, so a flag
  union is the union of two scalars of that size.
\<close>

definition c_flag32 :: cty where [lay_def]: "c_flag32 = CUnion [Scalar 4, Scalar 4]"
definition c_flag8 :: cty where [lay_def]: "c_flag8 = CUnion [Scalar 1, Scalar 1]"
definition c_enum :: cty where [lay_def]: "c_enum = Scalar 4"
definition c_ptr :: cty where [lay_def]: "c_ptr = Scalar 8"

definition c_urma_eid_t :: cty where
  [lay_def]: "c_urma_eid_t = CUnion [CArray 16 (Scalar 1), CStruct [Scalar 8, Scalar 4, Scalar 4],
     CStruct [Scalar 8, Scalar 8]]"

definition c_urma_device_t :: cty where
  [lay_def]: "c_urma_device_t = CStruct [CArray 64 (Scalar 1), CArray 4096 (Scalar 1), c_enum, c_ptr, c_ptr]"

definition c_urma_init_attr_t :: cty where
  [lay_def]: "c_urma_init_attr_t = CStruct [Scalar 8, Scalar 4]"

definition c_urma_eid_info_t :: cty where
  [lay_def]: "c_urma_eid_info_t = CStruct [c_urma_eid_t, Scalar 4]"

definition c_urma_jfc_cfg_t :: cty where
  [lay_def]: "c_urma_jfc_cfg_t = CStruct [Scalar 4, c_flag32, Scalar 4, c_ptr, Scalar 8]"

definition c_urma_jetty_id_t :: cty where
  [lay_def]: "c_urma_jetty_id_t = CStruct [c_urma_eid_t, Scalar 4, Scalar 4]"

definition c_urma_token_t :: cty where
  [lay_def]: "c_urma_token_t = CStruct [Scalar 4]"

definition c_urma_jfs_cfg_t :: cty where
  [lay_def]: "c_urma_jfs_cfg_t = CStruct [Scalar 4, c_flag32, c_enum, Scalar 1, Scalar 1, Scalar 1,
     Scalar 4, Scalar 1, Scalar 1, c_ptr, Scalar 8]"

definition c_urma_jfr_cfg_t :: cty where
  [lay_def]: "c_urma_jfr_cfg_t = CStruct [Scalar 4, Scalar 4, c_flag32, c_enum, Scalar 1, Scalar 1,
     c_ptr, c_urma_token_t, Scalar 8]"

definition c_urma_jetty_recv_cfg_t :: cty where
  [lay_def]: "c_urma_jetty_recv_cfg_t = CStruct [c_ptr, c_ptr]"

definition c_urma_jetty_cfg_t :: cty where
  [lay_def]: "c_urma_jetty_cfg_t = CStruct [Scalar 4, c_flag32, c_urma_jfs_cfg_t,
     CUnion [c_urma_jetty_recv_cfg_t, c_ptr], c_ptr, Scalar 8]"

definition c_urma_rjetty_t :: cty where
  [lay_def]: "c_urma_rjetty_t = CStruct [c_urma_jetty_id_t, c_enum, c_enum, c_enum, c_flag32, c_enum]"

definition c_urma_jetty_t :: "cty list \<Rightarrow> cty" where
  [lay_def]: "c_urma_jetty_t rest = CStruct ([c_ptr, c_urma_jetty_id_t, c_ptr] @ rest)"

definition c_urma_seg_cfg_t :: cty where
  [lay_def]: "c_urma_seg_cfg_t = CStruct [Scalar 8, Scalar 8, c_ptr, c_urma_token_t, c_flag32, Scalar 8,
     Scalar 8]"

definition c_urma_ubva_t :: cty where
  [lay_def]: "c_urma_ubva_t = CPacked [c_urma_eid_t, Scalar 4, Scalar 8]"

definition c_urma_seg_t :: cty where
  [lay_def]: "c_urma_seg_t = CStruct [c_urma_ubva_t, Scalar 8, c_flag32, Scalar 4]"

definition c_urma_target_seg_t :: cty where
  [lay_def]: "c_urma_target_seg_t = CStruct [c_urma_seg_t, Scalar 8, Scalar 8, c_ptr, c_ptr, Scalar 8]"

definition c_urma_sge_t :: cty where
  [lay_def]: "c_urma_sge_t = CStruct [Scalar 8, Scalar 4, c_ptr, c_ptr]"

definition c_urma_sg_t :: cty where
  [lay_def]: "c_urma_sg_t = CStruct [c_ptr, Scalar 4]"

definition c_urma_rw_wr_t :: cty where
  [lay_def]: "c_urma_rw_wr_t = CStruct [c_urma_sg_t, c_urma_sg_t, Scalar 1, Scalar 8]"

definition c_urma_send_wr_t :: cty where
  [lay_def]: "c_urma_send_wr_t = CStruct [c_urma_sg_t, Scalar 1, Scalar 8, c_ptr]"

definition c_urma_cas_wr_t :: cty where
  [lay_def]: "c_urma_cas_wr_t = CStruct [c_ptr, c_ptr, CUnion [Scalar 8, Scalar 8], CUnion [Scalar 8, Scalar 8]]"

definition c_urma_faa_wr_t :: cty where
  [lay_def]: "c_urma_faa_wr_t = CStruct [c_ptr, c_ptr, CUnion [Scalar 8, Scalar 8]]"

definition c_urma_jfs_wr_t :: cty where
  [lay_def]: "c_urma_jfs_wr_t = CStruct [c_enum, c_flag32, c_ptr, Scalar 8,
     CUnion [c_urma_rw_wr_t, c_urma_send_wr_t, c_urma_cas_wr_t, c_urma_faa_wr_t], c_ptr]"

definition c_urma_jfr_wr_t :: cty where
  [lay_def]: "c_urma_jfr_wr_t = CStruct [c_urma_sg_t, Scalar 8, c_ptr]"

definition c_urma_cr_t :: cty where
  [lay_def]: "c_urma_cr_t = CStruct [c_enum, Scalar 8, c_enum, c_flag8, Scalar 4, Scalar 4,
     c_urma_jetty_id_t, CUnion [Scalar 8, CStruct [Scalar 4, c_urma_token_t]], Scalar 4, Scalar 8]"

definition c_urma_sl_info_t :: cty where
  [lay_def]: "c_urma_sl_info_t = CStruct [Scalar 4, c_flag32]"

definition c_urma_port_attr_t :: cty where
  [lay_def]: "c_urma_port_attr_t = CStruct [c_enum, c_enum, c_enum, c_enum, c_enum]"

definition c_urma_guid_t :: cty where
  [lay_def]: "c_urma_guid_t = CStruct [CArray 16 (Scalar 1)]"

definition c_urma_device_cap_t :: cty where
  [lay_def]: "c_urma_device_cap_t = CStruct [c_flag32, Scalar 4, Scalar 4, Scalar 4, Scalar 4, Scalar 4,
     Scalar 4, Scalar 4, Scalar 4, Scalar 4, Scalar 4, Scalar 4, Scalar 4, Scalar 4, Scalar 8,
     Scalar 4, Scalar 4, Scalar 4, Scalar 4, Scalar 4, Scalar 4, Scalar 4, Scalar 4, Scalar 4,
     c_flag32, Scalar 2, Scalar 2, Scalar 2, Scalar 4, Scalar 4, Scalar 4, Scalar 8, Scalar 4,
     Scalar 4, Scalar 4, c_flag32, c_flag32, c_flag32, c_flag32, c_flag32, c_flag32,
     CArray 16 c_urma_sl_info_t]"

definition c_urma_device_attr_t :: cty where
  [lay_def]: "c_urma_device_attr_t = CStruct [c_urma_guid_t, c_urma_device_cap_t, Scalar 1,
     CArray 8 c_urma_port_attr_t, Scalar 4, Scalar 4]"

section \<open>The bindings agree with the header\<close>

definition layout_report :: "cty \<Rightarrow> (nat \<times> nat) \<times> nat list" where
  "layout_report t = (size_align t, field_offsets t)"

definition rust_structs :: "cty list" where
  "rust_structs = [
     lay_urma_eid_t, lay_urma_device_t, lay_urma_init_attr_t, lay_urma_eid_info_t,
     lay_urma_jfc_cfg_t, lay_urma_jetty_id_t, lay_urma_jfs_cfg_t, lay_urma_jfr_cfg_t,
     lay_urma_jetty_recv_cfg_t, lay_urma_jetty_cfg_t, lay_urma_rjetty_t, lay_urma_seg_cfg_t,
     lay_urma_ubva_t, lay_urma_seg_t, lay_urma_target_seg_t, lay_urma_sge_t, lay_urma_sg_t,
     lay_urma_rw_wr_t, lay_urma_jfs_wr_t, lay_urma_jfr_wr_t, lay_urma_cr_t,
     lay_urma_sl_info_t, lay_urma_port_attr_t, lay_urma_guid_t, lay_urma_device_cap_t,
     lay_urma_device_attr_t]"

definition c_structs :: "cty list" where
  "c_structs = [
     c_urma_eid_t, c_urma_device_t, c_urma_init_attr_t, c_urma_eid_info_t, c_urma_jfc_cfg_t,
     c_urma_jetty_id_t, c_urma_jfs_cfg_t, c_urma_jfr_cfg_t, c_urma_jetty_recv_cfg_t,
     c_urma_jetty_cfg_t, c_urma_rjetty_t, c_urma_seg_cfg_t, c_urma_ubva_t, c_urma_seg_t,
     c_urma_target_seg_t, c_urma_sge_t, c_urma_sg_t, c_urma_rw_wr_t, c_urma_jfs_wr_t,
     c_urma_jfr_wr_t, c_urma_cr_t, c_urma_sl_info_t, c_urma_port_attr_t, c_urma_guid_t,
     c_urma_device_cap_t, c_urma_device_attr_t]"

text \<open>\<open>offset_of!\<close> of a field, counted by its position.\<close>

definition offset_of :: "cty \<Rightarrow> nat \<Rightarrow> nat" where
  "offset_of t k = field_offsets t ! k"

lemmas layout_simps = layout_report_def round_up_def struct_size_align_def union_size_align_def
  realign_def array_size_align_def packed_def offset_of_def

lemma fields_end_le_size: "fields_end 0 fs \<le> fst (struct_size_align fs)"
  by (simp add: struct_size_align_def round_up_ge max_align_pos)

section \<open>Properties\<close>


text \<open>
  On the layout algorithm. Every field of a struct starts at a multiple of its alignment,
  ends before the next one starts and within the struct's size.
\<close>

theorem struct_fields_sound:
  assumes "\<forall>t \<in> set ts. 0 < snd (size_align t)" and "i < length ts"
  shows "snd (size_align (ts ! i)) dvd offset_of (CStruct ts) i
    \<and> offset_of (CStruct ts) i + fst (size_align (ts ! i)) \<le> fst (size_align (CStruct ts))
    \<and> (\<forall>j \<in> {Suc i..<length ts}.
      offset_of (CStruct ts) i + fst (size_align (ts ! i)) \<le> offset_of (CStruct ts) j)"
proof -
  let ?fs = "map size_align ts"
  have pos: "\<forall>f \<in> set ?fs. 0 < snd f" and len: "i < length ?fs" using assms by auto
  note b = field_starts_bounds [OF pos len, of 0]
  have "snd (size_align (ts ! i)) dvd offset_of (CStruct ts) i"
    "offset_of (CStruct ts) i + fst (size_align (ts ! i)) \<le> fst (size_align (CStruct ts))"
    using b assms fields_end_le_size [of ?fs] by (simp_all add: offset_of_def)
  moreover have "\<forall>j \<in> {Suc i..<length ts}.
      offset_of (CStruct ts) i + fst (size_align (ts ! i)) \<le> offset_of (CStruct ts) j"
    using field_starts_disjoint [OF pos, of i] assms by (auto simp: offset_of_def)
  ultimately show ?thesis by blast
qed

theorem struct_fields_sound_witness:
  "offset_of (CStruct [Scalar 1, Scalar 8]) 0 + 1 \<le> offset_of (CStruct [Scalar 1, Scalar 8]) 1"
  using struct_fields_sound [of "[Scalar 1, Scalar 8]" 0] by simp

end
