(* ===== verification/DeviceCaps.thy ===== *)
theory DeviceCaps
  imports FfiTypes
begin

text \<open>
  Device capabilities (\<open>src/urma.rs\<close>, section "Device capabilities"): the transport modes and
  tp types, the safe view \<open>DeviceCap\<close> decoded from the raw \<open>urma_device_cap_t\<close>, the queries
  on it and its display. \<open>query_device\<close>, which fetches the raw record from the library, is with
  the provider calls.
\<close>

section \<open>Transport modes and tp types\<close>

datatype TransMode = Rm | Rc | Um

definition TransMode_ALL :: "TransMode list" where
  "TransMode_ALL = [Rm, Rc, Um]"

fun tm_bit :: "TransMode \<Rightarrow> u32" where
  "tm_bit Rm = URMA_TM_RM"
| "tm_bit Rc = URMA_TM_RC"
| "tm_bit Um = URMA_TM_UM"

fun tm_name :: "TransMode \<Rightarrow> string" where
  "tm_name Rm = ''RM''"
| "tm_name Rc = ''RC''"
| "tm_name Um = ''UM''"

datatype TpType = Rtp | Ctp | Utp

definition TpType_ALL :: "TpType list" where
  "TpType_ALL = [Rtp, Ctp, Utp]"

fun tp_raw :: "TpType \<Rightarrow> u32" where
  "tp_raw Rtp = URMA_TP_RTP"
| "tp_raw Ctp = URMA_TP_CTP"
| "tp_raw Utp = URMA_TP_UTP"

fun tp_name :: "TpType \<Rightarrow> string" where
  "tp_name Rtp = ''RTP''"
| "tp_name Ctp = ''CTP''"
| "tp_name Utp = ''UTP''"

record TpTypeCap =
  rtp :: bool
  ctp :: bool
  utp :: bool

record OrderTypeCap =
  ot :: bool
  oi :: bool
  ol :: bool
  no :: bool

definition default_OrderTypeCap :: OrderTypeCap where
  "default_OrderTypeCap = \<lparr>ot = False, oi = False, ol = False, no = False\<rparr>"

section \<open>The capability record\<close>

record DeviceCap =
  trans_modes :: u16
  dev_ctp_en :: bool
  rm_tp_cap :: TpTypeCap
  rc_tp_cap :: TpTypeCap
  um_tp_cap :: TpTypeCap
  rm_order_cap :: OrderTypeCap
  rc_order_cap :: OrderTypeCap
  rm_multi_path :: bool
  rc_multi_path :: bool
  max_jfs_sge :: u32
  max_jfr_sge :: u32
  max_msg_size :: u64
  max_jfs_depth :: u32
  max_jfr_depth :: u32
  max_jfc_depth :: u32
  max_read_size :: u64
  max_write_size :: u64
  page_size_cap :: u64
  priority_tp :: "TpTypeCap list"

definition tp_cap_of :: "urma_tp_type_cap_t \<Rightarrow> TpTypeCap" where
  "tp_cap_of c = \<lparr>rtp = cap_rtp c, ctp = cap_ctp c, utp = cap_utp c\<rparr>"

definition order_cap_of :: "urma_order_type_cap_t \<Rightarrow> OrderTypeCap" where
  "order_cap_of c = \<lparr>ot = cap_ot c, oi = cap_oi c, ol = cap_ol c, no = cap_no c\<rparr>"

definition sl_tp_cap :: "urma_sl_info_t \<Rightarrow> TpTypeCap" where
  "sl_tp_cap sl =
     \<lparr>rtp = (tp_en_value (sl_tp_type sl) AND URMA_TP_TYPE_CAP_RTP \<noteq> 0),
      ctp = (tp_en_value (sl_tp_type sl) AND URMA_TP_TYPE_CAP_CTP \<noteq> 0),
      utp = (tp_en_value (sl_tp_type sl) AND URMA_TP_TYPE_CAP_UTP \<noteq> 0)\<rparr>"

definition DeviceCap_from_raw :: "urma_device_cap_t \<Rightarrow> DeviceCap" where
  "DeviceCap_from_raw cap =
     \<lparr>trans_modes = dc_trans_mode cap,
      dev_ctp_en = ctp_en (dc_feature cap),
      rm_tp_cap = tp_cap_of (dc_rm_tp_cap cap),
      rc_tp_cap = tp_cap_of (dc_rc_tp_cap cap),
      um_tp_cap = tp_cap_of (dc_um_tp_cap cap),
      rm_order_cap = order_cap_of (dc_rm_order_cap cap),
      rc_order_cap = order_cap_of (dc_rc_order_cap cap),
      rm_multi_path = feat_rm_multi_path (dc_tp_feature cap),
      rc_multi_path = feat_rc_multi_path (dc_tp_feature cap),
      max_jfs_sge = dc_max_jfs_sge cap,
      max_jfr_sge = dc_max_jfr_sge cap,
      max_msg_size = dc_max_msg_size cap,
      max_jfs_depth = dc_max_jfs_depth cap,
      max_jfr_depth = dc_max_jfr_depth cap,
      max_jfc_depth = dc_max_jfc_depth cap,
      max_read_size = ucast (dc_max_read_size cap),
      max_write_size = ucast (dc_max_write_size cap),
      page_size_cap = dc_page_size_cap cap,
      priority_tp = map sl_tp_cap (dc_priority_info cap)\<rparr>"

section \<open>Queries\<close>

definition supports_mode :: "DeviceCap \<Rightarrow> TransMode \<Rightarrow> bool" where
  "supports_mode cap m = (trans_modes cap AND ucast (tm_bit m) \<noteq> 0)"

fun tp_cap :: "DeviceCap \<Rightarrow> TransMode \<Rightarrow> TpTypeCap" where
  "tp_cap cap Rm = rm_tp_cap cap"
| "tp_cap cap Rc = rc_tp_cap cap"
| "tp_cap cap Um = um_tp_cap cap"

fun order_cap :: "DeviceCap \<Rightarrow> TransMode \<Rightarrow> OrderTypeCap" where
  "order_cap cap Rm = rm_order_cap cap"
| "order_cap cap Rc = rc_order_cap cap"
| "order_cap cap Um = default_OrderTypeCap"

fun supports_multi_path :: "DeviceCap \<Rightarrow> TransMode \<Rightarrow> bool" where
  "supports_multi_path cap Rm = rm_multi_path cap"
| "supports_multi_path cap Rc = rc_multi_path cap"
| "supports_multi_path cap Um = False"

definition supports :: "DeviceCap \<Rightarrow> TransMode \<Rightarrow> TpType \<Rightarrow> bool" where
  "supports cap m tp =
     (let c = tp_cap cap m;
          tp_ok = (case tp of Rtp \<Rightarrow> rtp c | Ctp \<Rightarrow> ctp c \<and> dev_ctp_en cap | Utp \<Rightarrow> utp c)
      in supports_mode cap m \<and> tp_ok)"

fun combos_tp :: "DeviceCap \<Rightarrow> TransMode \<Rightarrow> TpType list \<Rightarrow> (TransMode \<times> TpType) list
    \<Rightarrow> (TransMode \<times> TpType) list" where
  "combos_tp cap m [] combos = combos"
| "combos_tp cap m (tp # tps) combos =
     combos_tp cap m tps (if supports cap m tp then combos @ [(m, tp)] else combos)"

fun combos_mode :: "DeviceCap \<Rightarrow> TransMode list \<Rightarrow> (TransMode \<times> TpType) list
    \<Rightarrow> (TransMode \<times> TpType) list" where
  "combos_mode cap [] combos = combos"
| "combos_mode cap (m # ms) combos = combos_mode cap ms (combos_tp cap m TpType_ALL combos)"

definition supported_combos :: "DeviceCap \<Rightarrow> (TransMode \<times> TpType) list" where
  "supported_combos cap = combos_mode cap TransMode_ALL []"

fun tp_class :: "TpType \<Rightarrow> TpTypeCap \<Rightarrow> bool" where
  "tp_class Rtp c = rtp c"
| "tp_class Ctp c = ctp c"
| "tp_class Utp c = utp c"

definition priority_for :: "DeviceCap \<Rightarrow> TpType \<Rightarrow> u8 option" where
  "priority_for cap tp = map_option of_nat (position (tp_class tp) (priority_tp cap))"

section \<open>Display\<close>

definition selected :: "(bool \<times> string) list \<Rightarrow> string list" where
  "selected xs = map snd (filter fst xs)"

definition mode_text :: "DeviceCap \<Rightarrow> TransMode \<Rightarrow> string" where
  "mode_text cap m =
     (let tp = tp_cap cap m;
          tps = selected [(rtp tp, tp_name Rtp), (ctp tp, tp_name Ctp), (utp tp, tp_name Utp)];
          o' = order_cap cap m;
          ords = selected [(ot o', ''ot''), (oi o', ''oi''), (ol o', ''ol''), (no o', ''no'')]
      in tm_name m @ ''[tp='' @ join '','' tps
         @ (if ords = [] then [] else '' order='' @ join '','' ords)
         @ (if supports_multi_path cap m then '' multi-path'' else [])
         @ '']'')"

fun modes_text :: "DeviceCap \<Rightarrow> TransMode list \<Rightarrow> bool \<Rightarrow> string \<times> bool" where
  "modes_text cap [] any = ([], any)"
| "modes_text cap (m # ms) any =
     (if \<not> supports_mode cap m then modes_text cap ms any
      else let (rest, any') = modes_text cap ms True
           in ((if any then '' '' else []) @ mode_text cap m @ rest, any'))"

definition show_DeviceCap :: "DeviceCap \<Rightarrow> string" where
  "show_DeviceCap cap =
     (let (body, any) = modes_text cap TransMode_ALL False
      in body @ (if \<not> any then ''(no transport mode advertised)''
                 else if \<not> dev_ctp_en cap then '' (ctp_en off: CTP unavailable)''
                 else []))"

section \<open>Lemmas\<close>

lemma combos_tp_eq:
  "combos_tp cap m tps acc = acc @ map (Pair m) (filter (supports cap m) tps)"
  by (induction tps arbitrary: acc) auto

lemma combos_mode_eq:
  "combos_mode cap ms acc =
     acc @ concat (map (\<lambda>m. map (Pair m) (filter (supports cap m) TpType_ALL)) ms)"
  by (induction ms arbitrary: acc) (auto simp: combos_tp_eq)

lemma supported_combos_eq:
  "supported_combos cap = filter (\<lambda>(m, tp). supports cap m tp) (List.product TransMode_ALL TpType_ALL)"
  by (simp add: supported_combos_def combos_mode_eq TransMode_ALL_def TpType_ALL_def)

lemma TransMode_ALL_complete [simp]: "m \<in> set TransMode_ALL" "distinct TransMode_ALL"
  by (cases m; simp add: TransMode_ALL_def) (simp add: TransMode_ALL_def)

lemma TpType_ALL_complete [simp]: "tp \<in> set TpType_ALL" "distinct TpType_ALL"
  by (cases tp; simp add: TpType_ALL_def) (simp add: TpType_ALL_def)

text \<open>The bit positions the decoded flags come from.\<close>

fun tm_pos :: "TransMode \<Rightarrow> nat" where
  "tm_pos Rm = 0" | "tm_pos Rc = 1" | "tm_pos Um = 2"

fun tp_pos :: "TpType \<Rightarrow> nat" where
  "tp_pos Rtp = 0" | "tp_pos Ctp = 1" | "tp_pos Utp = 2"

fun raw_tp_cap :: "urma_device_cap_t \<Rightarrow> TransMode \<Rightarrow> u32" where
  "raw_tp_cap cap Rm = tp_cap_value (dc_rm_tp_cap cap)"
| "raw_tp_cap cap Rc = tp_cap_value (dc_rc_tp_cap cap)"
| "raw_tp_cap cap Um = tp_cap_value (dc_um_tp_cap cap)"

lemma tm_bit_exp: "ucast (tm_bit m) = (push_bit (tm_pos m) 1 :: u16)"
  by (cases m) (simp_all add: ffi_const)

lemma supports_mode_bit: "supports_mode cap m \<longleftrightarrow> bit (trans_modes cap) (tm_pos m)"
  by (simp only: supports_mode_def tm_bit_exp and_bit_nonzero)

lemmas tp_bit_defs = cap_rtp_def cap_ctp_def cap_utp_def URMA_TP_TYPE_CAP_RTP_def
  URMA_TP_TYPE_CAP_CTP_def URMA_TP_TYPE_CAP_UTP_def and_bit_nonzero

lemma tp_class_tp_cap_of: "tp_class tp (tp_cap_of c) \<longleftrightarrow> bit (tp_cap_value c) (tp_pos tp)"
  by (cases tp) (simp_all only: tp_cap_of_def TpTypeCap.simps tp_class.simps tp_pos.simps tp_bit_defs)

lemma tp_class_sl: "tp_class tp (sl_tp_cap sl) \<longleftrightarrow> bit (tp_en_value (sl_tp_type sl)) (tp_pos tp)"
  by (cases tp) (simp_all only: sl_tp_cap_def TpTypeCap.simps tp_class.simps tp_pos.simps tp_bit_defs)

lemma supports_iff:
  "supports cap m tp \<longleftrightarrow>
     supports_mode cap m \<and> tp_class tp (tp_cap cap m) \<and> (tp = Ctp \<longrightarrow> dev_ctp_en cap)"
  by (cases tp) (auto simp: supports_def)

lemma tp_cap_from_raw:
  "tp_class tp (tp_cap (DeviceCap_from_raw raw) m) \<longleftrightarrow> bit (raw_tp_cap raw m) (tp_pos tp)"
  by (cases m) (simp_all add: DeviceCap_from_raw_def tp_class_tp_cap_of)

section \<open>Properties\<close>

text \<open>
  On supported_combos: The combinations a device reports are exactly those its raw record
  allows: the mode's bit of the trans_mode bitmap, the tp type's bit of that mode's capability
  word and, for CTP, bit 18 of the feature word; they are listed once each, modes first, in
  declaration order.
\<close>

theorem supported_combos_from_raw:
  "((m, tp) \<in> set (supported_combos (DeviceCap_from_raw raw)) \<longleftrightarrow>
      bit (dc_trans_mode raw) (tm_pos m) \<and> bit (raw_tp_cap raw m) (tp_pos tp)
      \<and> (if tp = Ctp then bit (feature_value (dc_feature raw)) 18 else True))
   \<and> distinct (supported_combos cap)
   \<and> (\<exists>keep. supported_combos cap = filter keep (List.product [Rm, Rc, Um] [Rtp, Ctp, Utp]))"
proof (intro conjI)
  have "dev_ctp_en (DeviceCap_from_raw raw) = bit (feature_value (dc_feature raw)) 18"
    by (simp add: DeviceCap_from_raw_def ctp_en_flag.getb_bit)
  moreover have "trans_modes (DeviceCap_from_raw raw) = dc_trans_mode raw"
    by (simp add: DeviceCap_from_raw_def)
  ultimately show "(m, tp) \<in> set (supported_combos (DeviceCap_from_raw raw)) \<longleftrightarrow>
      bit (dc_trans_mode raw) (tm_pos m) \<and> bit (raw_tp_cap raw m) (tp_pos tp)
      \<and> (if tp = Ctp then bit (feature_value (dc_feature raw)) 18 else True)"
    by (auto simp: supported_combos_eq supports_iff supports_mode_bit tp_cap_from_raw)
  show "distinct (supported_combos cap)"
    by (simp add: supported_combos_eq distinct_product)
  show "\<exists>keep. supported_combos cap = filter keep (List.product [Rm, Rc, Um] [Rtp, Ctp, Utp])"
    unfolding supported_combos_eq TransMode_ALL_def TpType_ALL_def by blast
qed

text \<open>
  On priority_for: The priority slot resolved for a tp type is the lowest of the 16 slots
  whose raw tp-type word has that type's bit, as a byte that is the slot's index; there is none
  exactly when no slot has the bit.
\<close>

theorem priority_for_lowest:
  assumes "length (dc_priority_info raw) = unat URMA_MAX_PRIORITY_CNT"
  shows "(priority_for (DeviceCap_from_raw raw) tp = Some p \<longleftrightarrow>
      unat p < 16 \<and> bit (tp_en_value (sl_tp_type (dc_priority_info raw ! unat p))) (tp_pos tp)
      \<and> (\<forall>q < unat p. \<not> bit (tp_en_value (sl_tp_type (dc_priority_info raw ! q))) (tp_pos tp)))
    \<and> (priority_for (DeviceCap_from_raw raw) tp = None \<longleftrightarrow>
      (\<forall>sl \<in> set (dc_priority_info raw). \<not> bit (tp_en_value (sl_tp_type sl)) (tp_pos tp)))"
proof (intro conjI)
  let ?P = "\<lambda>q. bit (tp_en_value (sl_tp_type (dc_priority_info raw ! q))) (tp_pos tp)"
  have len: "length (dc_priority_info raw) = 16" using assms by (simp add: ffi_const)
  have eq: "priority_for (DeviceCap_from_raw raw) tp =
      map_option of_nat (position (tp_class tp) (map sl_tp_cap (dc_priority_info raw)))"
    by (simp add: priority_for_def DeviceCap_from_raw_def)
  have byte: "unat (of_nat i :: u8) = i" if "i < 16" for i
    using that by (simp add: unat_of_nat)
  have "priority_for (DeviceCap_from_raw raw) tp = Some p \<longleftrightarrow>
      (\<exists>i. p = of_nat i \<and> i < 16 \<and> ?P i \<and> (\<forall>q < i. \<not> ?P q))"
    by (auto simp: eq position_Some_iff len tp_class_sl)
  also have "\<dots> \<longleftrightarrow> unat p < 16 \<and> ?P (unat p) \<and> (\<forall>q < unat p. \<not> ?P q)"
  proof
    assume "\<exists>i. p = of_nat i \<and> i < 16 \<and> ?P i \<and> (\<forall>q < i. \<not> ?P q)"
    then show "unat p < 16 \<and> ?P (unat p) \<and> (\<forall>q < unat p. \<not> ?P q)" using byte by auto
  next
    assume a: "unat p < 16 \<and> ?P (unat p) \<and> (\<forall>q < unat p. \<not> ?P q)"
    have "p = of_nat (unat p)" by simp
    with a show "\<exists>i. p = of_nat i \<and> i < 16 \<and> ?P i \<and> (\<forall>q < i. \<not> ?P q)" by blast
  qed
  finally show "priority_for (DeviceCap_from_raw raw) tp = Some p \<longleftrightarrow>
      unat p < 16 \<and> ?P (unat p) \<and> (\<forall>q < unat p. \<not> ?P q)" .
  show "priority_for (DeviceCap_from_raw raw) tp = None \<longleftrightarrow>
      (\<forall>sl \<in> set (dc_priority_info raw). \<not> bit (tp_en_value (sl_tp_type sl)) (tp_pos tp))"
    by (simp add: eq position_None_iff tp_class_sl)
qed

definition demo_cap :: urma_device_cap_t where
  "demo_cap = default_urma_device_cap_t\<lparr>dc_priority_info :=
     [default_urma_sl_info_t, default_urma_sl_info_t\<lparr>sl_tp_type := \<lparr>tp_en_value = 2\<rparr>\<rparr>]
     @ replicate 14 default_urma_sl_info_t\<rparr>"

theorem priority_for_lowest_witness:
  "priority_for (DeviceCap_from_raw demo_cap) Ctp = Some 1"
proof -
  have info: "dc_priority_info demo_cap = [default_urma_sl_info_t,
      default_urma_sl_info_t\<lparr>sl_tp_type := \<lparr>tp_en_value = 2\<rparr>\<rparr>] @ replicate 14 default_urma_sl_info_t"
    by (simp add: demo_cap_def)
  have len: "length (dc_priority_info demo_cap) = unat URMA_MAX_PRIORITY_CNT"
    by (simp add: info ffi_const)
  have one: "bit (tp_en_value (sl_tp_type (dc_priority_info demo_cap ! unat (1 :: u8)))) (tp_pos Ctp)"
    by (simp add: info)
  have zero: "\<forall>q < unat (1 :: u8).
      \<not> bit (tp_en_value (sl_tp_type (dc_priority_info demo_cap ! q))) (tp_pos Ctp)"
    by (simp add: info default_urma_sl_info_t_def)
  have "unat (1 :: u8) < 16" by simp
  with one zero show ?thesis
    using priority_for_lowest [OF len, of Ctp 1] by blast
qed

text \<open>
  On Display of DeviceCap. The gate note is a device-level statement: with some mode
  advertised, the text ends in it exactly when ctp_en is off, whether or not any mode's
  capability bits advertise CTP.
\<close>

theorem gate_note_ignores_mode_caps:
  "show_DeviceCap \<lparr>trans_modes = 1, dev_ctp_en = False,
      rm_tp_cap = \<lparr>rtp = True, ctp = False, utp = False\<rparr>,
      rc_tp_cap = \<lparr>rtp = False, ctp = False, utp = False\<rparr>,
      um_tp_cap = \<lparr>rtp = False, ctp = False, utp = False\<rparr>,
      rm_order_cap = default_OrderTypeCap, rc_order_cap = default_OrderTypeCap,
      rm_multi_path = False, rc_multi_path = False, max_jfs_sge = a, max_jfr_sge = b,
      max_msg_size = c, max_jfs_depth = d, max_jfr_depth = e, max_jfc_depth = f,
      max_read_size = g, max_write_size = h, page_size_cap = i, priority_tp = p\<rparr>
   = ''RM[tp=RTP] (ctp_en off: CTP unavailable)''"
  by (simp add: show_DeviceCap_def TransMode_ALL_def supports_mode_def ffi_const mode_text_def
      selected_def default_OrderTypeCap_def)

end
