(* ===== verification/Provider.thy ===== *)
theory Provider
  imports DeviceCaps
begin

text \<open>
  The C library the crate binds (\<open>extern "C"\<close> of \<open>src/ffi.rs\<close>), and the process's allocator,
  as a parameter: a record of typed functions over an abstract state \<open>'w\<close>. A call returns the
  C result, what it wrote through its out-pointers, and the new state; reading memory the
  library owns (a device, a jetty's identifier, an exported blob) is a function of the state, and
  a store to memory (a message written into a registered buffer) is one from states to states.
  Every call is made through a wrapper that also records a resource event, so that a run of the
  crate leaves a log, and \<open>prun\<close> is the contract of the library on such a log: objects are
  created from live objects, used while live, and deleted exactly once, after everything
  created from them is gone.
\<close>

section \<open>The library as a parameter\<close>

text \<open>What an in-pointer to a struct points at: the struct, or a byte blob that starts with it.\<close>

datatype 'a c_in = InStruct 'a | InBytes bytes

record 'w liburma =
  l_errno :: "'w \<Rightarrow> i32"
  l_init :: "urma_init_attr_t \<Rightarrow> 'w \<Rightarrow> i32 \<times> 'w"
  l_uninit :: "'w \<Rightarrow> i32 \<times> 'w"
  l_get_device_list :: "'w \<Rightarrow> ptr \<times> i32 \<times> 'w"
  l_free_device_list :: "ptr \<Rightarrow> 'w \<Rightarrow> 'w"
  l_read_device_list :: "ptr \<Rightarrow> nat \<Rightarrow> 'w \<Rightarrow> ptr"
  l_read_device :: "ptr \<Rightarrow> 'w \<Rightarrow> urma_device_t"
  l_get_device_by_name :: "string \<Rightarrow> 'w \<Rightarrow> ptr \<times> 'w"
  l_get_eid_list :: "ptr \<Rightarrow> 'w \<Rightarrow> ptr \<times> u32 \<times> 'w"
  l_free_eid_list :: "ptr \<Rightarrow> 'w \<Rightarrow> 'w"
  l_read_eid_info :: "ptr \<Rightarrow> 'w \<Rightarrow> urma_eid_info_t"
  l_query_device :: "ptr \<Rightarrow> 'w \<Rightarrow> i32 \<times> urma_device_attr_t \<times> 'w"
  l_create_context :: "ptr \<Rightarrow> u32 \<Rightarrow> 'w \<Rightarrow> ptr \<times> 'w"
  l_delete_context :: "ptr \<Rightarrow> 'w \<Rightarrow> i32 \<times> 'w"
  l_create_jfce :: "ptr \<Rightarrow> 'w \<Rightarrow> ptr \<times> 'w"
  l_delete_jfce :: "ptr \<Rightarrow> 'w \<Rightarrow> i32 \<times> 'w"
  l_create_jfc :: "ptr \<Rightarrow> urma_jfc_cfg_t \<Rightarrow> 'w \<Rightarrow> ptr \<times> 'w"
  l_delete_jfc :: "ptr \<Rightarrow> 'w \<Rightarrow> i32 \<times> 'w"
  l_poll_jfc :: "ptr \<Rightarrow> i32 \<Rightarrow> 'w \<Rightarrow> i32 \<times> urma_cr_t list \<times> 'w"
  l_create_jfr :: "ptr \<Rightarrow> urma_jfr_cfg_t \<Rightarrow> 'w \<Rightarrow> ptr \<times> 'w"
  l_delete_jfr :: "ptr \<Rightarrow> 'w \<Rightarrow> i32 \<times> 'w"
  l_post_jfr_wr :: "ptr \<Rightarrow> urma_jfr_wr_t \<Rightarrow> (loc \<Rightarrow> urma_sge_t) \<Rightarrow> 'w \<Rightarrow> i32 \<times> 'w"
  l_create_jetty :: "ptr \<Rightarrow> urma_jetty_cfg_t \<Rightarrow> 'w \<Rightarrow> ptr \<times> 'w"
  l_delete_jetty :: "ptr \<Rightarrow> 'w \<Rightarrow> i32 \<times> 'w"
  l_read_jetty :: "ptr \<Rightarrow> 'w \<Rightarrow> urma_jetty_t"
  l_import_jetty :: "ptr \<Rightarrow> urma_rjetty_t c_in \<Rightarrow> urma_token_t \<Rightarrow> 'w \<Rightarrow> ptr \<times> 'w"
  l_unimport_jetty :: "ptr \<Rightarrow> 'w \<Rightarrow> i32 \<times> 'w"
  l_register_seg :: "ptr \<Rightarrow> urma_seg_cfg_t \<Rightarrow> 'w \<Rightarrow> ptr \<times> 'w"
  l_unregister_seg :: "ptr \<Rightarrow> 'w \<Rightarrow> i32 \<times> 'w"
  l_read_target_seg :: "ptr \<Rightarrow> 'w \<Rightarrow> urma_target_seg_t"
  l_import_seg :: "ptr \<Rightarrow> urma_seg_t c_in \<Rightarrow> urma_token_t \<Rightarrow> u64 \<Rightarrow> urma_import_seg_flag_t \<Rightarrow> 'w \<Rightarrow> ptr \<times> 'w"
  l_unimport_seg :: "ptr \<Rightarrow> 'w \<Rightarrow> i32 \<times> 'w"
  l_get_seg_ctx :: "ptr \<Rightarrow> 'w \<Rightarrow> i32 \<times> ptr \<times> u32 \<times> 'w"
  l_put_seg_ctx :: "ptr \<Rightarrow> 'w \<Rightarrow> 'w"
  l_get_rjetty :: "ptr \<Rightarrow> 'w \<Rightarrow> i32 \<times> ptr \<times> u32 \<times> 'w"
  l_put_rjetty :: "ptr \<Rightarrow> 'w \<Rightarrow> 'w"
  l_read_bytes :: "ptr \<Rightarrow> nat \<Rightarrow> 'w \<Rightarrow> bytes"
  l_write_bytes :: "ptr \<Rightarrow> bytes \<Rightarrow> 'w \<Rightarrow> 'w"
  l_post_send_wr :: "ptr \<Rightarrow> urma_jfs_wr_t \<Rightarrow> (loc \<Rightarrow> urma_sge_t) \<Rightarrow> (loc \<Rightarrow> urma_jfs_wr_t) \<Rightarrow> 'w \<Rightarrow> i32 \<times> 'w"
  l_alloc_zeroed :: "usize \<Rightarrow> usize \<Rightarrow> 'w \<Rightarrow> ptr \<times> 'w"
  l_dealloc :: "ptr \<Rightarrow> usize \<Rightarrow> usize \<Rightarrow> 'w \<Rightarrow> 'w"

section \<open>Resource events\<close>

datatype robj =
    OCtx ptr
  | OJfce ptr
  | OJfc ptr
  | OJfr ptr
  | OJetty ptr
  | OSeg ptr
  | OImpSeg ptr
  | OImpJetty ptr
  | OMem ptr
  | ODevList ptr
  | OEidList ptr
  | OSegBlob ptr
  | OJettyBlob ptr

datatype event =
    EInit
  | EUninit
  | ECreate robj "robj list"
  | EDelete robj
  | EUse "robj list"

record 'w world =
  lib_state :: 'w
  event_log :: "event list"

definition record_event :: "event \<Rightarrow> ('w, 'x) world_scheme \<Rightarrow> ('w, 'x) world_scheme" where
  "record_event e s = s\<lparr>event_log := event_log s @ [e]\<rparr>"

definition set_lib :: "'w \<Rightarrow> ('w, 'x) world_scheme \<Rightarrow> ('w, 'x) world_scheme" where
  "set_lib l s = s\<lparr>lib_state := l\<rparr>"

text \<open>
  A constructor of the library (null is failure), a destructor, and a use, each with its event.
  The status a destructor returns is ignored by every caller.
\<close>

definition call_create ::
  "('w \<Rightarrow> ptr \<times> 'w) \<Rightarrow> (ptr \<Rightarrow> robj) \<Rightarrow> robj list \<Rightarrow> ('w, 'x) world_scheme \<Rightarrow> ptr \<times> ('w, 'x) world_scheme" where
  "call_create f mk deps s =
     (let (p, l) = f (lib_state s)
      in (p, record_event (if p = 0 then EUse deps else ECreate (mk p) deps) (set_lib l s)))"

definition call_create_out ::
  "('w \<Rightarrow> ptr \<times> 'o \<times> 'w) \<Rightarrow> (ptr \<Rightarrow> robj) \<Rightarrow> robj list \<Rightarrow> ('w, 'x) world_scheme
     \<Rightarrow> ptr \<times> 'o \<times> ('w, 'x) world_scheme" where
  "call_create_out f mk deps s =
     (let (p, out, l) = f (lib_state s)
      in (p, out, record_event (if p = 0 then EUse deps else ECreate (mk p) deps) (set_lib l s)))"

definition call_delete ::
  "('w \<Rightarrow> 'w) \<Rightarrow> robj \<Rightarrow> ('w, 'x) world_scheme \<Rightarrow> ('w, 'x) world_scheme" where
  "call_delete f obj s = record_event (EDelete obj) (set_lib (f (lib_state s)) s)"

definition call_use ::
  "('w \<Rightarrow> 'r \<times> 'w) \<Rightarrow> robj list \<Rightarrow> ('w, 'x) world_scheme \<Rightarrow> 'r \<times> ('w, 'x) world_scheme" where
  "call_use f objs s = (let (r, l) = f (lib_state s) in (r, record_event (EUse objs) (set_lib l s)))"

definition last_errno :: "'w liburma \<Rightarrow> ('w, 'x) world_scheme \<Rightarrow> i32" where
  "last_errno L s = l_errno L (lib_state s)"

definition null_err :: "'w liburma \<Rightarrow> string \<Rightarrow> ('w, 'x) world_scheme \<Rightarrow> error" where
  "null_err L what s = NullPtr what (last_errno L s)"

section \<open>The contract on a log\<close>

record proto =
  p_inited :: bool
  p_live :: "(robj \<times> robj list) list"

definition live :: "proto \<Rightarrow> robj \<Rightarrow> bool" where
  "live p obj \<longleftrightarrow> obj \<in> fst ` set (p_live p)"

definition in_use :: "proto \<Rightarrow> robj \<Rightarrow> bool" where
  "in_use p obj \<longleftrightarrow> list_ex (\<lambda>(_, deps). obj \<in> set deps) (p_live p)"

definition remove_obj :: "robj \<Rightarrow> (robj \<times> robj list) list \<Rightarrow> (robj \<times> robj list) list" where
  "remove_obj obj tbl = filter (\<lambda>e. fst e \<noteq> obj) tbl"

fun is_ctx :: "robj \<Rightarrow> bool" where
  "is_ctx (OCtx _) = True"
| "is_ctx _ = False"

fun pstep :: "proto \<Rightarrow> event \<Rightarrow> proto option" where
  "pstep p EInit = (if p_inited p then None else Some (p\<lparr>p_inited := True\<rparr>))"
| "pstep p EUninit =
     (if p_inited p \<and> list_all (\<lambda>e. \<not> is_ctx (fst e)) (p_live p)
      then Some (p\<lparr>p_inited := False\<rparr>) else None)"
| "pstep p (ECreate obj deps) =
     (if list_all (live p) deps \<and> (is_ctx obj \<longrightarrow> p_inited p)
      then Some (p\<lparr>p_live := (obj, deps) # p_live p\<rparr>) else None)"
| "pstep p (EDelete obj) =
     (if live p obj \<and> \<not> in_use p obj then Some (p\<lparr>p_live := remove_obj obj (p_live p)\<rparr>) else None)"
| "pstep p (EUse objs) = (if list_all (live p) objs then Some p else None)"

fun prun :: "proto \<Rightarrow> event list \<Rightarrow> proto option" where
  "prun p [] = Some p"
| "prun p (e # es) = (case pstep p e of None \<Rightarrow> None | Some p' \<Rightarrow> prun p' es)"

definition proto_init :: proto where
  "proto_init = \<lparr>p_inited = False, p_live = []\<rparr>"

text \<open>
  What the library promises in return: an object it returns is not one that is still live
  (an allocation never returns an address in use). \<open>live_after\<close> is the set of objects created
  and not deleted by a log.
\<close>

fun live_after :: "robj list \<Rightarrow> event list \<Rightarrow> robj list" where
  "live_after xs [] = xs"
| "live_after xs (ECreate obj _ # es) = live_after (obj # xs) es"
| "live_after xs (EDelete obj # es) = live_after (filter (\<lambda>x. x \<noteq> obj) xs) es"
| "live_after xs (_ # es) = live_after xs es"

fun fresh_log :: "robj list \<Rightarrow> event list \<Rightarrow> bool" where
  "fresh_log xs [] = True"
| "fresh_log xs (ECreate obj _ # es) \<longleftrightarrow> obj \<notin> set xs \<and> fresh_log (obj # xs) es"
| "fresh_log xs (EDelete obj # es) \<longleftrightarrow> fresh_log (filter (\<lambda>x. x \<noteq> obj) xs) es"
| "fresh_log xs (_ # es) \<longleftrightarrow> fresh_log xs es"

definition honest :: "event list \<Rightarrow> bool" where
  "honest log = fresh_log [] log"

section \<open>Lemmas\<close>

lemma prun_append: "prun p (es @ es') = (case prun p es of None \<Rightarrow> None | Some p' \<Rightarrow> prun p' es')"
  by (induction es arbitrary: p) (auto split: option.splits)

lemma prun_snoc: "prun p es = Some p' \<Longrightarrow> prun p (es @ [e]) = pstep p' e"
  by (simp add: prun_append split: option.split)

lemma live_after_append: "live_after xs (es @ es') = live_after (live_after xs es) es'"
  by (induction xs es rule: live_after.induct) auto

lemma fresh_log_append:
  "fresh_log xs (es @ es') \<longleftrightarrow> fresh_log xs es \<and> fresh_log (live_after xs es) es'"
  by (induction xs es rule: fresh_log.induct) auto

lemma honest_prefix: "honest (es @ es') \<Longrightarrow> honest es"
  by (simp add: honest_def fresh_log_append)

lemma map_fst_remove_obj: "map fst (remove_obj obj tbl) = filter (\<lambda>x. x \<noteq> obj) (map fst tbl)"
  by (simp add: remove_obj_def filter_map comp_def)

lemma prun_live_after:
  "prun p es = Some p' \<Longrightarrow> map fst (p_live p') = live_after (map fst (p_live p)) es"
proof (induction es arbitrary: p)
  case (Cons e es)
  then show ?case
    by (cases e) (auto simp: map_fst_remove_obj split: option.splits if_splits)
qed simp

lemma event_log_simps [simp]:
  "event_log (record_event e s) = event_log s @ [e]"
  "event_log (set_lib l s) = event_log s"
  "lib_state (record_event e s) = lib_state s"
  "lib_state (set_lib l s) = l"
  by (simp_all add: record_event_def set_lib_def)

end
