(* ===== verification/Handles.thy ===== *)
theory Handles
  imports Provider
begin

text \<open>
  The reference-counted resources of \<open>src/urma.rs\<close>: the global init guard (\<open>Urma\<close>), contexts
  and completion queues. An \<open>Rc\<close> allocation is a cell of the state with its strong count; a
  handle is the cell's index. Cloning a handle increments the count, dropping one decrements it
  and, at zero, runs the inner type's \<open>Drop\<close> and then drops its fields, which is how a parent
  is released by its last child. Device enumeration and the capability query, which hold an
  init guard for their duration, are here too. Counts are unbounded (\<open>Rc\<close> aborts on overflow).
\<close>

section \<open>Basic value types\<close>

type_synonym Eid = bytes

definition TOKEN_VALUE :: u32 where [ffi_const]: "TOKEN_VALUE = 0xACFE"
definition DEFAULT_DEPTH :: u32 where [ffi_const]: "DEFAULT_DEPTH = 64"
definition POLL_RETRIES :: u32 where [ffi_const]: "POLL_RETRIES = 100"
definition PAGE_SIZE :: usize where [ffi_const]: "PAGE_SIZE = 4096"

definition Eid_from_raw :: "urma_eid_t \<Rightarrow> Eid" where
  "Eid_from_raw raw = eid_raw raw"

definition Eid_to_raw :: "Eid \<Rightarrow> urma_eid_t" where
  "Eid_to_raw e = \<lparr>eid_raw = e\<rparr>"

record JettyId =
  jetty_eid :: Eid
  jetty_uasid :: u32
  jetty_num :: u32

definition JettyId_from_raw :: "urma_jetty_id_t \<Rightarrow> JettyId" where
  "JettyId_from_raw raw =
     \<lparr>jetty_eid = Eid_from_raw (jid_eid raw), jetty_uasid = jid_uasid raw, jetty_num = jid_id raw\<rparr>"

definition JettyId_to_raw :: "JettyId \<Rightarrow> urma_jetty_id_t" where
  "JettyId_to_raw j =
     \<lparr>jid_eid = Eid_to_raw (jetty_eid j), jid_uasid = jetty_uasid j, jid_id = jetty_num j\<rparr>"

section \<open>Cells, handles and the state\<close>

record Urma =
  urma_inner :: nat

record ctx_cell =
  cc_raw :: ptr
  cc_urma :: nat
  cc_strong :: nat

record Context =
  ctx_inner :: nat
  ctx_eid :: Eid

record cq_cell =
  qc_jfce :: ptr
  qc_jfc :: ptr
  qc_ctx :: Context
  qc_strong :: nat

record CompletionQueue =
  cq_inner :: nat

record 'w heap = "'w world" +
  urma_cells :: "nat list"
  init_slot :: "nat option"
  ctx_cells :: "ctx_cell list"
  cq_cells :: "cq_cell list"

definition ctx_raw :: "Context \<Rightarrow> 'w heap \<Rightarrow> ptr" where
  "ctx_raw c s = cc_raw (ctx_cells s ! ctx_inner c)"

definition cq_jfc :: "CompletionQueue \<Rightarrow> 'w heap \<Rightarrow> ptr" where
  "cq_jfc q s = qc_jfc (cq_cells s ! cq_inner q)"

section \<open>Strong counts\<close>

definition set_urma_strong :: "nat \<Rightarrow> nat \<Rightarrow> 'w heap \<Rightarrow> 'w heap" where
  "set_urma_strong u n s = s\<lparr>urma_cells := (urma_cells s)[u := n]\<rparr>"

definition set_ctx_strong :: "nat \<Rightarrow> nat \<Rightarrow> 'w heap \<Rightarrow> 'w heap" where
  "set_ctx_strong c n s =
     s\<lparr>ctx_cells := (ctx_cells s)[c := (ctx_cells s ! c)\<lparr>cc_strong := n\<rparr>]\<rparr>"

definition set_cq_strong :: "nat \<Rightarrow> nat \<Rightarrow> 'w heap \<Rightarrow> 'w heap" where
  "set_cq_strong q n s =
     s\<lparr>cq_cells := (cq_cells s)[q := (cq_cells s ! q)\<lparr>qc_strong := n\<rparr>]\<rparr>"

definition clone_urma :: "Urma \<Rightarrow> 'w heap \<Rightarrow> Urma \<times> 'w heap" where
  "clone_urma u s = (u, set_urma_strong (urma_inner u) (urma_cells s ! urma_inner u + 1) s)"

definition clone_ctx :: "Context \<Rightarrow> 'w heap \<Rightarrow> Context \<times> 'w heap" where
  "clone_ctx c s = (c, set_ctx_strong (ctx_inner c) (cc_strong (ctx_cells s ! ctx_inner c) + 1) s)"

definition clone_cq :: "CompletionQueue \<Rightarrow> 'w heap \<Rightarrow> CompletionQueue \<times> 'w heap" where
  "clone_cq q s = (q, set_cq_strong (cq_inner q) (qc_strong (cq_cells s ! cq_inner q) + 1) s)"

section \<open>Dropping\<close>

definition ffi_uninit :: "'w liburma \<Rightarrow> 'w heap \<Rightarrow> 'w heap" where
  "ffi_uninit L s = record_event EUninit (set_lib (snd (l_uninit L (lib_state s))) s)"

definition drop_urma :: "'w liburma \<Rightarrow> Urma \<Rightarrow> 'w heap \<Rightarrow> 'w heap" where
  "drop_urma L u s =
     (let n = urma_cells s ! urma_inner u - 1;
          s = set_urma_strong (urma_inner u) n s
      in if n = 0 then ffi_uninit L s else s)"

definition drop_ctx :: "'w liburma \<Rightarrow> Context \<Rightarrow> 'w heap \<Rightarrow> 'w heap" where
  "drop_ctx L c s =
     (let cell = ctx_cells s ! ctx_inner c;
          n = cc_strong cell - 1;
          s = set_ctx_strong (ctx_inner c) n s
      in if n = 0
         then let s = call_delete (\<lambda>l. snd (l_delete_context L (cc_raw cell) l)) (OCtx (cc_raw cell)) s
              in drop_urma L \<lparr>urma_inner = cc_urma cell\<rparr> s
         else s)"

definition drop_cq :: "'w liburma \<Rightarrow> CompletionQueue \<Rightarrow> 'w heap \<Rightarrow> 'w heap" where
  "drop_cq L q s =
     (let cell = cq_cells s ! cq_inner q;
          n = qc_strong cell - 1;
          s = set_cq_strong (cq_inner q) n s
      in if n = 0
         then let s = call_delete (\<lambda>l. snd (l_delete_jfc L (qc_jfc cell) l)) (OJfc (qc_jfc cell)) s;
                  s = call_delete (\<lambda>l. snd (l_delete_jfce L (qc_jfce cell) l)) (OJfce (qc_jfce cell)) s
              in drop_ctx L (qc_ctx cell) s
         else s)"

section \<open>The init guard\<close>

text \<open>
  \<open>Urma::init\<close>: clone the guard cached in the thread's slot, or initialise the library and
  cache a new cell with two owners, the slot and the result.
\<close>

definition ffi_init :: "'w liburma \<Rightarrow> urma_init_attr_t \<Rightarrow> 'w heap \<Rightarrow> i32 \<times> 'w heap" where
  "ffi_init L attr s =
     (let (st, l) = l_init L attr (lib_state s);
          s = set_lib l s
      in (st, if st = URMA_SUCCESS then record_event EInit s else s))"

definition Urma_init :: "'w liburma \<Rightarrow> 'w heap \<Rightarrow> Urma result \<times> 'w heap" where
  "Urma_init L s =
     (case init_slot s of
        Some i \<Rightarrow> (let (u, s) = clone_urma \<lparr>urma_inner = i\<rparr> s in (Inr u, s))
      | None \<Rightarrow>
          (let attr = \<lparr>init_token = 0, init_uasid = 0\<rparr>;
               (st, s) = ffi_init L attr s
           in case check_status st ''urma_init'' of
                Inl e \<Rightarrow> (Inl e, s)
              | Inr _ \<Rightarrow>
                  (let inner = length (urma_cells s);
                       s = s\<lparr>urma_cells := urma_cells s @ [1]\<rparr>;
                       s = snd (clone_urma \<lparr>urma_inner = inner\<rparr> s);
                       s = s\<lparr>init_slot := Some inner\<rparr>
                   in (Inr \<lparr>urma_inner = inner\<rparr>, s))))"

text \<open>The end of the thread destroys the slot, which drops the cached guard.\<close>

definition thread_exit :: "'w liburma \<Rightarrow> 'w heap \<Rightarrow> 'w heap" where
  "thread_exit L s =
     (case init_slot s of None \<Rightarrow> s
      | Some i \<Rightarrow> drop_urma L \<lparr>urma_inner = i\<rparr> (s\<lparr>init_slot := None\<rparr>))"

section \<open>Devices\<close>

text \<open>
  The bytes of a NUL-terminated C string; \<open>lossy\<close> stands for \<open>to_string_lossy\<close>'s repair of
  bytes that are not UTF-8.
\<close>

definition cstr_bytes :: "bytes \<Rightarrow> bytes" where
  "cstr_bytes bs = takeWhile (\<lambda>b. b \<noteq> 0) bs"

fun device_names :: "'w liburma \<Rightarrow> (bytes \<Rightarrow> string) \<Rightarrow> ptr \<Rightarrow> nat \<Rightarrow> nat \<Rightarrow> 'w \<Rightarrow> string list" where
  "device_names L lossy lst i 0 l = []"
| "device_names L lossy lst i (Suc k) l =
     (let dev = l_read_device_list L lst i l
      in (if dev \<noteq> 0 then [lossy (cstr_bytes (dev_name (l_read_device L dev l)))] else [])
         @ device_names L lossy lst (Suc i) k l)"

definition list_devices :: "'w liburma \<Rightarrow> (bytes \<Rightarrow> string) \<Rightarrow> 'w heap \<Rightarrow> string list result \<times> 'w heap" where
  "list_devices L lossy s =
     (case Urma_init L s of (Inl e, s) \<Rightarrow> (Inl e, s)
      | (Inr u, s) \<Rightarrow>
          (let (lst, cnt, s) = call_create_out (l_get_device_list L) ODevList [] s
           in if lst = 0 \<or> sint cnt \<le> 0
              then let s = (if lst \<noteq> 0 then call_delete (l_free_device_list L lst) (ODevList lst) s else s)
                   in (Inr [], drop_urma L u s)
              else let names = device_names L lossy lst 0 (nat (sint cnt)) (lib_state s);
                       s = call_delete (l_free_device_list L lst) (ODevList lst) s
                   in (Inr names, drop_urma L u s)))"

definition device_by_name :: "'w liburma \<Rightarrow> string \<Rightarrow> 'w heap \<Rightarrow> ptr result \<times> 'w heap" where
  "device_by_name L dev s =
     (if CHR 0x00 \<in> set dev then (Inl (Invalid ''device name contains NUL''), s)
      else let (p, s) = call_use (l_get_device_by_name L dev) [] s
           in if p = 0
              then (Inl (NotFound (''device '' @ [CHR 0x27] @ dev @ [CHR 0x27] @
                      '' not found, see list_devices()'')), s)
              else (Inr p, s))"

definition query_device :: "'w liburma \<Rightarrow> string \<Rightarrow> 'w heap \<Rightarrow> DeviceCap result \<times> 'w heap" where
  "query_device L dev s =
     (case Urma_init L s of (Inl e, s) \<Rightarrow> (Inl e, s)
      | (Inr u, s) \<Rightarrow>
          (case device_by_name L dev s of (Inl e, s) \<Rightarrow> (Inl e, drop_urma L u s)
           | (Inr p, s) \<Rightarrow>
               (let ((st, attr), s) =
                      call_use (\<lambda>l. let (st, attr, l) = l_query_device L p l in ((st, attr), l)) [] s
                in (rbind (check_status st ''urma_query_device'')
                      (\<lambda>_. Inr (DeviceCap_from_raw (da_dev_cap attr))),
                    drop_urma L u s))))"

section \<open>Contexts\<close>

definition Context_create :: "'w liburma \<Rightarrow> Urma \<Rightarrow> string \<Rightarrow> 'w heap \<Rightarrow> Context result \<times> 'w heap" where
  "Context_create L u dev s =
     (case device_by_name L dev s of (Inl e, s) \<Rightarrow> (Inl e, s)
      | (Inr p, s) \<Rightarrow>
          (let (lst, cnt, s) = call_create_out (l_get_eid_list L p) OEidList [] s
           in if lst = 0 \<or> cnt = 0
              then let s = (if lst \<noteq> 0 then call_delete (l_free_eid_list L lst) (OEidList lst) s else s)
                   in (Inl (NotFound (''no eid on device '' @ [CHR 0x27] @ dev @ [CHR 0x27])), s)
              else
                let info = l_read_eid_info L lst (lib_state s);
                    eid = eid_raw (ei_eid info);
                    s = call_delete (l_free_eid_list L lst) (OEidList lst) s;
                    (raw, s) = call_create (l_create_context L p (ei_eid_index info)) OCtx [] s
                in if raw = 0 then (Inl (null_err L ''urma_create_context'' s), s)
                   else
                     let (u, s) = clone_urma u s;
                         inner = length (ctx_cells s);
                         s = s\<lparr>ctx_cells := ctx_cells s @
                               [\<lparr>cc_raw = raw, cc_urma = urma_inner u, cc_strong = 1\<rparr>]\<rparr>
                     in (Inr \<lparr>ctx_inner = inner, ctx_eid = eid\<rparr>, s)))"

section \<open>Completion queues\<close>

definition CompletionQueue_new ::
  "'w liburma \<Rightarrow> Context \<Rightarrow> u32 \<Rightarrow> 'w heap \<Rightarrow> CompletionQueue result \<times> 'w heap" where
  "CompletionQueue_new L c depth s =
     (let raw = ctx_raw c s;
          (jfce, s) = call_create (l_create_jfce L raw) OJfce [OCtx raw] s
      in if jfce = 0 then (Inl (null_err L ''urma_create_jfce'' s), s)
         else
           let cfg = default_urma_jfc_cfg_t\<lparr>jfc_depth := depth, jfc_jfce := jfce\<rparr>;
               (jfc, s) = call_create (l_create_jfc L raw cfg) OJfc [OCtx raw, OJfce (jfc_jfce cfg)] s
           in if jfc = 0
              then let s = call_delete (\<lambda>l. snd (l_delete_jfce L jfce l)) (OJfce jfce) s
                   in (Inl (null_err L ''urma_create_jfc'' s), s)
              else
                let (c, s) = clone_ctx c s;
                    inner = length (cq_cells s);
                    s = s\<lparr>cq_cells := cq_cells s @
                          [\<lparr>qc_jfce = jfce, qc_jfc = jfc, qc_ctx = c, qc_strong = 1\<rparr>]\<rparr>
                in (Inr \<lparr>cq_inner = inner\<rparr>, s))"

end
