(* ===== verification/Endpoints.thy ===== *)
theory Endpoints
  imports Handles Layout
begin

text \<open>
  The uniquely owned resources of \<open>src/urma.rs\<close>: jettys, page buffers, registered segments and
  imported peers, with the creation path of each (every library call, early return and cleanup
  in the order of the code) and its \<open>Drop\<close>. A \<open>RegisteredSeg<()>\<close> has no buffer, a
  \<open>RegisteredBuf\<close> has one. The blobs of the export and import calls are byte lists.
\<close>

section \<open>Jettys\<close>

record JettyOpts =
  opt_depth :: u32
  opt_trans_mode :: TransMode
  opt_multi_path :: bool
  opt_token_value :: u32
  opt_max_sge :: u8
  opt_priority :: u8

definition default_JettyOpts :: JettyOpts where
  "default_JettyOpts =
     \<lparr>opt_depth = DEFAULT_DEPTH, opt_trans_mode = Rm, opt_multi_path = False,
      opt_token_value = TOKEN_VALUE, opt_max_sge = 1, opt_priority = URMA_MAX_PRIORITY\<rparr>"

record Jetty =
  j_jfr :: ptr
  j_raw :: ptr
  j_id :: JettyId
  j_max_sge :: u8
  j_cq :: CompletionQueue

definition jetty_jfr_cfg :: "ptr \<Rightarrow> JettyOpts \<Rightarrow> urma_jfr_cfg_t" where
  "jetty_jfr_cfg jfc opts = default_urma_jfr_cfg_t\<lparr>
     jfr_depth := opt_depth opts, jfr_flag := \<lparr>jfr_flag_value = 0\<rparr>,
     jfr_trans_mode := tm_bit (opt_trans_mode opts), jfr_max_sge := opt_max_sge opts,
     jfr_min_rnr_timer := URMA_TYPICAL_MIN_RNR_TIMER, jfr_jfc := jfc,
     jfr_token_value := \<lparr>tok_token = opt_token_value opts\<rparr>\<rparr>"

definition jetty_jfs_cfg :: "ptr \<Rightarrow> JettyOpts \<Rightarrow> urma_jfs_cfg_t" where
  "jetty_jfs_cfg jfc opts = default_urma_jfs_cfg_t\<lparr>
     jfs_depth := opt_depth opts,
     jfs_flag := with_multi_path (with_order_type \<lparr>jfs_flag_value = 0\<rparr> 0) (opt_multi_path opts),
     jfs_trans_mode := tm_bit (opt_trans_mode opts), jfs_priority := opt_priority opts,
     jfs_max_sge := opt_max_sge opts, jfs_rnr_retry := URMA_TYPICAL_RNR_RETRY,
     jfs_err_timeout := URMA_TYPICAL_ERR_TIMEOUT, jfs_jfc := jfc\<rparr>"

definition jetty_cfg :: "ptr \<Rightarrow> ptr \<Rightarrow> JettyOpts \<Rightarrow> urma_jetty_cfg_t" where
  "jetty_cfg jfr jfc opts = default_urma_jetty_cfg_t\<lparr>
     jc_flag := \<lparr>jetty_flag_value = URMA_JETTY_FLAG_SHARE_JFR\<rparr>,
     jc_jfs_cfg := jetty_jfs_cfg jfc opts,
     jc_recv := \<lparr>recv_jfr = jfr, recv_jfc = 0\<rparr>\<rparr>"

definition Jetty_new ::
  "'w liburma \<Rightarrow> Context \<Rightarrow> CompletionQueue \<Rightarrow> JettyOpts \<Rightarrow> 'w heap \<Rightarrow> Jetty result \<times> 'w heap" where
  "Jetty_new L c q opts s =
     (let raw_ctx = ctx_raw c s;
          cfg = jetty_jfr_cfg (cq_jfc q s) opts;
          (jfr, s) = call_create (l_create_jfr L raw_ctx cfg) OJfr [OCtx raw_ctx, OJfc (jfr_jfc cfg)] s
      in if jfr = 0 then (Inl (null_err L ''urma_create_jfr'' s), s)
         else if opt_priority opts > URMA_MAX_PRIORITY
         then (Inl (Invalid (''jfs priority '' @ show_word (opt_priority opts) @
                 '' is out of range 0..='' @ show_word URMA_MAX_PRIORITY)), s)
         else
           let cfg = jetty_cfg jfr (cq_jfc q s) opts;
               (raw, s) = call_create (l_create_jetty L raw_ctx cfg) OJetty
                 [OCtx raw_ctx, OJfr (recv_jfr (jc_recv cfg)), OJfc (jfs_jfc (jc_jfs_cfg cfg))] s
           in if raw = 0
              then let e = null_err L ''urma_create_jetty'' s;
                       s = call_delete (\<lambda>l. snd (l_delete_jfr L jfr l)) (OJfr jfr) s
                   in (Inl e, s)
              else
                let id = JettyId_from_raw (jetty_jetty_id (l_read_jetty L raw (lib_state s)));
                    (q, s) = clone_cq q s
                in (Inr \<lparr>j_jfr = jfr, j_raw = raw, j_id = id, j_max_sge = opt_max_sge opts,
                         j_cq = q\<rparr>, s))"

definition drop_jetty :: "'w liburma \<Rightarrow> Jetty \<Rightarrow> 'w heap \<Rightarrow> 'w heap" where
  "drop_jetty L j s =
     (let s = call_delete (\<lambda>l. snd (l_delete_jetty L (j_raw j) l)) (OJetty (j_raw j)) s;
          s = call_delete (\<lambda>l. snd (l_delete_jfr L (j_jfr j) l)) (OJfr (j_jfr j)) s
      in drop_cq L (j_cq j) s)"

section \<open>Page buffers\<close>

record PageBuf =
  pb_ptr :: ptr
  pb_size :: usize

text \<open>\<open>Layout::from_size_align\<close>: the size rounded up to the alignment must not exceed \<open>isize::MAX\<close>.\<close>

definition layout_ok :: "usize \<Rightarrow> usize \<Rightarrow> bool" where
  "layout_ok sz al \<longleftrightarrow> unat sz + unat al \<le> 2 ^ 63"

definition PageBuf_new :: "'w liburma \<Rightarrow> usize \<Rightarrow> 'w heap \<Rightarrow> PageBuf result \<times> 'w heap" where
  "PageBuf_new L len s =
     (if len = 0 then (Inl (Invalid ''zero-length page buffer''), s)
      else if \<not> layout_ok len PAGE_SIZE
      then (Inl (Invalid ''bad layout: invalid parameters to Layout::from_size_align''), s)
      else let (p, s) = call_create (l_alloc_zeroed L len PAGE_SIZE) OMem [] s
           in if p = 0 then (Inl (Invalid ''alloc page buffer failed''), s)
              else (Inr \<lparr>pb_ptr = p, pb_size = len\<rparr>, s))"

definition drop_PageBuf :: "'w liburma \<Rightarrow> PageBuf \<Rightarrow> 'w heap \<Rightarrow> 'w heap" where
  "drop_PageBuf L b s = call_delete (l_dealloc L (pb_ptr b) (pb_size b) PAGE_SIZE) (OMem (pb_ptr b)) s"

section \<open>Registered segments\<close>

record RegisteredSeg =
  rs_tseg :: ptr
  rs_va :: u64
  rs_len :: u64
  rs_ctx :: Context
  rs_buf :: "PageBuf option"

definition drop_buf :: "'w liburma \<Rightarrow> PageBuf option \<Rightarrow> 'w heap \<Rightarrow> 'w heap" where
  "drop_buf L buf s = (case buf of None \<Rightarrow> s | Some b \<Rightarrow> drop_PageBuf L b s)"

definition buf_deps :: "PageBuf option \<Rightarrow> robj list" where
  "buf_deps buf = (case buf of None \<Rightarrow> [] | Some b \<Rightarrow> [OMem (pb_ptr b)])"

definition rw_rights :: u32 where
  "rw_rights = URMA_ACCESS_READ OR URMA_ACCESS_WRITE"

definition register_in ::
  "'w liburma \<Rightarrow> Context \<Rightarrow> ptr \<Rightarrow> usize \<Rightarrow> u32 \<Rightarrow> PageBuf option \<Rightarrow> 'w heap
     \<Rightarrow> RegisteredSeg result \<times> 'w heap" where
  "register_in L c p len token buf s =
     (let flag = with_reg_access \<lparr>reg_seg_value = 0\<rparr> rw_rights;
          cfg = default_urma_seg_cfg_t\<lparr>sc_va := p, sc_len := len,
            sc_token_value := \<lparr>tok_token = token\<rparr>, sc_flag := flag\<rparr>;
          raw = ctx_raw c s;
          (tseg, s) = call_create (l_register_seg L raw cfg) OSeg (OCtx raw # buf_deps buf) s
      in if tseg = 0
         then let e = null_err L ''urma_register_seg'' s in (Inl e, drop_buf L buf s)
         else let (c, s) = clone_ctx c s
              in (Inr \<lparr>rs_tseg = tseg, rs_va = p, rs_len = len, rs_ctx = c, rs_buf = buf\<rparr>, s))"

definition RegisteredSeg_register ::
  "'w liburma \<Rightarrow> Context \<Rightarrow> ptr \<Rightarrow> usize \<Rightarrow> u32 \<Rightarrow> 'w heap \<Rightarrow> RegisteredSeg result \<times> 'w heap" where
  "RegisteredSeg_register L c p len token s = register_in L c p len token None s"

definition RegisteredBuf_new ::
  "'w liburma \<Rightarrow> Context \<Rightarrow> usize \<Rightarrow> u32 \<Rightarrow> 'w heap \<Rightarrow> RegisteredSeg result \<times> 'w heap" where
  "RegisteredBuf_new L c len token s =
     (case PageBuf_new L len s of (Inl e, s) \<Rightarrow> (Inl e, s)
      | (Inr b, s) \<Rightarrow> register_in L c (pb_ptr b) len token (Some b) s)"

text \<open>The fields are dropped in declaration order, so the context handle before the buffer.\<close>

definition drop_seg :: "'w liburma \<Rightarrow> RegisteredSeg \<Rightarrow> 'w heap \<Rightarrow> 'w heap" where
  "drop_seg L g s =
     (let s = call_delete (\<lambda>l. snd (l_unregister_seg L (rs_tseg g) l)) (OSeg (rs_tseg g)) s;
          s = drop_ctx L (rs_ctx g) s
      in drop_buf L (rs_buf g) s)"

record SegDesc =
  sd_eid :: Eid
  sd_uasid :: u32
  sd_va :: u64
  sd_len :: u64
  sd_attr :: u32
  sd_token_id :: u32

definition descriptor :: "'w liburma \<Rightarrow> RegisteredSeg \<Rightarrow> 'w heap \<Rightarrow> SegDesc" where
  "descriptor L g s =
     (let seg = ts_seg (l_read_target_seg L (rs_tseg g) (lib_state s))
      in \<lparr>sd_eid = ubva_eid (seg_ubva seg), sd_uasid = ubva_uasid (seg_ubva seg),
          sd_va = get_va (seg_ubva seg), sd_len = seg_len seg,
          sd_attr = seg_attr_value (seg_attr seg) AND NOT (push_bit 14 1),
          sd_token_id = seg_token_id seg\<rparr>)"

section \<open>Exported blobs\<close>

text \<open>
  Both exports copy the library's buffer out and give it back: \<open>get\<close> and \<open>put\<close> are the
  library calls, \<open>least\<close> the size of the struct the blob must start with.
\<close>

lemma blob_sizes [simp]:
  "size_align lay_urma_rjetty_t = (48, 8)" "size_align lay_urma_seg_t = (48, 8)"
  by (simp_all add: lay_def layout_simps ffi_const)

definition get_blob :: "('w \<Rightarrow> i32 \<times> ptr \<times> u32 \<times> 'w) \<Rightarrow> 'w \<Rightarrow> ptr \<times> (i32 \<times> u32) \<times> 'w" where
  "get_blob get l =
     (let (st, p, n, l) = get l in (if st = URMA_SUCCESS then p else 0, (st, n), l))"

definition export_blob ::
  "'w liburma \<Rightarrow> ('w \<Rightarrow> i32 \<times> ptr \<times> u32 \<times> 'w) \<Rightarrow> (ptr \<Rightarrow> 'w \<Rightarrow> 'w) \<Rightarrow> (ptr \<Rightarrow> robj) \<Rightarrow> robj \<Rightarrow>
     string \<Rightarrow> string \<Rightarrow> nat \<Rightarrow> 'w heap \<Rightarrow> bytes result \<times> 'w heap" where
  "export_blob L get put mk obj what name least s =
     (let (raw, (st, len), s) = call_create_out (get_blob get) mk [obj] s
      in case check_status st what of Inl e \<Rightarrow> (Inl e, s)
         | Inr _ \<Rightarrow>
             (if raw = 0 then (Inl (null_err L what s), s)
              else if unat len < least
              then let s = call_delete (put raw) (mk raw) s
                   in (Inl (Invalid (name @ '' blob too short: '' @ show_word len @ '' < '' @
                         show_nat least)), s)
              else let blob = l_read_bytes L raw (unat len) (lib_state s);
                       s = call_delete (put raw) (mk raw) s
                   in (Inr blob, s)))"

definition export_rjetty :: "'w liburma \<Rightarrow> Jetty \<Rightarrow> 'w heap \<Rightarrow> bytes result \<times> 'w heap" where
  "export_rjetty L j s =
     export_blob L (l_get_rjetty L (j_raw j)) (l_put_rjetty L) OJettyBlob (OJetty (j_raw j))
       ''urma_get_rjetty'' ''rjetty'' (fst (size_align lay_urma_rjetty_t)) s"

definition export_seg_ctx :: "'w liburma \<Rightarrow> RegisteredSeg \<Rightarrow> 'w heap \<Rightarrow> bytes result \<times> 'w heap" where
  "export_seg_ctx L g s =
     export_blob L (l_get_seg_ctx L (rs_tseg g)) (l_put_seg_ctx L) OSegBlob (OSeg (rs_tseg g))
       ''urma_get_seg_ctx'' ''seg ctx'' (fst (size_align lay_urma_seg_t)) s"

section \<open>Imported peers\<close>

record Peer =
  peer_tseg :: ptr
  peer_tjetty :: ptr
  peer_ctx :: Context

text \<open>The \<open>u64\<close> vector a blob is copied into, as its bytes: padded with zeros to a multiple of 8.\<close>

definition aligned_blob :: "bytes \<Rightarrow> nat \<Rightarrow> string \<Rightarrow> bytes result" where
  "aligned_blob bs least what =
     (if length bs < least
      then Inl (Invalid (what @ '' blob too short: '' @ show_nat (length bs) @ '' < '' @ show_nat least))
      else Inr (bs @ replicate ((length bs + 7) div 8 * 8 - length bs) 0))"

definition write_u32 :: "nat \<Rightarrow> u32 \<Rightarrow> bytes \<Rightarrow> bytes" where
  "write_u32 off v bs = take off bs @ u32_to_le v @ drop (off + 4) bs"

definition TP_TYPE_OFFSET :: nat where
  "TP_TYPE_OFFSET = offset_of lay_urma_rjetty_t 5"

definition import_both ::
  "'w liburma \<Rightarrow> Context \<Rightarrow> urma_seg_t c_in \<Rightarrow> urma_rjetty_t c_in \<Rightarrow> u32 \<Rightarrow> 'w heap
     \<Rightarrow> Peer result \<times> 'w heap" where
  "import_both L c seg rj token_value s =
     (let flag = with_import_access \<lparr>import_seg_value = 0\<rparr> rw_rights;
          token = \<lparr>tok_token = token_value\<rparr>;
          raw = ctx_raw c s;
          (tseg, s) = call_create (l_import_seg L raw seg token 0 flag) OImpSeg [OCtx raw] s
      in if tseg = 0 then (Inl (null_err L ''urma_import_seg'' s), s)
         else
           let (tjetty, s) = call_create (l_import_jetty L raw rj token) OImpJetty [OCtx raw] s
           in if tjetty = 0
              then let e = null_err L ''urma_import_jetty'' s;
                       s = call_delete (\<lambda>l. snd (l_unimport_seg L tseg l)) (OImpSeg tseg) s
                   in (Inl e, s)
              else let (c, s) = clone_ctx c s
                   in (Inr \<lparr>peer_tseg = tseg, peer_tjetty = tjetty, peer_ctx = c\<rparr>, s))"

definition Peer_import_ctx ::
  "'w liburma \<Rightarrow> Context \<Rightarrow> bytes \<Rightarrow> bytes \<Rightarrow> TpType \<Rightarrow> u32 \<Rightarrow> 'w heap \<Rightarrow> Peer result \<times> 'w heap" where
  "Peer_import_ctx L c seg_ctx rjetty tp token_value s =
     (case aligned_blob seg_ctx (fst (size_align lay_urma_seg_t)) ''seg ctx'' of Inl e \<Rightarrow> (Inl e, s)
      | Inr seg \<Rightarrow>
          (case aligned_blob rjetty (fst (size_align lay_urma_rjetty_t)) ''rjetty'' of Inl e \<Rightarrow> (Inl e, s)
           | Inr rj \<Rightarrow>
               import_both L c (InBytes seg) (InBytes (write_u32 TP_TYPE_OFFSET (tp_raw tp) rj))
                 token_value s))"

definition seg_of_desc :: "SegDesc \<Rightarrow> urma_seg_t" where
  "seg_of_desc d =
     (let ubva = set_va (default_urma_ubva_t\<lparr>ubva_eid := sd_eid d, ubva_uasid := sd_uasid d\<rparr>) (sd_va d)
      in \<lparr>seg_ubva = ubva, seg_len = sd_len d, seg_attr = \<lparr>seg_attr_value = sd_attr d\<rparr>,
          seg_token_id = sd_token_id d\<rparr>)"

definition rjetty_of_id :: "JettyId \<Rightarrow> TransMode \<Rightarrow> TpType \<Rightarrow> urma_rjetty_t" where
  "rjetty_of_id j mode tp = default_urma_rjetty_t\<lparr>
     rj_jetty_id := JettyId_to_raw j, rj_trans_mode := tm_bit mode,
     rj_policy := URMA_JETTY_GRP_POLICY_RR, rj_type := URMA_TARGET_JETTY, rj_tp_type := tp_raw tp\<rparr>"

definition Peer_import ::
  "'w liburma \<Rightarrow> Context \<Rightarrow> SegDesc \<Rightarrow> JettyId \<Rightarrow> TransMode \<Rightarrow> TpType \<Rightarrow> u32 \<Rightarrow> 'w heap
     \<Rightarrow> Peer result \<times> 'w heap" where
  "Peer_import L c seg jetty mode tp token_value s =
     import_both L c (InStruct (seg_of_desc seg)) (InStruct (rjetty_of_id jetty mode tp)) token_value s"

definition drop_peer :: "'w liburma \<Rightarrow> Peer \<Rightarrow> 'w heap \<Rightarrow> 'w heap" where
  "drop_peer L p s =
     (let s = call_delete (\<lambda>l. snd (l_unimport_jetty L (peer_tjetty p) l)) (OImpJetty (peer_tjetty p)) s;
          s = call_delete (\<lambda>l. snd (l_unimport_seg L (peer_tseg p) l)) (OImpSeg (peer_tseg p)) s
      in drop_ctx L (peer_ctx p) s)"

end
