(* ===== verification/DemoLib.thy ===== *)
theory DemoLib
  imports Provider
begin

text \<open>
  A concrete library, for the witnesses and the counterexamples: every constructor returns the
  next unused address, except at the call numbers listed in \<open>d_fails\<close>, where it returns null
  and sets errno to 12; deleting a completion event object sets errno to 5; polling delivers the
  scripted batches of records one after the other and then nothing.
\<close>

record demo =
  d_next :: nat
  d_fails :: "nat list"
  d_errno :: i32
  d_polls :: "urma_cr_t list list"
  d_sent :: "urma_jfs_wr_t list"

definition demo_start :: "nat list \<Rightarrow> urma_cr_t list list \<Rightarrow> demo" where
  "demo_start fails polls =
     \<lparr>d_next = 0, d_fails = fails, d_errno = 0, d_polls = polls, d_sent = []\<rparr>"

definition demo_create :: "demo \<Rightarrow> ptr \<times> demo" where
  "demo_create d =
     (if d_next d \<in> set (d_fails d) then (0, d\<lparr>d_next := d_next d + 1, d_errno := 12\<rparr>)
      else (of_nat (d_next d + 1), d\<lparr>d_next := d_next d + 1\<rparr>))"

definition demo_poll :: "demo \<Rightarrow> i32 \<times> urma_cr_t list \<times> demo" where
  "demo_poll d =
     (case d_polls d of [] \<Rightarrow> (0, [], d)
      | b # bs \<Rightarrow> (of_nat (length b), b, d\<lparr>d_polls := bs\<rparr>))"

definition demo_lib :: "demo liburma" where
  "demo_lib = \<lparr>
     l_errno = d_errno,
     l_init = \<lambda>_ d. (0, d),
     l_uninit = \<lambda>d. (0, d),
     l_get_device_list = \<lambda>d. let (p, d) = demo_create d in (p, 0, d),
     l_free_device_list = \<lambda>_ d. d,
     l_read_device_list = \<lambda>_ _ _. 0,
     l_read_device = \<lambda>_ _. \<lparr>dev_name = [], dev_path = [], dev_type = 0, dev_ops = 0, dev_sysfs_dev = 0\<rparr>,
     l_get_device_by_name = \<lambda>_ d. (0x1000, d),
     l_get_eid_list = \<lambda>_ d. let (p, d) = demo_create d in (p, 1, d),
     l_free_eid_list = \<lambda>_ d. d,
     l_read_eid_info = \<lambda>_ _. default_urma_eid_info_t,
     l_query_device = \<lambda>_ d. (0, default_urma_device_attr_t, d),
     l_create_context = \<lambda>_ _. demo_create,
     l_delete_context = \<lambda>_ d. (0, d),
     l_create_jfce = \<lambda>_. demo_create,
     l_delete_jfce = \<lambda>_ d. (0, d\<lparr>d_errno := 5\<rparr>),
     l_create_jfc = \<lambda>_ _. demo_create,
     l_delete_jfc = \<lambda>_ d. (0, d),
     l_poll_jfc = \<lambda>_ _. demo_poll,
     l_create_jfr = \<lambda>_ _. demo_create,
     l_delete_jfr = \<lambda>_ d. (0, d),
     l_post_jfr_wr = \<lambda>_ _ _ d. (0, d),
     l_create_jetty = \<lambda>_ _. demo_create,
     l_delete_jetty = \<lambda>_ d. (0, d),
     l_read_jetty = \<lambda>_ _. \<lparr>jetty_urma_ctx = 0, jetty_jetty_id = default_urma_jetty_id_t,
                            jetty_remote_jetty = 0\<rparr>,
     l_import_jetty = \<lambda>_ _ _. demo_create,
     l_unimport_jetty = \<lambda>_ d. (0, d),
     l_register_seg = \<lambda>_ _. demo_create,
     l_unregister_seg = \<lambda>_ d. (0, d),
     l_read_target_seg = \<lambda>_ _. default_urma_target_seg_t,
     l_import_seg = \<lambda>_ _ _ _ _. demo_create,
     l_unimport_seg = \<lambda>_ d. (0, d),
     l_get_seg_ctx = \<lambda>_ d. let (p, d) = demo_create d in (0, p, 48, d),
     l_put_seg_ctx = \<lambda>_ d. d,
     l_get_rjetty = \<lambda>_ d. let (p, d) = demo_create d in (0, p, 48, d),
     l_put_rjetty = \<lambda>_ d. d,
     l_read_bytes = \<lambda>_ n _. replicate n 0,
     l_write_bytes = \<lambda>_ _ d. d,
     l_post_send_wr = \<lambda>_ wr _ _ d. (0, d\<lparr>d_sent := d_sent d @ [wr]\<rparr>),
     l_alloc_zeroed = \<lambda>_ _. demo_create,
     l_dealloc = \<lambda>_ _ _ d. d\<rparr>"

text \<open>Its fields one by one, so that evaluation need not unfold the record.\<close>

lemma demo_lib_simps [simp]:
  "l_errno demo_lib = (d_errno)"
  "l_init demo_lib = (\<lambda>_ d. (0, d))"
  "l_uninit demo_lib = (\<lambda>d. (0, d))"
  "l_get_device_list demo_lib = (\<lambda>d. let (p, d) = demo_create d in (p, 0, d))"
  "l_free_device_list demo_lib = (\<lambda>_ d. d)"
  "l_read_device_list demo_lib = (\<lambda>_ _ _. 0)"
  "l_read_device demo_lib = (\<lambda>_ _. \<lparr>dev_name = [], dev_path = [], dev_type = 0, dev_ops = 0, dev_sysfs_dev = 0\<rparr>)"
  "l_get_device_by_name demo_lib = (\<lambda>_ d. (0x1000, d))"
  "l_get_eid_list demo_lib = (\<lambda>_ d. let (p, d) = demo_create d in (p, 1, d))"
  "l_free_eid_list demo_lib = (\<lambda>_ d. d)"
  "l_read_eid_info demo_lib = (\<lambda>_ _. default_urma_eid_info_t)"
  "l_query_device demo_lib = (\<lambda>_ d. (0, default_urma_device_attr_t, d))"
  "l_create_context demo_lib = (\<lambda>_ _. demo_create)"
  "l_delete_context demo_lib = (\<lambda>_ d. (0, d))"
  "l_create_jfce demo_lib = (\<lambda>_. demo_create)"
  "l_delete_jfce demo_lib = (\<lambda>_ d. (0, d\<lparr>d_errno := 5\<rparr>))"
  "l_create_jfc demo_lib = (\<lambda>_ _. demo_create)"
  "l_delete_jfc demo_lib = (\<lambda>_ d. (0, d))"
  "l_poll_jfc demo_lib = (\<lambda>_ _. demo_poll)"
  "l_create_jfr demo_lib = (\<lambda>_ _. demo_create)"
  "l_delete_jfr demo_lib = (\<lambda>_ d. (0, d))"
  "l_post_jfr_wr demo_lib = (\<lambda>_ _ _ d. (0, d))"
  "l_create_jetty demo_lib = (\<lambda>_ _. demo_create)"
  "l_delete_jetty demo_lib = (\<lambda>_ d. (0, d))"
  "l_read_jetty demo_lib = (\<lambda>_ _. \<lparr>jetty_urma_ctx = 0, jetty_jetty_id = default_urma_jetty_id_t, jetty_remote_jetty = 0\<rparr>)"
  "l_import_jetty demo_lib = (\<lambda>_ _ _. demo_create)"
  "l_unimport_jetty demo_lib = (\<lambda>_ d. (0, d))"
  "l_register_seg demo_lib = (\<lambda>_ _. demo_create)"
  "l_unregister_seg demo_lib = (\<lambda>_ d. (0, d))"
  "l_read_target_seg demo_lib = (\<lambda>_ _. default_urma_target_seg_t)"
  "l_import_seg demo_lib = (\<lambda>_ _ _ _ _. demo_create)"
  "l_unimport_seg demo_lib = (\<lambda>_ d. (0, d))"
  "l_get_seg_ctx demo_lib = (\<lambda>_ d. let (p, d) = demo_create d in (0, p, 48, d))"
  "l_put_seg_ctx demo_lib = (\<lambda>_ d. d)"
  "l_get_rjetty demo_lib = (\<lambda>_ d. let (p, d) = demo_create d in (0, p, 48, d))"
  "l_put_rjetty demo_lib = (\<lambda>_ d. d)"
  "l_read_bytes demo_lib = (\<lambda>_ n _. replicate n 0)"
  "l_write_bytes demo_lib = (\<lambda>_ _ d. d)"
  "l_post_send_wr demo_lib = (\<lambda>_ wr _ _ d. (0, d\<lparr>d_sent := d_sent d @ [wr]\<rparr>))"
  "l_alloc_zeroed demo_lib = (\<lambda>_ _. demo_create)"
  "l_dealloc demo_lib = (\<lambda>_ _ _ d. d)"
  by (simp_all only: demo_lib_def liburma.simps)

end
