(* ===== verification/WorkRequests.thy ===== *)
theory WorkRequests
  imports Endpoints DemoLib
begin

text \<open>
  Posting work requests (\<open>LocalSge\<close>, \<open>ReadReq\<close>, \<open>WriteReq\<close> and the \<open>post_*\<close> methods of
  \<open>Jetty\<close> in \<open>src/urma.rs\<close>). The library receives a pointer to the first request; the requests,
  and the scatter/gather elements they point to, are in vectors of the posting call, so the
  library call gets the two dereferencing functions of those vectors. What a posted chain means
  is the list of work-queue entries a reader of the pointers sees (\<open>walk\<close>).
\<close>

section \<open>Local scatter/gather elements\<close>

record LocalSge =
  ls_tseg :: ptr
  ls_addr :: u64
  ls_len :: u32

definition LocalSge_new :: "RegisteredSeg \<Rightarrow> usize \<Rightarrow> u32 \<Rightarrow> LocalSge result" where
  "LocalSge_new seg off len =
     (let in_range = (case checked_add off (ucast len) of None \<Rightarrow> False | Some end' \<Rightarrow> end' \<le> rs_len seg)
      in if \<not> in_range
         then Inl (Invalid (''local range ['' @ show_word off @ '', +'' @ show_word len @
                '') exceeds segment (len '' @ show_word (rs_len seg) @ '')''))
         else Inr \<lparr>ls_tseg = rs_tseg seg, ls_addr = rs_va seg + off, ls_len = len\<rparr>)"

definition seg_sge :: "RegisteredSeg \<Rightarrow> usize \<Rightarrow> u32 \<Rightarrow> LocalSge result" where
  "seg_sge seg off len = LocalSge_new seg off len"

definition to_ffi :: "LocalSge \<Rightarrow> urma_sge_t" where
  "to_ffi s = default_urma_sge_t\<lparr>sge_addr := ls_addr s, sge_len := ls_len s, sge_tseg := ls_tseg s\<rparr>"

record ReadReq =
  rd_remote_va :: u64
  rd_local :: LocalSge
  rd_user_ctx :: u64
  rd_signaled :: bool

record WriteReq =
  wq_remote_va :: u64
  wq_local :: LocalSge
  wq_user_ctx :: u64
  wq_signaled :: bool

definition check_local :: "Jetty \<Rightarrow> LocalSge list \<Rightarrow> urma_sge_t list result" where
  "check_local j local =
     (if local = [] then Inl (Invalid ''empty local sge list'')
      else if length local > unat (j_max_sge j)
      then Inl (Invalid (show_nat (length local) @ '' local sges exceed max_sge '' @
             show_word (j_max_sge j) @ '' (see JettyOpts::max_sge)''))
      else Inr (map to_ffi local))"

fun total_len :: "u32 \<Rightarrow> LocalSge list \<Rightarrow> u32 option" where
  "total_len a [] = Some a"
| "total_len a (s # ss) = (case checked_add a (ls_len s) of None \<Rightarrow> None | Some b \<Rightarrow> total_len b ss)"

section \<open>The posting calls\<close>

fun sge_at :: "urma_sge_t list \<Rightarrow> urma_sge_t list \<Rightarrow> loc \<Rightarrow> urma_sge_t" where
  "sge_at src dst (SrcSge i) = src ! i"
| "sge_at src dst (DstSge i) = dst ! i"
| "sge_at src dst (Wr i) = default_urma_sge_t"

fun wr_at :: "urma_jfs_wr_t list \<Rightarrow> loc \<Rightarrow> urma_jfs_wr_t" where
  "wr_at wrs (Wr i) = wrs ! i"
| "wr_at wrs _ = default_urma_jfs_wr_t"

definition ffi_post_send ::
  "'w liburma \<Rightarrow> Jetty \<Rightarrow> urma_jfs_wr_t \<Rightarrow> (loc \<Rightarrow> urma_sge_t) \<Rightarrow> (loc \<Rightarrow> urma_jfs_wr_t)
     \<Rightarrow> 'w heap \<Rightarrow> i32 \<times> 'w heap" where
  "ffi_post_send L j wr sges wrs s =
     call_use (l_post_send_wr L (j_raw j) wr sges wrs) [OJetty (j_raw j), OImpJetty (wr_tjetty wr)] s"

definition remote_sge :: "Peer \<Rightarrow> u64 \<Rightarrow> u32 \<Rightarrow> urma_sge_t" where
  "remote_sge peer va len =
     default_urma_sge_t\<lparr>sge_addr := va, sge_len := len, sge_tseg := peer_tseg peer\<rparr>"

definition signal_flag :: "bool \<Rightarrow> urma_jfs_wr_flag_t" where
  "signal_flag signaled =
     \<lparr>wr_flag_value = (if signaled
        then URMA_JFS_WR_FLAG_COMPLETE_ENABLE OR URMA_JFS_WR_FLAG_COMP_ORDER else 0)\<rparr>"

definition post_read_signaled ::
  "'w liburma \<Rightarrow> Jetty \<Rightarrow> Peer \<Rightarrow> u64 \<Rightarrow> LocalSge list \<Rightarrow> u64 \<Rightarrow> bool \<Rightarrow> 'w heap
     \<Rightarrow> unit result \<times> 'w heap" where
  "post_read_signaled L j peer remote_va local user_ctx signaled s =
     (case check_local j local of Inl e \<Rightarrow> (Inl e, s)
      | Inr local_sges \<Rightarrow>
          (case total_len 0 local of
             None \<Rightarrow> (Inl (Invalid ''total local sge length overflows u32''), s)
           | Some tot \<Rightarrow>
               (let remote_sg = \<lparr>sg_sge = Some (SrcSge 0), sg_num_sge = 1\<rparr>;
                    local_sg = \<lparr>sg_sge = Some (DstSge 0), sg_num_sge = of_nat (length local_sges)\<rparr>;
                    rw = default_urma_rw_wr_t\<lparr>rw_src := remote_sg, rw_dst := local_sg\<rparr>;
                    wr = default_urma_jfs_wr_t\<lparr>wr_opcode := URMA_OPC_READ,
                      wr_flag := signal_flag signaled, wr_tjetty := peer_tjetty peer,
                      wr_user_ctx := user_ctx, wr_rw := rw\<rparr>;
                    (st, s) = ffi_post_send L j wr
                      (sge_at [remote_sge peer remote_va tot] local_sges) (wr_at [wr]) s
                in (check_status st ''urma_post_jetty_send_wr(READ)'', s))))"

definition post_read ::
  "'w liburma \<Rightarrow> Jetty \<Rightarrow> Peer \<Rightarrow> u64 \<Rightarrow> LocalSge list \<Rightarrow> u64 \<Rightarrow> 'w heap \<Rightarrow> unit result \<times> 'w heap" where
  "post_read L j peer remote_va local user_ctx s =
     post_read_signaled L j peer remote_va local user_ctx True s"

definition post_write_signaled ::
  "'w liburma \<Rightarrow> Jetty \<Rightarrow> Peer \<Rightarrow> u64 \<Rightarrow> LocalSge list \<Rightarrow> u64 \<Rightarrow> bool \<Rightarrow> 'w heap
     \<Rightarrow> unit result \<times> 'w heap" where
  "post_write_signaled L j peer remote_va local user_ctx signaled s =
     (case check_local j local of Inl e \<Rightarrow> (Inl e, s)
      | Inr local_sges \<Rightarrow>
          (case total_len 0 local of
             None \<Rightarrow> (Inl (Invalid ''total local sge length overflows u32''), s)
           | Some tot \<Rightarrow>
               (let remote_sg = \<lparr>sg_sge = Some (DstSge 0), sg_num_sge = 1\<rparr>;
                    local_sg = \<lparr>sg_sge = Some (SrcSge 0), sg_num_sge = of_nat (length local_sges)\<rparr>;
                    rw = default_urma_rw_wr_t\<lparr>rw_src := local_sg, rw_dst := remote_sg\<rparr>;
                    wr = default_urma_jfs_wr_t\<lparr>wr_opcode := URMA_OPC_WRITE,
                      wr_flag := signal_flag signaled, wr_tjetty := peer_tjetty peer,
                      wr_user_ctx := user_ctx, wr_rw := rw\<rparr>;
                    (st, s) = ffi_post_send L j wr
                      (sge_at local_sges [remote_sge peer remote_va tot]) (wr_at [wr]) s
                in (check_status st ''urma_post_jetty_send_wr(WRITE)'', s))))"

definition post_write ::
  "'w liburma \<Rightarrow> Jetty \<Rightarrow> Peer \<Rightarrow> u64 \<Rightarrow> LocalSge list \<Rightarrow> u64 \<Rightarrow> 'w heap \<Rightarrow> unit result \<times> 'w heap" where
  "post_write L j peer remote_va local user_ctx s =
     post_write_signaled L j peer remote_va local user_ctx True s"

section \<open>Linked lists of requests\<close>

text \<open>The three vectors of \<open>post_read_list\<close>: remote sges, local sges, requests.\<close>

type_synonym wr_vecs = "urma_sge_t list \<times> urma_sge_t list \<times> urma_jfs_wr_t list"

fun push_reads :: "Peer \<Rightarrow> ReadReq list \<Rightarrow> wr_vecs \<Rightarrow> wr_vecs" where
  "push_reads peer [] vecs = vecs"
| "push_reads peer (r # rs) (remote, local, wrs) =
     push_reads peer rs
       (remote @ [remote_sge peer (rd_remote_va r) (ls_len (rd_local r))],
        local @ [to_ffi (rd_local r)],
        wrs @ [\<lparr>wr_opcode = URMA_OPC_READ, wr_flag = signal_flag (rd_signaled r),
                wr_tjetty = peer_tjetty peer, wr_user_ctx = rd_user_ctx r,
                wr_rw = default_urma_rw_wr_t, wr_next = None\<rparr>])"

fun wire_reads :: "nat \<Rightarrow> nat \<Rightarrow> urma_jfs_wr_t list \<Rightarrow> urma_jfs_wr_t list" where
  "wire_reads 0 i wrs = wrs"
| "wire_reads (Suc k) i wrs =
     (let wrs = wrs[i := (wrs ! i)\<lparr>wr_rw := default_urma_rw_wr_t\<lparr>
                   rw_src := \<lparr>sg_sge = Some (SrcSge i), sg_num_sge = 1\<rparr>,
                   rw_dst := \<lparr>sg_sge = Some (DstSge i), sg_num_sge = 1\<rparr>\<rparr>\<rparr>];
          wrs = (if i + 1 < length wrs then wrs[i := (wrs ! i)\<lparr>wr_next := Some (Wr (i + 1))\<rparr>] else wrs)
      in wire_reads k (Suc i) wrs)"

definition post_read_list ::
  "'w liburma \<Rightarrow> Jetty \<Rightarrow> Peer \<Rightarrow> ReadReq list \<Rightarrow> 'w heap \<Rightarrow> unit result \<times> 'w heap" where
  "post_read_list L j peer reqs s =
     (if reqs = [] then (Inl (Invalid ''empty READ list''), s)
      else
        let (remote, local, wrs) = push_reads peer reqs ([], [], []);
            wrs = wire_reads (length wrs) 0 wrs;
            (st, s) = ffi_post_send L j (wrs ! 0) (sge_at remote local) (wr_at wrs) s
        in (check_status st ''urma_post_jetty_send_wr(READ list)'', s))"

fun push_writes :: "Peer \<Rightarrow> WriteReq list \<Rightarrow> wr_vecs \<Rightarrow> wr_vecs" where
  "push_writes peer [] vecs = vecs"
| "push_writes peer (r # rs) (remote, local, wrs) =
     push_writes peer rs
       (remote @ [remote_sge peer (wq_remote_va r) (ls_len (wq_local r))],
        local @ [to_ffi (wq_local r)],
        wrs @ [\<lparr>wr_opcode = URMA_OPC_WRITE, wr_flag = signal_flag (wq_signaled r),
                wr_tjetty = peer_tjetty peer, wr_user_ctx = wq_user_ctx r,
                wr_rw = default_urma_rw_wr_t, wr_next = None\<rparr>])"

fun wire_writes :: "nat \<Rightarrow> nat \<Rightarrow> urma_jfs_wr_t list \<Rightarrow> urma_jfs_wr_t list" where
  "wire_writes 0 i wrs = wrs"
| "wire_writes (Suc k) i wrs =
     (let wrs = wrs[i := (wrs ! i)\<lparr>wr_rw := default_urma_rw_wr_t\<lparr>
                   rw_src := \<lparr>sg_sge = Some (SrcSge i), sg_num_sge = 1\<rparr>,
                   rw_dst := \<lparr>sg_sge = Some (DstSge i), sg_num_sge = 1\<rparr>\<rparr>\<rparr>];
          wrs = (if i + 1 < length wrs then wrs[i := (wrs ! i)\<lparr>wr_next := Some (Wr (i + 1))\<rparr>] else wrs)
      in wire_writes k (Suc i) wrs)"

definition post_write_list ::
  "'w liburma \<Rightarrow> Jetty \<Rightarrow> Peer \<Rightarrow> WriteReq list \<Rightarrow> 'w heap \<Rightarrow> unit result \<times> 'w heap" where
  "post_write_list L j peer reqs s =
     (if reqs = [] then (Inl (Invalid ''empty WRITE list''), s)
      else
        let (remote, local, wrs) = push_writes peer reqs ([], [], []);
            wrs = wire_writes (length wrs) 0 wrs;
            (st, s) = ffi_post_send L j (wrs ! 0) (sge_at local remote) (wr_at wrs) s
        in (check_status st ''urma_post_jetty_send_wr(WRITE list)'', s))"

section \<open>Two-sided requests\<close>

definition post_send ::
  "'w liburma \<Rightarrow> Jetty \<Rightarrow> Peer \<Rightarrow> LocalSge list \<Rightarrow> u64 \<Rightarrow> 'w heap \<Rightarrow> unit result \<times> 'w heap" where
  "post_send L j peer local user_ctx s =
     (case check_local j local of Inl e \<Rightarrow> (Inl e, s)
      | Inr sges \<Rightarrow>
          (let sg = \<lparr>sg_sge = Some (SrcSge 0), sg_num_sge = of_nat (length sges)\<rparr>;
               rw = default_urma_rw_wr_t\<lparr>rw_src := sg\<rparr>;
               wr = default_urma_jfs_wr_t\<lparr>wr_opcode := URMA_OPC_SEND,
                 wr_flag := \<lparr>wr_flag_value = URMA_JFS_WR_FLAG_COMPLETE_ENABLE\<rparr>,
                 wr_tjetty := peer_tjetty peer, wr_user_ctx := user_ctx, wr_rw := rw\<rparr>;
               (st, s) = ffi_post_send L j wr (sge_at sges []) (wr_at [wr]) s
           in (check_status st ''urma_post_jetty_send_wr(SEND)'', s)))"

definition post_recv ::
  "'w liburma \<Rightarrow> Jetty \<Rightarrow> LocalSge list \<Rightarrow> u64 \<Rightarrow> 'w heap \<Rightarrow> unit result \<times> 'w heap" where
  "post_recv L j local user_ctx s =
     (case check_local j local of Inl e \<Rightarrow> (Inl e, s)
      | Inr sges \<Rightarrow>
          (let sg = \<lparr>sg_sge = Some (SrcSge 0), sg_num_sge = of_nat (length sges)\<rparr>;
               wr = default_urma_jfr_wr_t\<lparr>rwr_src := sg, rwr_user_ctx := user_ctx\<rparr>;
               (st, s) = call_use (l_post_jfr_wr L (j_jfr j) wr (sge_at sges [])) [OJfr (j_jfr j)] s
           in (check_status st ''urma_post_jfr_wr'', s)))"

section \<open>What a posted chain denotes\<close>

record wqe =
  q_opcode :: u32
  q_signal :: u32
  q_tjetty :: ptr
  q_user_ctx :: u64
  q_src :: "urma_sge_t list"
  q_dst :: "urma_sge_t list"

fun loc_plus :: "loc \<Rightarrow> nat \<Rightarrow> loc" where
  "loc_plus (SrcSge i) k = SrcSge (i + k)"
| "loc_plus (DstSge i) k = DstSge (i + k)"
| "loc_plus (Wr i) k = Wr (i + k)"

definition deref_sg :: "(loc \<Rightarrow> urma_sge_t) \<Rightarrow> urma_sg_t \<Rightarrow> urma_sge_t list" where
  "deref_sg sges sg =
     (case sg_sge sg of None \<Rightarrow> []
      | Some l \<Rightarrow> map (\<lambda>k. sges (loc_plus l k)) [0..<unat (sg_num_sge sg)])"

definition wqe_of :: "(loc \<Rightarrow> urma_sge_t) \<Rightarrow> urma_jfs_wr_t \<Rightarrow> wqe" where
  "wqe_of sges wr =
     \<lparr>q_opcode = wr_opcode wr, q_signal = wr_flag_value (wr_flag wr), q_tjetty = wr_tjetty wr,
      q_user_ctx = wr_user_ctx wr, q_src = deref_sg sges (rw_src (wr_rw wr)),
      q_dst = deref_sg sges (rw_dst (wr_rw wr))\<rparr>"

fun walk :: "nat \<Rightarrow> (loc \<Rightarrow> urma_sge_t) \<Rightarrow> (loc \<Rightarrow> urma_jfs_wr_t) \<Rightarrow> urma_jfs_wr_t \<Rightarrow> wqe list option" where
  "walk 0 sges wrs wr = None"
| "walk (Suc n) sges wrs wr =
     (case wr_next wr of
        None \<Rightarrow> Some [wqe_of sges wr]
      | Some l \<Rightarrow> map_option ((#) (wqe_of sges wr)) (walk n sges wrs (wrs l)))"

text \<open>The entries the requests stand for: for a READ the remote range is the source, for a WRITE
the destination.\<close>

definition read_wqe :: "Peer \<Rightarrow> u64 \<Rightarrow> u32 \<Rightarrow> LocalSge list \<Rightarrow> u64 \<Rightarrow> bool \<Rightarrow> wqe" where
  "read_wqe peer va tot local user_ctx signaled =
     \<lparr>q_opcode = URMA_OPC_READ, q_signal = wr_flag_value (signal_flag signaled),
      q_tjetty = peer_tjetty peer, q_user_ctx = user_ctx,
      q_src = [remote_sge peer va tot], q_dst = map to_ffi local\<rparr>"

definition write_wqe :: "Peer \<Rightarrow> u64 \<Rightarrow> u32 \<Rightarrow> LocalSge list \<Rightarrow> u64 \<Rightarrow> bool \<Rightarrow> wqe" where
  "write_wqe peer va tot local user_ctx signaled =
     \<lparr>q_opcode = URMA_OPC_WRITE, q_signal = wr_flag_value (signal_flag signaled),
      q_tjetty = peer_tjetty peer, q_user_ctx = user_ctx,
      q_src = map to_ffi local, q_dst = [remote_sge peer va tot]\<rparr>"

definition read_req_wqe :: "Peer \<Rightarrow> ReadReq \<Rightarrow> wqe" where
  "read_req_wqe peer r =
     read_wqe peer (rd_remote_va r) (ls_len (rd_local r)) [rd_local r] (rd_user_ctx r) (rd_signaled r)"

definition write_req_wqe :: "Peer \<Rightarrow> WriteReq \<Rightarrow> wqe" where
  "write_req_wqe peer r =
     write_wqe peer (wq_remote_va r) (ls_len (wq_local r)) [wq_local r] (wq_user_ctx r) (wq_signaled r)"

section \<open>Lemmas\<close>

lemma total_len_Some_iff:
  "total_len a ss = Some t \<longleftrightarrow>
     unat a + (\<Sum>s\<leftarrow>ss. unat (ls_len s)) < 2 ^ 32 \<and> t = of_nat (unat a + (\<Sum>s\<leftarrow>ss. unat (ls_len s)))"
proof (induction ss arbitrary: a)
  case Nil
  show ?case using unat_bound [of a] by auto
next
  case (Cons s ss)
  show ?case
  proof (cases "checked_add a (ls_len s)")
    case None
    then show ?thesis using checked_add_None_iff [of a "ls_len s"] by simp
  next
    case (Some b)
    then show ?thesis using Cons [of b] checked_add_SomeD [OF Some] by (simp add: add.assoc)
  qed
qed

lemma deref_range:
  "n < 2 ^ 32 \<Longrightarrow> deref_sg sges \<lparr>sg_sge = Some l, sg_num_sge = of_nat n\<rparr> = map (\<lambda>k. sges (loc_plus l k)) [0..<n]"
  by (simp add: deref_sg_def unat_of_nat)

lemma deref_one: "deref_sg sges \<lparr>sg_sge = Some l, sg_num_sge = 1\<rparr> = [sges (loc_plus l 0)]"
  by (simp add: deref_sg_def)

text \<open>
  The interface of a list post: a wiring loop over the request vector, one request after the
  other, that sets the payload of each and links it to the next. Whatever the payload, the
  chain read from the first request is the vector, in order.
\<close>

locale linked_post =
  fixes wire :: "nat \<Rightarrow> nat \<Rightarrow> urma_jfs_wr_t list \<Rightarrow> urma_jfs_wr_t list"
    and payload :: "nat \<Rightarrow> urma_rw_wr_t"
  assumes wire_0: "wire 0 i wrs = wrs"
    and wire_Suc: "i < length wrs \<Longrightarrow> wire (Suc k) i wrs = wire k (Suc i)
      (wrs[i := (wrs ! i)\<lparr>wr_rw := payload i,
         wr_next := (if Suc i < length wrs then Some (Wr (Suc i)) else wr_next (wrs ! i))\<rparr>])"
begin

lemma wire_length: "i + k = length wrs \<Longrightarrow> length (wire k i wrs) = length wrs"
  by (induction k arbitrary: i wrs) (simp_all add: wire_0 wire_Suc)

lemma wire_nth:
  "i + k = length wrs \<Longrightarrow> m < length wrs \<Longrightarrow> wire k i wrs ! m =
     (if m < i then wrs ! m
      else (wrs ! m)\<lparr>wr_rw := payload m,
             wr_next := (if Suc m < length wrs then Some (Wr (Suc m)) else wr_next (wrs ! m))\<rparr>)"
proof (induction k arbitrary: i wrs)
  case (Suc k)
  then show ?case by (cases "m = i") (auto simp: wire_Suc nth_list_update)
qed (simp add: wire_0)

lemma walk_chain:
  assumes none: "\<And>m. m < length wrs \<Longrightarrow> wr_next (wrs ! m) = None"
    and "m < length wrs" and "length wrs - m \<le> n"
  shows "walk n sges (wr_at (wire (length wrs) 0 wrs)) (wire (length wrs) 0 wrs ! m)
    = Some (map (\<lambda>i. wqe_of sges ((wrs ! i)\<lparr>wr_rw := payload i\<rparr>)) [m..<length wrs])"
  using assms(2,3)
proof (induction n arbitrary: m)
  case (Suc n)
  have at: "wire (length wrs) 0 wrs ! m = (wrs ! m)\<lparr>wr_rw := payload m,
      wr_next := (if Suc m < length wrs then Some (Wr (Suc m)) else None)\<rparr>"
    using wire_nth [of 0 "length wrs" wrs m] Suc.prems none by simp
  have head: "wqe_of sges (wire (length wrs) 0 wrs ! m) = wqe_of sges ((wrs ! m)\<lparr>wr_rw := payload m\<rparr>)"
    by (simp add: at wqe_of_def)
  show ?case
  proof (cases "Suc m < length wrs")
    case True
    then show ?thesis
      using Suc head by (simp add: at upt_conv_Cons)
  next
    case False
    then have "[m..<length wrs] = [m]" using Suc.prems by (simp add: upt_conv_Cons)
    then show ?thesis using False head by (simp add: at)
  qed
qed simp

end

definition pair_payload :: "nat \<Rightarrow> urma_rw_wr_t" where
  "pair_payload i = default_urma_rw_wr_t\<lparr>
     rw_src := \<lparr>sg_sge = Some (SrcSge i), sg_num_sge = 1\<rparr>,
     rw_dst := \<lparr>sg_sge = Some (DstSge i), sg_num_sge = 1\<rparr>\<rparr>"

interpretation read_list: linked_post wire_reads pair_payload
  by unfold_locales (simp_all add: Let_def pair_payload_def)

interpretation write_list: linked_post wire_writes pair_payload
  by unfold_locales (simp_all add: Let_def pair_payload_def)

lemma push_reads_eq:
  "push_reads peer rs (a, b, c) =
     (a @ map (\<lambda>r. remote_sge peer (rd_remote_va r) (ls_len (rd_local r))) rs,
      b @ map (\<lambda>r. to_ffi (rd_local r)) rs,
      c @ map (\<lambda>r. \<lparr>wr_opcode = URMA_OPC_READ, wr_flag = signal_flag (rd_signaled r),
                wr_tjetty = peer_tjetty peer, wr_user_ctx = rd_user_ctx r,
                wr_rw = default_urma_rw_wr_t, wr_next = None\<rparr>) rs)"
  by (induction rs arbitrary: a b c) simp_all

lemma push_writes_eq:
  "push_writes peer rs (a, b, c) =
     (a @ map (\<lambda>r. remote_sge peer (wq_remote_va r) (ls_len (wq_local r))) rs,
      b @ map (\<lambda>r. to_ffi (wq_local r)) rs,
      c @ map (\<lambda>r. \<lparr>wr_opcode = URMA_OPC_WRITE, wr_flag = signal_flag (wq_signaled r),
                wr_tjetty = peer_tjetty peer, wr_user_ctx = wq_user_ctx r,
                wr_rw = default_urma_rw_wr_t, wr_next = None\<rparr>) rs)"
  by (induction rs arbitrary: a b c) simp_all

lemma payload_wqe:
  "wqe_of sges (wr\<lparr>wr_rw := pair_payload i\<rparr>) =
     \<lparr>q_opcode = wr_opcode wr, q_signal = wr_flag_value (wr_flag wr), q_tjetty = wr_tjetty wr,
      q_user_ctx = wr_user_ctx wr, q_src = [sges (SrcSge i)], q_dst = [sges (DstSge i)]\<rparr>"
  by (simp add: wqe_of_def pair_payload_def deref_one)

lemma map_upt_nth: "n = length xs \<Longrightarrow> (\<And>i. i < n \<Longrightarrow> f i = g (xs ! i)) \<Longrightarrow> map f [0..<n] = map g xs"
  by (rule nth_equalityI) simp_all

lemma check_local_Inr_iff:
  "check_local j local = Inr sges \<longleftrightarrow>
     local \<noteq> [] \<and> length local \<le> unat (j_max_sge j) \<and> sges = map to_ffi local"
  by (auto simp: check_local_def)

lemma posted_simps:
  "fst (let (st, s) = ffi_post_send L j wr sges wrs s in (check_status st nm, s))
     = check_status (fst (l_post_send_wr L (j_raw j) wr sges wrs (lib_state s))) nm"
  "lib_state (snd (let (st, s) = ffi_post_send L j wr sges wrs s in (check_status st nm, s)))
     = snd (l_post_send_wr L (j_raw j) wr sges wrs (lib_state s))"
  by (simp_all add: ffi_post_send_def call_use_def split_beta)

text \<open>
  A posting call hands entries to the library: one library call, whose first request starts a chain
  that reads as exactly the entries, decides the result and the library's next state.
\<close>

definition hands_over ::
  "'w liburma \<Rightarrow> ptr \<Rightarrow> wqe list \<Rightarrow> string \<Rightarrow> 'w heap \<Rightarrow> unit result \<times> 'w heap \<Rightarrow> bool" where
  "hands_over L jp ws nm s out \<longleftrightarrow>
     (\<exists>wr sges wrs. walk (length ws) sges wrs wr = Some ws
        \<and> fst out = check_status (fst (l_post_send_wr L jp wr sges wrs (lib_state s))) nm
        \<and> lib_state (snd out) = snd (l_post_send_wr L jp wr sges wrs (lib_state s)))"

lemma hands_overI:
  assumes "walk (length ws) sges wrs wr = Some ws"
    and "out = (let (st, s) = ffi_post_send L j wr sges wrs s in (check_status st nm, s))"
  shows "hands_over L (j_raw j) ws nm s out"
  using assms unfolding hands_over_def
  by (intro exI [of _ wr] exI [of _ sges] exI [of _ wrs]) (simp only: posted_simps simp_thms)

lemma one_sided_hands_over:
  "if local \<noteq> [] \<and> length local \<le> unat (j_max_sge j)
      \<and> (\<Sum>x\<leftarrow>local. unat (ls_len x)) < 2 ^ 32 then
      hands_over L (j_raw j) [read_wqe peer va (of_nat (\<Sum>x\<leftarrow>local. unat (ls_len x))) local user_ctx signaled]
        ''urma_post_jetty_send_wr(READ)'' s (post_read_signaled L j peer va local user_ctx signaled s)
      \<and> hands_over L (j_raw j) [write_wqe peer va (of_nat (\<Sum>x\<leftarrow>local. unat (ls_len x))) local user_ctx signaled]
        ''urma_post_jetty_send_wr(WRITE)'' s (post_write_signaled L j peer va local user_ctx signaled s)
    else \<exists>msg. post_read_signaled L j peer va local user_ctx signaled s = (Inl (Invalid msg), s)
         \<and> post_write_signaled L j peer va local user_ctx signaled s = (Inl (Invalid msg), s)"
proof -
  define tot where "tot = (\<Sum>x\<leftarrow>local. unat (ls_len x))"
  define ok where "ok \<longleftrightarrow> local \<noteq> [] \<and> length local \<le> unat (j_max_sge j) \<and> tot < 2 ^ 32"
  show ?thesis
  proof (cases ok)
    case True
    then have local: "check_local j local = Inr (map to_ffi local)"
      and total: "total_len 0 local = Some (of_nat tot)"
      by (simp_all add: ok_def check_local_Inr_iff total_len_Some_iff tot_def)
    have n: "length local < 2 ^ 32"
      using True unat_bound [of "j_max_sge j"] by (simp add: ok_def)
    let ?r = "remote_sge peer va (of_nat tot)"
    let ?rsg = "\<lambda>l. \<lparr>sg_sge = Some l, sg_num_sge = 1\<rparr>"
    let ?lsg = "\<lambda>l. \<lparr>sg_sge = Some l, sg_num_sge = of_nat (length local)\<rparr>"
    let ?wr = "\<lambda>opc src dst. default_urma_jfs_wr_t\<lparr>wr_opcode := opc,
        wr_flag := signal_flag signaled, wr_tjetty := peer_tjetty peer, wr_user_ctx := user_ctx,
        wr_rw := default_urma_rw_wr_t\<lparr>rw_src := src, rw_dst := dst\<rparr>\<rparr>"
    let ?rd = "?wr URMA_OPC_READ (?rsg (SrcSge 0)) (?lsg (DstSge 0))"
    let ?wt = "?wr URMA_OPC_WRITE (?lsg (SrcSge 0)) (?rsg (DstSge 0))"
    have "walk 1 (sge_at [?r] (map to_ffi local)) (wr_at [?rd]) ?rd
        = Some [read_wqe peer va (of_nat tot) local user_ctx signaled]"
      using n map_nth [of "map to_ffi local"]
      by (simp add: wqe_of_def deref_one deref_range read_wqe_def default_urma_jfs_wr_t_def)
    then have "hands_over L (j_raw j) [read_wqe peer va (of_nat tot) local user_ctx signaled]
        ''urma_post_jetty_send_wr(READ)'' s (post_read_signaled L j peer va local user_ctx signaled s)"
      using local total by (intro hands_overI) (simp_all add: post_read_signaled_def Let_def)
    moreover have "walk 1 (sge_at (map to_ffi local) [?r]) (wr_at [?wt]) ?wt
        = Some [write_wqe peer va (of_nat tot) local user_ctx signaled]"
      using n map_nth [of "map to_ffi local"]
      by (simp add: wqe_of_def deref_one deref_range write_wqe_def default_urma_jfs_wr_t_def)
    then have "hands_over L (j_raw j) [write_wqe peer va (of_nat tot) local user_ctx signaled]
        ''urma_post_jetty_send_wr(WRITE)'' s (post_write_signaled L j peer va local user_ctx signaled s)"
      using local total by (intro hands_overI) (simp_all add: post_write_signaled_def Let_def)
    ultimately show ?thesis using True
      unfolding tot_def [symmetric] ok_def [symmetric] by simp
  next
    case False
    then have "(\<exists>msg. check_local j local = Inl (Invalid msg)) \<or> (\<exists>sges. check_local j local = Inr sges) \<and> total_len 0 local = None"
      using total_len_Some_iff [of 0 local]
      by (cases "total_len 0 local") (auto simp: ok_def check_local_def tot_def)
    then show ?thesis using False
      unfolding tot_def [symmetric] ok_def [symmetric]
      by (auto simp: post_read_signaled_def post_write_signaled_def)
  qed
qed

lemma read_list_hands_over:
  assumes "rs \<noteq> []"
  shows "hands_over L (j_raw j) (map (read_req_wqe peer) rs) ''urma_post_jetty_send_wr(READ list)'' s
    (post_read_list L j peer rs s)"
proof -
  define wrs where "wrs = map (\<lambda>r. \<lparr>wr_opcode = URMA_OPC_READ, wr_flag = signal_flag (rd_signaled r),
      wr_tjetty = peer_tjetty peer, wr_user_ctx = rd_user_ctx r,
      wr_rw = default_urma_rw_wr_t, wr_next = None\<rparr>) rs"
  define remote where "remote = map (\<lambda>r. remote_sge peer (rd_remote_va r) (ls_len (rd_local r))) rs"
  define local where "local = map (\<lambda>r. to_ffi (rd_local r)) rs"
  define w where "w = wire_reads (length wrs) 0 wrs"
  have "walk (length rs) (sge_at remote local) (wr_at w) (w ! 0)
      = Some (map (\<lambda>i. wqe_of (sge_at remote local) ((wrs ! i)\<lparr>wr_rw := pair_payload i\<rparr>)) [0..<length wrs])"
    unfolding w_def using assms by (intro read_list.walk_chain) (simp_all add: wrs_def)
  also have "\<dots> = Some (map (read_req_wqe peer) rs)"
    by (auto simp: payload_wqe read_req_wqe_def read_wqe_def wrs_def remote_def local_def intro!: map_upt_nth)
  finally show ?thesis
    using assms by (intro hands_overI) (simp_all add: post_read_list_def w_def wrs_def remote_def local_def push_reads_eq Let_def)
qed

lemma write_list_hands_over:
  assumes "rs \<noteq> []"
  shows "hands_over L (j_raw j) (map (write_req_wqe peer) rs) ''urma_post_jetty_send_wr(WRITE list)'' s
    (post_write_list L j peer rs s)"
proof -
  define wrs where "wrs = map (\<lambda>r. \<lparr>wr_opcode = URMA_OPC_WRITE, wr_flag = signal_flag (wq_signaled r),
      wr_tjetty = peer_tjetty peer, wr_user_ctx = wq_user_ctx r,
      wr_rw = default_urma_rw_wr_t, wr_next = None\<rparr>) rs"
  define remote where "remote = map (\<lambda>r. remote_sge peer (wq_remote_va r) (ls_len (wq_local r))) rs"
  define local where "local = map (\<lambda>r. to_ffi (wq_local r)) rs"
  define w where "w = wire_writes (length wrs) 0 wrs"
  have "walk (length rs) (sge_at local remote) (wr_at w) (w ! 0)
      = Some (map (\<lambda>i. wqe_of (sge_at local remote) ((wrs ! i)\<lparr>wr_rw := pair_payload i\<rparr>)) [0..<length wrs])"
    unfolding w_def using assms by (intro write_list.walk_chain) (simp_all add: wrs_def)
  also have "\<dots> = Some (map (write_req_wqe peer) rs)"
    by (auto simp: payload_wqe write_req_wqe_def write_wqe_def wrs_def remote_def local_def intro!: map_upt_nth)
  finally show ?thesis
    using assms by (intro hands_overI) (simp_all add: post_write_list_def w_def wrs_def remote_def local_def push_writes_eq Let_def)
qed

section \<open>Properties\<close>

text \<open>
  C38 (LocalSge::new). For a segment that ends below the top of the address space, a window is
  refused exactly when it passes the end of the segment; an accepted window is that part of the
  segment's own memory region and its end does not pass the segment's.
\<close>

theorem LocalSge_in_bounds:
  assumes "unat (rs_va seg) + unat (rs_len seg) < 2 ^ 64"
  shows "case LocalSge_new seg off len of
      Inl e \<Rightarrow> unat (rs_len seg) < unat off + unat len
    | Inr sge \<Rightarrow> ls_tseg sge = rs_tseg seg \<and> ls_len sge = len
        \<and> unat (ls_addr sge) = unat (rs_va seg) + unat off
        \<and> unat (ls_addr sge) + unat (ls_len sge) \<le> unat (rs_va seg) + unat (rs_len seg)"
proof -
  have len: "unat (ucast len :: u64) = unat len"
    using unat_bound [of len] by (simp add: unsigned_ucast_eq take_bit_nat_eq_self)
  have bound: "unat (rs_len seg) < 2 ^ 64" using unat_bound [of "rs_len seg"] by simp
  have iff: "(case checked_add off (ucast len) of None \<Rightarrow> False | Some end' \<Rightarrow> end' \<le> rs_len seg)
      \<longleftrightarrow> unat off + unat len \<le> unat (rs_len seg)"
    using bound
    by (auto simp: checked_add_def len word_le_nat_alt unat_plus_no_overflow split: option.split)
  show ?thesis
  proof (cases "unat off + unat len \<le> unat (rs_len seg)")
    case True
    then have "unat (rs_va seg + off) = unat (rs_va seg) + unat off"
      using assms by (intro unat_plus_no_overflow) simp
    then show ?thesis using True iff by (simp add: LocalSge_new_def)
  next
    case False
    then show ?thesis using iff by (simp add: LocalSge_new_def)
  qed
qed

definition demo_seg :: RegisteredSeg where
  "demo_seg = \<lparr>rs_tseg = 9, rs_va = 4096, rs_len = 128, rs_ctx = \<lparr>ctx_inner = 0, ctx_eid = []\<rparr>,
     rs_buf = None\<rparr>"

theorem LocalSge_in_bounds_witness:
  "(\<exists>sge. LocalSge_new demo_seg 64 64 = Inr sge \<and> ls_addr sge = 4160)
   \<and> (case LocalSge_new demo_seg 65 64 of Inl e \<Rightarrow> unat (rs_len demo_seg) < 129
      | Inr sge \<Rightarrow> unat (ls_addr sge) + unat (ls_len sge) \<le> 4224)"
  using LocalSge_in_bounds [of demo_seg 64 64] LocalSge_in_bounds [of demo_seg 65 64]
  by (simp add: demo_seg_def LocalSge_new_def checked_add_def split: sum.splits)

text \<open>
  C37 (post_read and post_write). A signaled or unsignaled READ or WRITE reaches the library
  exactly when the local list is not empty, has at most max_sge elements and its lengths sum up
  below 2^32; the library then sees one request, with one remote element for the whole sum, on the
  source side of a READ and the destination side of a WRITE, and its status is the result.
  Otherwise the call is an Invalid error and the library is not called.
\<close>

theorem post_one_sided:
  fixes L :: "'w liburma" and local :: "LocalSge list"
  shows "if local \<noteq> [] \<and> length local \<le> unat (j_max_sge j)
      \<and> (\<Sum>x\<leftarrow>local. unat (ls_len x)) < 2 ^ 32 then
      hands_over L (j_raw j) [read_wqe peer va (of_nat (\<Sum>x\<leftarrow>local. unat (ls_len x))) local user_ctx signaled]
        ''urma_post_jetty_send_wr(READ)'' s (post_read_signaled L j peer va local user_ctx signaled s)
      \<and> hands_over L (j_raw j) [write_wqe peer va (of_nat (\<Sum>x\<leftarrow>local. unat (ls_len x))) local user_ctx signaled]
        ''urma_post_jetty_send_wr(WRITE)'' s (post_write_signaled L j peer va local user_ctx signaled s)
    else \<exists>msg. post_read_signaled L j peer va local user_ctx signaled s = (Inl (Invalid msg), s)
         \<and> post_write_signaled L j peer va local user_ctx signaled s = (Inl (Invalid msg), s)"
  by (rule one_sided_hands_over)

text \<open>
  On post_read_list: A list of at least one READ request is handed over in one library call whose first
  request starts a chain of exactly the requests, in order, each with the remote and local element,
  user_ctx, signaling and peer it would have had if posted alone; the status of that call is the
  result. An empty list is refused without a call.
\<close>

theorem post_read_list_chain:
  fixes L :: "'w liburma"
  shows "if rs = [] then post_read_list L j peer rs s = (Inl (Invalid ''empty READ list''), s)
    else hands_over L (j_raw j) (map (read_req_wqe peer) rs) ''urma_post_jetty_send_wr(READ list)'' s
      (post_read_list L j peer rs s)"
  using read_list_hands_over [of rs L j peer s] by (simp add: post_read_list_def)

text \<open>
  On post_write_list: A list of at least one WRITE request is handed over in one library call whose first
  request starts a chain of exactly the requests, in order, each with the remote and local element,
  user_ctx, signaling and peer it would have had if posted alone; the status of that call is the
  result. An empty list is refused without a call.
\<close>

theorem post_write_list_chain:
  fixes L :: "'w liburma"
  shows "if rs = [] then post_write_list L j peer rs s = (Inl (Invalid ''empty WRITE list''), s)
    else hands_over L (j_raw j) (map (write_req_wqe peer) rs) ''urma_post_jetty_send_wr(WRITE list)'' s
      (post_write_list L j peer rs s)"
  using write_list_hands_over [of rs L j peer s] by (simp add: post_write_list_def)

text \<open>
  On post_send and post_recv: A two-sided request needs the same non-empty list of at most
  max_sge elements, but no bound on the sum of their lengths. A SEND then reaches the library as one
  signaled request whose source is the elements in order and whose destination is empty; a RECV goes
  to the jetty's jfr with the elements in order. Otherwise the result is the Invalid error of the
  check and the library is not called.
\<close>

theorem post_two_sided:
  fixes L :: "'w liburma"
  shows "if local \<noteq> [] \<and> length local \<le> unat (j_max_sge j) then
      (\<exists>wr sges wrs. walk 1 sges wrs wr
          = Some [\<lparr>q_opcode = URMA_OPC_SEND, q_signal = URMA_JFS_WR_FLAG_COMPLETE_ENABLE,
              q_tjetty = peer_tjetty peer, q_user_ctx = user_ctx, q_src = map to_ffi local, q_dst = []\<rparr>]
        \<and> fst (post_send L j peer local user_ctx s)
          = check_status (fst (l_post_send_wr L (j_raw j) wr sges wrs (lib_state s))) ''urma_post_jetty_send_wr(SEND)''
        \<and> lib_state (snd (post_send L j peer local user_ctx s))
          = snd (l_post_send_wr L (j_raw j) wr sges wrs (lib_state s)))
      \<and> (\<exists>wr sges. deref_sg sges (rwr_src wr) = map to_ffi local \<and> rwr_user_ctx wr = user_ctx
        \<and> fst (post_recv L j local user_ctx s)
          = check_status (fst (l_post_jfr_wr L (j_jfr j) wr sges (lib_state s))) ''urma_post_jfr_wr''
        \<and> lib_state (snd (post_recv L j local user_ctx s))
          = snd (l_post_jfr_wr L (j_jfr j) wr sges (lib_state s)))
    else \<exists>msg. post_send L j peer local user_ctx s = (Inl (Invalid msg), s)
         \<and> post_recv L j local user_ctx s = (Inl (Invalid msg), s)"
proof (cases "local \<noteq> [] \<and> length local \<le> unat (j_max_sge j)")
  case True
  then have local: "check_local j local = Inr (map to_ffi local)" by (simp add: check_local_Inr_iff)
  have n: "length local < 2 ^ 32"
    using True unat_bound [of "j_max_sge j"] by simp
  define sg where "sg = \<lparr>sg_sge = Some (SrcSge 0), sg_num_sge = of_nat (length local)\<rparr>"
  define wr where "wr = default_urma_jfs_wr_t\<lparr>wr_opcode := URMA_OPC_SEND,
      wr_flag := \<lparr>wr_flag_value = URMA_JFS_WR_FLAG_COMPLETE_ENABLE\<rparr>, wr_tjetty := peer_tjetty peer,
      wr_user_ctx := user_ctx, wr_rw := default_urma_rw_wr_t\<lparr>rw_src := sg\<rparr>\<rparr>"
  define rwr where "rwr = default_urma_jfr_wr_t\<lparr>rwr_src := sg, rwr_user_ctx := user_ctx\<rparr>"
  have elems: "deref_sg (sge_at (map to_ffi local) []) sg = map to_ffi local"
    using n map_nth [of "map to_ffi local"] by (simp add: sg_def deref_range)
  have "walk 1 (sge_at (map to_ffi local) []) (wr_at [wr]) wr
      = Some [\<lparr>q_opcode = URMA_OPC_SEND, q_signal = URMA_JFS_WR_FLAG_COMPLETE_ENABLE,
          q_tjetty = peer_tjetty peer, q_user_ctx = user_ctx, q_src = map to_ffi local, q_dst = []\<rparr>]"
    using elems by (simp add: wr_def wqe_of_def default_urma_jfs_wr_t_def default_urma_rw_wr_t_def
        default_urma_sg_t_def) (simp add: deref_sg_def)
  moreover have "post_send L j peer local user_ctx s
      = (let (st, s) = ffi_post_send L j wr (sge_at (map to_ffi local) []) (wr_at [wr]) s
         in (check_status st ''urma_post_jetty_send_wr(SEND)'', s))"
    using local by (simp add: post_send_def wr_def sg_def Let_def)
  moreover have "deref_sg (sge_at (map to_ffi local) []) (rwr_src rwr) = map to_ffi local \<and> rwr_user_ctx rwr = user_ctx"
    using elems by (simp add: rwr_def)
  moreover have "fst (post_recv L j local user_ctx s)
        = check_status (fst (l_post_jfr_wr L (j_jfr j) rwr (sge_at (map to_ffi local) []) (lib_state s))) ''urma_post_jfr_wr''
      \<and> lib_state (snd (post_recv L j local user_ctx s))
        = snd (l_post_jfr_wr L (j_jfr j) rwr (sge_at (map to_ffi local) []) (lib_state s))"
    using local by (simp add: post_recv_def rwr_def sg_def call_use_def Let_def split_beta)
  ultimately show ?thesis using True by (simp only: posted_simps if_True simp_thms not_False_eq_True) blast
next
  case False
  then show ?thesis by (auto simp: post_send_def post_recv_def check_local_def)
qed

end
