(* ===== verification/Text.thy ===== *)
theory Text
  imports Errors
begin

text \<open>
  Rust's string functions as far as the examples' argument parsers use them, on the UTF-8 bytes
  of a string: \<open>str::trim\<close>, \<open>str::split\<close>, \<open>str::split_once\<close> and \<open>str::parse::<usize>\<close>.
\<close>

section \<open>Trimming\<close>

text \<open>The UTF-8 encodings of the characters with the Unicode property \<open>White_Space\<close>.\<close>

definition white_space :: "string list" where
  "white_space = map (map char_of)
     ([[9], [10], [11], [12], [13], [32], [0xC2, 0x85], [0xC2, 0xA0], [0xE1, 0x9A, 0x80],
       [0xE2, 0x80, 0xA8], [0xE2, 0x80, 0xA9], [0xE2, 0x80, 0xAF], [0xE2, 0x81, 0x9F],
       [0xE3, 0x80, 0x80]] @ map (\<lambda>k. [0xE2, 0x80, 0x80 + k]) [0..<11] :: nat list list)"

fun strip_one :: "string list \<Rightarrow> string \<Rightarrow> string option" where
  "strip_one [] s = None"
| "strip_one (w # ws) s =
     (if w \<noteq> [] \<and> starts_with s w then Some (drop (length w) s) else strip_one ws s)"

lemma strip_one_shorter: "strip_one ws s = Some t \<Longrightarrow> length t < length s"
proof (induction ws)
  case (Cons w ws)
  show ?case
  proof (cases "w \<noteq> [] \<and> starts_with s w")
    case True
    then have "length w \<le> length s" by (metis starts_with_def length_take min.cobounded1)
    moreover have "0 < length w" "length t = length s - length w" using True Cons.prems by auto
    ultimately show ?thesis by linarith
  next
    case False
    then show ?thesis using Cons by (simp only: strip_one.simps if_False)
  qed
qed simp

function strip_all :: "string list \<Rightarrow> string \<Rightarrow> string" where
  "strip_all ws s = (case strip_one ws s of None \<Rightarrow> s | Some t \<Rightarrow> strip_all ws t)"
  by pat_completeness auto
termination
  by (relation "measure (\<lambda>(ws, s). length s)") (auto dest: strip_one_shorter)

declare strip_all.simps [simp del]

definition trim :: "string \<Rightarrow> string" where
  "trim s = rev (strip_all (map rev white_space) (rev (strip_all white_space s)))"

text \<open>Text without blanks, control characters and bytes beyond ASCII is left alone.\<close>

definition visible :: "char \<Rightarrow> bool" where
  "visible c \<longleftrightarrow> 32 < (of_char c :: nat) \<and> (of_char c :: nat) < 128"

lemma strip_all_stop: "strip_one ws s = None \<Longrightarrow> strip_all ws s = s"
  by (simp add: strip_all.simps)

lemma strip_one_None:
  "(\<And>w. w \<in> set ws \<Longrightarrow> w \<noteq> [] \<and> \<not> visible (hd w)) \<Longrightarrow> list_all visible s \<Longrightarrow> strip_one ws s = None"
proof (induction ws)
  case (Cons w ws)
  have w: "w \<noteq> []" "\<not> visible (hd w)" using Cons.prems(1) [of w] by simp_all
  have "\<not> starts_with s w"
  proof
    assume "starts_with s w"
    then have "take (length w) s = w" by (simp add: starts_with_def)
    then have "hd w \<in> set s" using w(1) by (metis hd_in_set in_set_takeD)
    then show False using Cons.prems(2) w(2) by (simp add: list_all_iff)
  qed
  then show ?case using Cons by simp
qed simp

lemma white_space_ends:
  "w \<in> set white_space \<Longrightarrow> w \<noteq> [] \<and> \<not> visible (hd w) \<and> \<not> visible (last w)"
  by (auto simp: white_space_def visible_def upt_rec)

lemma trim_visible: "list_all visible s \<Longrightarrow> trim s = s"
proof -
  assume s: "list_all visible s"
  have "strip_one white_space s = None"
    using white_space_ends s by (intro strip_one_None) auto
  moreover have "strip_one (map rev white_space) (rev s) = None"
    using white_space_ends s by (intro strip_one_None) (auto simp: hd_rev list_all_iff)
  ultimately show ?thesis by (simp add: trim_def strip_all_stop)
qed

section \<open>Splitting\<close>

fun split_on :: "char \<Rightarrow> string \<Rightarrow> string list" where
  "split_on c [] = [[]]"
| "split_on c (x # xs) =
     (if x = c then [] # split_on c xs
      else case split_on c xs of [] \<Rightarrow> [[x]] | p # ps \<Rightarrow> (x # p) # ps)"

fun split_once :: "string \<Rightarrow> string \<Rightarrow> (string \<times> string) option" where
  "split_once pat [] = (if pat = [] then Some ([], []) else None)"
| "split_once pat (x # xs) =
     (if starts_with (x # xs) pat then Some ([], drop (length pat) (x # xs))
      else map_option (\<lambda>(a, b). (x # a, b)) (split_once pat xs))"

lemma split_on_append: "c \<notin> set s \<Longrightarrow> split_on c (s @ c # t) = s # split_on c t"
  by (induction s) auto

lemma split_on_single: "c \<notin> set s \<Longrightarrow> split_on c s = [s]"
  by (induction s) auto

lemma split_once_SomeD: "split_once pat s = Some (a, b) \<Longrightarrow> s = a @ pat @ b"
proof (induction pat s arbitrary: a rule: split_once.induct)
  case (2 pat x xs)
  show ?case
  proof (cases "starts_with (x # xs) pat")
    case True
    then have "take (length pat) (x # xs) = pat" "a = []" "b = drop (length pat) (x # xs)"
      using 2(2) by (simp_all add: starts_with_def)
    then show ?thesis by (metis append_Nil append_take_drop_id)
  next
    case False
    then obtain a' where "split_once pat xs = Some (a', b)" "a = x # a'" using 2(2) by auto
    then show ?thesis using 2(1) [OF False] by simp
  qed
qed (auto split: if_splits)

section \<open>Decimal numbers\<close>

definition is_digit :: "char \<Rightarrow> bool" where
  "is_digit c \<longleftrightarrow> 48 \<le> (of_char c :: nat) \<and> (of_char c :: nat) \<le> 57"

fun digits_from :: "usize \<Rightarrow> string \<Rightarrow> usize option" where
  "digits_from a [] = Some a"
| "digits_from a (c # cs) =
     (if is_digit c
      then case checked_mul a 10 of None \<Rightarrow> None
           | Some b \<Rightarrow> (case checked_add b (of_nat (of_char c - 48)) of None \<Rightarrow> None
                        | Some d \<Rightarrow> digits_from d cs)
      else None)"

text \<open>\<open>usize::from_str\<close>: at least one digit, after an optional plus sign, without overflow.\<close>

definition parse_usize :: "string \<Rightarrow> usize option" where
  "parse_usize s =
     (case s of [] \<Rightarrow> None
      | c # cs \<Rightarrow>
          if c = CHR ''+'' then (if cs = [] then None else digits_from 0 cs)
          else digits_from 0 s)"

fun dec_val :: "nat \<Rightarrow> string \<Rightarrow> nat" where
  "dec_val a [] = a"
| "dec_val a (c # cs) = dec_val (10 * a + (of_char c - 48)) cs"

lemma dec_val_le: "a \<le> dec_val a cs"
proof (induction cs arbitrary: a)
  case (Cons c cs)
  show ?case using Cons [of "10 * a + (of_char c - 48)"] by simp
qed simp

lemma dec_val_append: "dec_val a (s @ t) = dec_val (dec_val a s) t"
  by (induction a s rule: dec_val.induct) auto

lemma digits_from_eq:
  "digits_from a cs =
     (if list_all is_digit cs \<and> dec_val (unat a) cs < 2 ^ 64 then Some (of_nat (dec_val (unat a) cs)) else None)"
proof (induction a cs rule: digits_from.induct)
  case (1 a)
  then show ?case using unat_bound [of a] by simp
next
  case (2 a c cs)
  show ?case
  proof (cases "is_digit c")
    case digit: True
    define d where "d = (of_char c :: nat) - 48"
    have d: "d < 10" using digit unfolding d_def is_digit_def by linarith
    have word: "unat (of_nat d :: usize) = d" using d by (simp add: unat_of_nat)
    have rec: "dec_val (unat a) (c # cs) = dec_val (10 * unat a + d) cs" by (simp add: d_def)
    show ?thesis
    proof (cases "10 * unat a + d < 2 ^ 64")
      case True
      then have mul: "checked_mul a 10 = Some (a * 10)" by (simp add: checked_mul_def)
      have b: "unat (a * 10) = 10 * unat a" using checked_mul_SomeD [OF mul] by simp
      have add: "checked_add (a * 10) (of_nat d) = Some (a * 10 + of_nat d)"
        using True by (simp add: checked_add_def b word)
      have "unat (a * 10 + of_nat d) = 10 * unat a + d" using checked_add_SomeD [OF add] by (simp add: b word)
      then show ?thesis
        using 2 [OF digit mul] digit rec mul add by (simp add: d_def)
    next
      case False
      have "\<not> dec_val (unat a) (c # cs) < 2 ^ 64" using False dec_val_le [of "10 * unat a + d" cs] rec by simp
      moreover have "digits_from a (c # cs) = None"
        using False digit checked_mul_SomeD [of a 10]
        by (auto simp: d_def [symmetric] checked_add_def word split: option.split)
      ultimately show ?thesis by simp
    qed
  qed simp
qed

lemma show_nat_digits:
  "show_nat n \<noteq> [] \<and> list_all is_digit (show_nat n) \<and> dec_val 0 (show_nat n) = n"
proof (induction n rule: show_nat.induct)
  case (1 n)
  have digit: "is_digit (digit_char k) \<and> of_char (digit_char k) - 48 = (k :: nat)" if "k < 10" for k
    using that by (simp add: is_digit_def digit_char_def)
  show ?case
  proof (cases "n < 10")
    case True
    then show ?thesis using digit [OF True] by (simp add: show_nat.simps [of n])
  next
    case False
    have "n mod 10 < 10" by simp
    from digit [OF this] show ?thesis
      using 1 [OF False] False by (simp add: show_nat.simps [of n] dec_val_append)
  qed
qed

lemma is_digit_visible: "is_digit c \<Longrightarrow> visible c"
  by (simp add: is_digit_def visible_def)

lemma parse_usize_digits:
  "s \<noteq> [] \<Longrightarrow> list_all is_digit s \<Longrightarrow>
     parse_usize s = (if dec_val 0 s < 2 ^ 64 then Some (of_nat (dec_val 0 s)) else None)"
  by (cases s) (auto simp: parse_usize_def digits_from_eq is_digit_def)

lemma parse_show: "n < 2 ^ 64 \<Longrightarrow> parse_usize (show_nat n) = Some (of_nat n)"
  using show_nat_digits [of n] by (simp add: parse_usize_digits)

end
