(* ===== verification/Bandwidth.thy ===== *)
theory Bandwidth
  imports Endpoints Text
begin

text \<open>
  The arithmetic of the bandwidth mode of \<open>examples/urma_bench.rs\<close>: which jetty an operation runs
  on and its rank there (\<open>bw_op_jetty\<close>, \<open>bw_op_rank\<close>), the windows operations cycle through
  (\<open>bw_slot_off\<close>), completion moderation (\<open>resolve_cq_mod\<close>, \<open>bw_tail_uncovered\<close>), the stop
  condition (\<open>BwStop\<close>) and the data pattern of the verify pass (\<open>pat\<close>, \<open>fill_pat\<close>,
  \<open>check_pat\<close>). Where the code would panic (a zero divisor, an empty clamp range) the result is
  \<open>None\<close>. An \<open>Instant\<close> is a number of nanoseconds.
\<close>

section \<open>Constants\<close>

definition BW_CQ_MOD_AUTO :: u64 where "BW_CQ_MOD_AUTO = 100"
definition BW_MAX_JETTIES :: u32 where "BW_MAX_JETTIES = 64"
definition BW_FENCE_CTX_BASE :: u64 where "BW_FENCE_CTX_BASE = - 1"
definition BW_FENCE_CTX_MIN :: u64 where "BW_FENCE_CTX_MIN = BW_FENCE_CTX_BASE - ucast (BW_MAX_JETTIES - 1)"
definition BW_POLL_BATCH :: nat where "BW_POLL_BATCH = 16"

datatype BwOp = OpRead | OpWrite

fun bw_tag :: "BwOp \<Rightarrow> string" where
  "bw_tag OpRead = ''read-urma''"
| "bw_tag OpWrite = ''write-urma''"

fun bw_label :: "BwOp \<Rightarrow> string" where
  "bw_label OpRead = ''READ''"
| "bw_label OpWrite = ''WRITE''"

section \<open>Operations, jetties and windows\<close>

definition checked_div :: "u64 \<Rightarrow> u64 \<Rightarrow> u64 option" where
  "checked_div a b = (if b = 0 then None else Some (a div b))"

definition checked_mod :: "u64 \<Rightarrow> u64 \<Rightarrow> u64 option" where
  "checked_mod a b = (if b = 0 then None else Some (a mod b))"

definition bw_op_jetty :: "u64 \<Rightarrow> u64 \<Rightarrow> u64 \<Rightarrow> usize option" where
  "bw_op_jetty i n list = Option.bind (checked_div i list) (\<lambda>q. checked_mod q n)"

definition bw_op_rank :: "u64 \<Rightarrow> u64 \<Rightarrow> u64 \<Rightarrow> u64 option" where
  "bw_op_rank i n list =
     Option.bind (checked_div i (list * n)) (\<lambda>q. Option.bind (checked_mod i list) (\<lambda>r. Some (q * list + r)))"

definition bw_slot_off :: "u64 \<Rightarrow> usize \<Rightarrow> usize \<Rightarrow> usize option" where
  "bw_slot_off i sz len =
     Option.bind (checked_div len sz) (\<lambda>q.
     Option.bind (checked_mod i (max q 1)) (\<lambda>r. Some (r * sz)))"

text \<open>\<open>u64::is_multiple_of\<close>: only zero is a multiple of zero.\<close>

definition is_multiple_of :: "u64 \<Rightarrow> u64 \<Rightarrow> bool" where
  "is_multiple_of a m \<longleftrightarrow> (if m = 0 then a = 0 else a mod m = 0)"

definition bw_tail_uncovered :: "u64 \<Rightarrow> u64 \<Rightarrow> bool" where
  "bw_tail_uncovered posts cq_mod \<longleftrightarrow> cq_mod > 1 \<and> \<not> is_multiple_of posts cq_mod"

text \<open>\<open>clamp\<close> panics on an empty range.\<close>

definition clamp :: "u64 \<Rightarrow> u64 \<Rightarrow> u64 \<Rightarrow> u64 option" where
  "clamp x lo hi = (if hi < lo then None else Some (if x < lo then lo else if x > hi then hi else x))"

definition resolve_cq_mod :: "u64 \<Rightarrow> u32 \<Rightarrow> u64 option" where
  "resolve_cq_mod flag depth =
     (if flag = 0 then Some (min BW_CQ_MOD_AUTO (ucast depth)) else clamp flag 1 (ucast depth))"

section \<open>The stop condition\<close>

text \<open>The clock: the instant its readings return, by their number.\<close>

type_synonym clock = "nat \<Rightarrow> nat"

datatype BwStop = Ops u64 | Until nat

text \<open>The answer and the number of clock readings made so far.\<close>

fun stop_posting :: "clock \<Rightarrow> BwStop \<Rightarrow> u64 \<Rightarrow> nat \<Rightarrow> bool \<times> nat" where
  "stop_posting clk (Ops n) next tick = (next \<ge> n, tick)"
| "stop_posting clk (Until t) next tick =
     (if next > 0 then (clk tick \<ge> t, Suc tick) else (False, tick))"

section \<open>The data pattern\<close>

definition pat :: "nat \<Rightarrow> u8" where
  "pat i = of_nat i * 31 + 7"

definition fill_pat :: "bytes \<Rightarrow> bytes" where
  "fill_pat buf = map pat [0..<length buf]"

fun check_pat_from :: "string \<Rightarrow> nat \<Rightarrow> bytes \<Rightarrow> unit result" where
  "check_pat_from what i [] = Inr ()"
| "check_pat_from what i (b # bs) =
     (if b \<noteq> pat i
      then Inl (Invalid (what @ '': byte '' @ show_nat i @ '' is 0x'' @ show_hex b @ '', expected 0x'' @
             show_hex (pat i) @ map (char_of :: nat \<Rightarrow> char) [0x20, 0xE2, 0x80, 0x94, 0x20] @
             ''wrong offset/length or corrupted transfer''))
      else check_pat_from what (Suc i) bs)"

definition check_pat :: "string \<Rightarrow> bytes \<Rightarrow> unit result" where
  "check_pat what buf = check_pat_from what 0 buf"

section \<open>The numbering on natural numbers\<close>

text \<open>The jetty and rank of an operation, and the operation of a jetty and rank.\<close>

definition jetty_of :: "nat \<Rightarrow> nat \<Rightarrow> nat \<Rightarrow> nat" where
  "jetty_of n list i = (i div list) mod n"

definition rank_of :: "nat \<Rightarrow> nat \<Rightarrow> nat \<Rightarrow> nat" where
  "rank_of n list i = i div (list * n) * list + i mod list"

definition op_of :: "nat \<Rightarrow> nat \<Rightarrow> nat \<Rightarrow> nat \<Rightarrow> nat" where
  "op_of n list j r = r div list * (list * n) + j * list + r mod list"

lemma op_of_jetty_rank:
  assumes "0 < n" and "0 < list"
  shows "op_of n list (jetty_of n list i) (rank_of n list i) = i"
proof -
  have r: "rank_of n list i div list = i div (list * n)" "rank_of n list i mod list = i mod list"
    using assms by (simp_all add: rank_of_def)
  let ?q = "i div list"
  have "op_of n list (jetty_of n list i) (rank_of n list i) = (?q div n * n + ?q mod n) * list + i mod list"
    unfolding op_of_def r jetty_of_def div_mult2_eq by algebra
  then show ?thesis by (simp only: div_mult_mod_eq)
qed

lemma jetty_rank_op_of:
  assumes "j < n" and "0 < list"
  shows "jetty_of n list (op_of n list j r) = j" and "rank_of n list (op_of n list j r) = r"
proof -
  have *: "op_of n list j r = (r div list * n + j) * list + r mod list"
    by (simp add: op_of_def algebra_simps)
  have d: "op_of n list j r div list = r div list * n + j" using assms unfolding * by simp
  show "jetty_of n list (op_of n list j r) = j" unfolding jetty_of_def d using assms by simp
  have "op_of n list j r div (list * n) = r div list" unfolding div_mult2_eq d using assms by simp
  moreover have "op_of n list j r mod list = r mod list" unfolding * by simp
  ultimately show "rank_of n list (op_of n list j r) = r" by (simp add: rank_of_def)
qed

lemma op_of_mono:
  assumes "r < r'" and "j < n" and "0 < list"
  shows "op_of n list j r < op_of n list j r'"
proof (cases "r div list = r' div list")
  case True
  moreover have "r mod list < r' mod list"
    using assms(1) True by (metis div_mult_mod_eq nat_add_left_cancel_less)
  ultimately show ?thesis by (simp add: op_of_def)
next
  case False
  then have "Suc (r div list) \<le> r' div list" using div_le_mono [of r r' list] assms(1) by linarith
  then have "Suc (r div list) * (list * n) \<le> r' div list * (list * n)" by (rule mult_right_mono) simp
  moreover have "r mod list < list" using assms(3) by simp
  moreover have "list \<le> list * n" using assms(2) by (cases n) auto
  ultimately show ?thesis unfolding op_of_def mult_Suc by linarith
qed

text \<open>The rank counts the earlier operations of the same jetty.\<close>

lemma rank_counts:
  assumes "0 < n" and "0 < list"
  shows "card {k. k < i \<and> jetty_of n list k = jetty_of n list i} = rank_of n list i"
proof -
  let ?j = "jetty_of n list i"
  have j: "?j < n" using assms by (simp add: jetty_of_def)
  have "{k. k < i \<and> jetty_of n list k = ?j} = op_of n list ?j ` {r. r < rank_of n list i}"
  proof (intro equalityI subsetI)
    fix k assume k: "k \<in> {k. k < i \<and> jetty_of n list k = ?j}"
    have k': "k = op_of n list ?j (rank_of n list k)" using k op_of_jetty_rank [OF assms, of k] by simp
    have "rank_of n list k < rank_of n list i"
    proof (rule ccontr)
      assume "\<not> ?thesis"
      then have "op_of n list ?j (rank_of n list i) \<le> op_of n list ?j (rank_of n list k)"
        using op_of_mono [OF _ j assms(2)] by (metis le_eq_less_or_eq not_less)
      then show False using k k' op_of_jetty_rank [OF assms, of i] by simp
    qed
    then show "k \<in> op_of n list ?j ` {r. r < rank_of n list i}" using k' by blast
  next
    fix k assume "k \<in> op_of n list ?j ` {r. r < rank_of n list i}"
    then obtain r where r: "r < rank_of n list i" "k = op_of n list ?j r" by blast
    then have "k < i"
      using op_of_mono [OF r(1) j assms(2)] op_of_jetty_rank [OF assms, of i] by simp
    then show "k \<in> {k. k < i \<and> jetty_of n list k = ?j}"
      using r jetty_rank_op_of [OF j assms(2)] by simp
  qed
  moreover have "inj_on (op_of n list ?j) {r. r < rank_of n list i}"
    using op_of_mono [OF _ j assms(2)] by (intro linorder_inj_onI') (metis less_irrefl)
  ultimately show ?thesis by (simp add: card_image)
qed

section \<open>The code computes it\<close>

text \<open>The shape of a pipeline: at least one jetty and one operation per list, and a full round
of lists that fits the counter.\<close>

definition shape_ok :: "u64 \<Rightarrow> u64 \<Rightarrow> bool" where
  "shape_ok n list \<longleftrightarrow> 0 < unat n \<and> 0 < unat list \<and> unat list * unat n < 2 ^ 64"

lemma shape_pos: "shape_ok n list \<Longrightarrow> n \<noteq> 0 \<and> list \<noteq> 0 \<and> list * n \<noteq> 0"
proof -
  assume s: "shape_ok n list"
  then have "unat (list * n) = unat list * unat n"
    by (intro unat_times_no_overflow) (simp add: shape_ok_def)
  then have "0 < unat (list * n)" using s by (simp add: shape_ok_def)
  then show ?thesis using s by (auto simp: shape_ok_def)
qed

lemma op_jetty_word:
  assumes "shape_ok n list"
  shows "\<exists>j. bw_op_jetty i n list = Some j \<and> unat j = jetty_of (unat n) (unat list) (unat i)"
  using shape_pos [OF assms]
  by (simp add: bw_op_jetty_def checked_div_def checked_mod_def jetty_of_def unat_div unat_mod)

lemma op_rank_word:
  assumes "shape_ok n list"
  shows "\<exists>r. bw_op_rank i n list = Some r \<and> unat r = rank_of (unat n) (unat list) (unat i)
    \<and> unat r \<le> unat i"
proof -
  have m: "unat (list * n) = unat list * unat n"
    using assms by (intro unat_times_no_overflow) (simp add: shape_ok_def)
  have l: "unat list \<le> unat list * unat n" using assms by (simp add: shape_ok_def)
  let ?l = "unat list" and ?N = "unat list * unat n" and ?i = "unat i"
  have "?i div ?N * ?l + ?i mod ?l \<le> ?i"
  proof -
    have "?i div ?N \<le> ?i div ?l div unat n" by (simp add: div_mult2_eq)
    then have "?i div ?N \<le> ?i div ?l" using div_le_dividend order_trans by blast
    then have "?i div ?N * ?l \<le> ?i div ?l * ?l" by (rule mult_right_mono) simp
    then show ?thesis using div_mult_mod_eq [of ?i ?l] by linarith
  qed
  moreover have "unat (i div (list * n) * list + i mod list) = ?i div ?N * ?l + ?i mod ?l"
  proof -
    have fits: "?i div ?N * ?l + ?i mod ?l < 2 ^ 64" using calculation unat_bound [of i] by simp
    then have "unat (i div (list * n) * list) = ?i div ?N * ?l"
      by (subst unat_times_no_overflow) (simp_all add: unat_div m)
    then show ?thesis using fits by (subst unat_plus_no_overflow) (simp_all add: unat_mod)
  qed
  ultimately show ?thesis
    using shape_pos [OF assms]
    by (simp add: bw_op_rank_def checked_div_def checked_mod_def rank_of_def)
qed

lemma slot_off_word:
  assumes "0 < unat sz" and "unat sz \<le> unat len"
  shows "\<exists>off. bw_slot_off i sz len = Some off \<and> unat off = unat i mod (unat len div unat sz) * unat sz
    \<and> unat off + unat sz \<le> unat len"
proof -
  let ?q = "unat len div unat sz" and ?s = "unat sz"
  have q: "0 < ?q" using assms by (simp add: div_greater_zero_iff)
  have "unat i mod ?q * ?s + ?s = Suc (unat i mod ?q) * ?s" by simp
  also have "\<dots> \<le> ?q * ?s" using q by (intro mult_right_mono) (simp_all add: Suc_leI)
  also have "\<dots> \<le> unat len" by simp
  finally have le: "unat i mod ?q * ?s + ?s \<le> unat len" .
  have qw: "max (len div sz) 1 = len div sz"
    using q by (auto simp: max_def word_le_nat_alt unat_div word_unat_eq_iff)
  have ne: "sz \<noteq> 0" "len div sz \<noteq> 0" using assms q by (auto simp: unat_div [symmetric] simp flip: unat_gt_0)
  have "unat i mod ?q * ?s < 2 ^ 64" using le unat_bound [of len] by simp
  then have "unat (i mod (len div sz) * sz) = unat i mod ?q * ?s"
    by (subst unat_times_no_overflow) (simp_all add: unat_mod unat_div)
  then show ?thesis
    using le ne by (simp add: bw_slot_off_def checked_div_def checked_mod_def qw)
qed

section \<open>The pattern\<close>

lemma check_pat_from_iff:
  "check_pat_from what i bs = Inr () \<longleftrightarrow> (\<forall>k < length bs. bs ! k = pat (i + k))"
proof (induction bs arbitrary: i)
  case (Cons b bs)
  have "(\<forall>k < Suc n. P k) \<longleftrightarrow> P 0 \<and> (\<forall>k < n. P (Suc k))" for P n
    by (metis less_Suc_eq_0_disj)
  then show ?case using Cons.IH [of "Suc i"] by simp
qed simp

lemma check_pat_iff: "check_pat what bs = Inr () \<longleftrightarrow> bs = fill_pat bs"
proof -
  have "bs = fill_pat bs \<longleftrightarrow> (\<forall>k < length bs. bs ! k = fill_pat bs ! k)"
    unfolding list_eq_iff_nth_eq [of bs "fill_pat bs"] by (simp add: fill_pat_def)
  also have "\<dots> \<longleftrightarrow> (\<forall>k < length bs. bs ! k = pat (0 + k))"
    by (rule all_cong) (simp add: fill_pat_def)
  finally show ?thesis unfolding check_pat_def check_pat_from_iff by (rule sym)
qed

text \<open>The pattern repeats every 256 bytes and has no smaller period: 31 is a unit modulo 256.\<close>

lemma pat_eq_iff: "pat i = pat k \<longleftrightarrow> i mod 256 = k mod 256"
proof
  assume "pat i = pat k"
  then have "of_nat i * 31 = (of_nat k * 31 :: u8)" by (simp add: pat_def)
  then have "of_nat i * 31 * 223 = (of_nat k * 31 * 223 :: u8)" by simp
  then have "of_nat i * (31 * 223 :: u8) = of_nat k * (31 * 223)" by (simp only: mult.assoc)
  moreover have "(31 * 223 :: u8) = 1" by simp
  ultimately have "(of_nat i :: u8) = of_nat k" by (simp only: mult_1_right)
  then have "unat (of_nat i :: u8) = unat (of_nat k :: u8)" by simp
  then show "i mod 256 = k mod 256" by (simp add: unat_of_nat)
next
  assume "i mod 256 = k mod 256"
  then have "(of_nat i :: u8) = of_nat k" by (simp add: word_unat_eq_iff unat_of_nat)
  then show "pat i = pat k" by (simp add: pat_def)
qed

section \<open>Properties\<close>

text \<open>
  On bw_op_jetty and bw_op_rank: For at least one jetty and a post list of at least one, whose
  round fits the counter, every operation has a jetty below the number of jetties, and its rank is
  the number of earlier operations on that jetty: the operations of a jetty are numbered without
  gaps or repetitions in posting order.
\<close>

theorem bw_numbering:
  assumes "shape_ok n list"
  shows "\<exists>j r. bw_op_jetty i n list = Some j \<and> bw_op_rank i n list = Some r \<and> unat j < unat n
    \<and> unat r = card {k. k < unat i \<and> bw_op_jetty (of_nat k) n list = Some j}"
proof -
  obtain j where j: "bw_op_jetty i n list = Some j" "unat j = jetty_of (unat n) (unat list) (unat i)"
    using op_jetty_word [OF assms] by blast
  obtain r where r: "bw_op_rank i n list = Some r" "unat r = rank_of (unat n) (unat list) (unat i)"
    using op_rank_word [OF assms] by blast
  have pos: "0 < unat n" "0 < unat list" using assms by (simp_all add: shape_ok_def)
  have "bw_op_jetty (of_nat k) n list = Some j \<longleftrightarrow>
      jetty_of (unat n) (unat list) k = jetty_of (unat n) (unat list) (unat i)" if "k < unat i" for k
  proof -
    have "unat (of_nat k :: u64) = k" using that unat_bound [of i] by (simp add: unat_of_nat)
    then show ?thesis using op_jetty_word [OF assms, of "of_nat k"] j(2) by (auto simp: word_unat_eq_iff)
  qed
  then have "{k. k < unat i \<and> bw_op_jetty (of_nat k) n list = Some j}
      = {k. k < unat i \<and> jetty_of (unat n) (unat list) k = jetty_of (unat n) (unat list) (unat i)}" by blast
  moreover have "unat j < unat n" using j(2) pos by (simp add: jetty_of_def)
  ultimately show ?thesis using j r rank_counts [OF pos, of "unat i"] by simp
qed

theorem bw_numbering_witness:
  "\<exists>j r. bw_op_jetty 11 2 4 = Some j \<and> bw_op_rank 11 2 4 = Some r \<and> unat j < 2
    \<and> unat r = card {k. k < 11 \<and> bw_op_jetty (of_nat k) 2 4 = Some j}"
  using bw_numbering [of 2 4 11] by (simp add: shape_ok_def)

text \<open>
  On bw_slot_off: For a size between 1 and the length of the buffer, an operation's window lies
  inside the buffer, and two operations fewer than length / size apart have disjoint windows.
\<close>

theorem bw_slot_windows:
  assumes "0 < unat sz" and "unat sz \<le> unat len"
    and "unat i < unat k" and "unat k - unat i < unat len div unat sz"
  shows "\<exists>a b. bw_slot_off i sz len = Some a \<and> bw_slot_off k sz len = Some b
    \<and> unat a + unat sz \<le> unat len \<and> unat b + unat sz \<le> unat len
    \<and> (unat a + unat sz \<le> unat b \<or> unat b + unat sz \<le> unat a)"
proof -
  let ?q = "unat len div unat sz" and ?s = "unat sz"
  obtain a where a: "bw_slot_off i sz len = Some a" "unat a = unat i mod ?q * ?s" "unat a + ?s \<le> unat len"
    using slot_off_word [OF assms(1,2)] by blast
  obtain b where b: "bw_slot_off k sz len = Some b" "unat b = unat k mod ?q * ?s" "unat b + ?s \<le> unat len"
    using slot_off_word [OF assms(1,2)] by blast
  have "unat i mod ?q \<noteq> unat k mod ?q"
  proof
    assume eq: "unat i mod ?q = unat k mod ?q"
    then have "?q dvd unat k - unat i"
      using assms(3) mod_eq_dvd_iff_nat [of "unat i" "unat k" ?q] by simp
    then have "?q \<le> unat k - unat i" using assms(3) by (intro dvd_imp_le) simp_all
    then show False using assms(4) by simp
  qed
  then consider "Suc (unat i mod ?q) \<le> unat k mod ?q" | "Suc (unat k mod ?q) \<le> unat i mod ?q" by linarith
  then have "unat a + ?s \<le> unat b \<or> unat b + ?s \<le> unat a"
  proof cases
    case 1
    then have "Suc (unat i mod ?q) * ?s \<le> unat k mod ?q * ?s" by (rule mult_right_mono) simp
    then show ?thesis using a(2) b(2) by simp
  next
    case 2
    then have "Suc (unat k mod ?q) * ?s \<le> unat i mod ?q * ?s" by (rule mult_right_mono) simp
    then show ?thesis using a(2) b(2) by simp
  qed
  then show ?thesis using a b by blast
qed

theorem bw_slot_windows_witness:
  "\<exists>a b. bw_slot_off 6 100 450 = Some a \<and> bw_slot_off 9 100 450 = Some b
    \<and> unat a + 100 \<le> 450 \<and> unat b + 100 \<le> 450 \<and> (unat a + 100 \<le> unat b \<or> unat b + 100 \<le> unat a)"
  using bw_slot_windows [of 100 450 6 9] by simp

text \<open>
  On resolve_cq_mod: The moderation panics exactly for an explicit value at depth 0; at any other
  depth it is between 1 and the depth, the default is the smaller of 100 and the depth, and an
  explicit value in that range is kept.
\<close>

theorem resolve_cq_mod_range:
  "(resolve_cq_mod flag depth = None \<longleftrightarrow> flag \<noteq> 0 \<and> depth = 0)
   \<and> (if depth \<noteq> 0 then \<exists>m. resolve_cq_mod flag depth = Some m \<and> 1 \<le> unat m \<and> unat m \<le> unat depth
        \<and> unat m = (if flag = 0 then min 100 (unat depth) else min (unat flag) (unat depth))
      else True)"
proof -
  have u: "unat (ucast depth :: u64) = unat depth"
    using unat_bound [of depth] by (simp add: unsigned_ucast_eq take_bit_nat_eq_self)
  have pos: "depth \<noteq> 0 \<longleftrightarrow> 1 \<le> unat depth" "flag \<noteq> 0 \<longleftrightarrow> 1 \<le> unat flag"
    using unat_gt_0 [of depth] unat_gt_0 [of flag] by auto
  show ?thesis
    using pos by (auto simp: resolve_cq_mod_def clamp_def BW_CQ_MOD_AUTO_def min_def u word_less_nat_alt
        word_le_nat_alt)
qed

text \<open>
  On the verify pattern: The verify pass accepts a buffer exactly when it is the pattern from its
  first byte on; so a transfer from offset k of a peer's pattern is accepted exactly when nothing was
  transferred or k is a multiple of 256: the pattern has period 256 and no smaller one.
\<close>

theorem check_pat_exact:
  "(check_pat what buf = Inr () \<longleftrightarrow> buf = fill_pat buf)
   \<and> (if k + n \<le> m
      then check_pat what (take n (drop k (fill_pat (replicate m 0)))) = Inr () \<longleftrightarrow> n = 0 \<or> k mod 256 = 0
      else True)"
proof -
  have "check_pat what (take n (drop k (fill_pat (replicate m 0)))) = Inr () \<longleftrightarrow> n = 0 \<or> k mod 256 = 0"
    if "k + n \<le> m"
  proof -
    define b where "b = take n (drop k (fill_pat (replicate m 0)))"
    have len: "length b = n" using that by (simp add: b_def fill_pat_def)
    have nth: "b ! i = pat (k + i)" if "i < n" for i
      using that \<open>k + n \<le> m\<close> by (simp add: b_def fill_pat_def)
    have "check_pat what b = Inr () \<longleftrightarrow> (\<forall>i < n. (k + i) mod 256 = i mod 256)"
      using nth by (simp add: check_pat_def check_pat_from_iff len pat_eq_iff)
    also have "\<dots> \<longleftrightarrow> n = 0 \<or> k mod 256 = 0"
    proof (cases "k mod 256 = 0")
      case True
      then have "(k + i) mod 256 = i mod 256" for i by (simp flip: mod_add_left_eq)
      then show ?thesis using True by blast
    next
      case False
      then have "n \<noteq> 0 \<Longrightarrow> 0 < n \<and> (k + 0) mod 256 \<noteq> 0 mod 256" by simp
      then show ?thesis using False by blast
    qed
    finally show ?thesis unfolding b_def .
  qed
  then show ?thesis by (simp add: check_pat_iff)
qed

end
