(* ===== verification/Completion.thy ===== *)
theory Completion
  imports Handles DemoLib
begin

text \<open>
  Reaping completion records (\<open>CompletionQueue::poll\<close>, \<open>poll_batch\<close> and \<open>wait_read\<close> of
  \<open>src/urma.rs\<close>). The library call returns its count and the records it wrote; the sleep
  between two polls of \<open>wait_read\<close> has no effect on the state and is left out.
\<close>

record Completion =
  c_status :: i32
  c_user_ctx :: u64
  c_completion_len :: u32

definition is_success :: "Completion \<Rightarrow> bool" where
  "is_success c \<longleftrightarrow> c_status c = URMA_CR_SUCCESS"

definition completion_of :: "urma_cr_t \<Rightarrow> Completion" where
  "completion_of cr =
     \<lparr>c_status = cr_status cr, c_user_ctx = cr_user_ctx cr, c_completion_len = cr_completion_len cr\<rparr>"

text \<open>The caller's array after the call wrote its records into it.\<close>

definition written :: "urma_cr_t list \<Rightarrow> urma_cr_t list \<Rightarrow> urma_cr_t list" where
  "written crs arr = take (length arr) crs @ drop (length crs) arr"

definition ffi_poll_jfc ::
  "'w liburma \<Rightarrow> ptr \<Rightarrow> i32 \<Rightarrow> urma_cr_t list \<Rightarrow> 'w heap \<Rightarrow> (i32 \<times> urma_cr_t list) \<times> 'w heap" where
  "ffi_poll_jfc L jfc cnt arr s =
     (let ((n, crs), s) = call_use (\<lambda>l. let (n, crs, l) = l_poll_jfc L jfc cnt l in ((n, crs), l))
                            [OJfc jfc] s
      in ((n, written crs arr), s))"

definition poll :: "'w liburma \<Rightarrow> CompletionQueue \<Rightarrow> 'w heap \<Rightarrow> Completion option result \<times> 'w heap" where
  "poll L q s =
     (let ((n, arr), s) = ffi_poll_jfc L (cq_jfc q s) 1 [default_urma_cr_t] s
      in if sint n < 0 then (Inl (Status n ''urma_poll_jfc''), s)
         else if n = 0 then (Inr None, s)
         else (Inr (Some (completion_of (arr ! 0))), s))"

definition POLL_BATCH_MAX :: nat where
  "POLL_BATCH_MAX = 64"

definition poll_batch ::
  "'w liburma \<Rightarrow> CompletionQueue \<Rightarrow> Completion list \<Rightarrow> 'w heap
     \<Rightarrow> nat result \<times> Completion list \<times> 'w heap" where
  "poll_batch L q out s =
     (if out = [] then (Inr 0, out, s)
      else
        let raw = replicate POLL_BATCH_MAX default_urma_cr_t;
            want = min (length out) POLL_BATCH_MAX;
            ((n, raw), s) = ffi_poll_jfc L (cq_jfc q s) (of_nat want) raw s
        in if sint n < 0 then (Inl (Status n ''urma_poll_jfc''), out, s)
           else
             let cnt = nat (sint n);
                 landed = map completion_of (take cnt (take (length out) raw))
             in (Inr cnt, landed @ drop (length landed) out, s))"

fun wait_read_loop ::
  "'w liburma \<Rightarrow> CompletionQueue \<Rightarrow> u64 \<Rightarrow> nat \<Rightarrow> 'w heap \<Rightarrow> Completion result \<times> 'w heap" where
  "wait_read_loop L q expected 0 s = (Inl (PollTimeout expected), s)"
| "wait_read_loop L q expected (Suc k) s =
     (case poll L q s of
        (Inl e, s) \<Rightarrow> (Inl e, s)
      | (Inr (Some cr), s) \<Rightarrow>
          (if \<not> is_success cr \<or> c_user_ctx cr \<noteq> expected
           then (Inl (BadCompletion (c_status cr) (c_user_ctx cr)), s) else (Inr cr, s))
      | (Inr None, s) \<Rightarrow> wait_read_loop L q expected k s)"

definition wait_read :: "'w liburma \<Rightarrow> CompletionQueue \<Rightarrow> u64 \<Rightarrow> 'w heap \<Rightarrow> Completion result \<times> 'w heap" where
  "wait_read L q expected s = wait_read_loop L q expected (unat POLL_RETRIES) s"

section \<open>Lemmas\<close>

text \<open>The outcome of the \<open>i\<close>-th of consecutive polls.\<close>

fun after_polls :: "'w liburma \<Rightarrow> CompletionQueue \<Rightarrow> nat \<Rightarrow> 'w heap \<Rightarrow> 'w heap" where
  "after_polls L q 0 s = s"
| "after_polls L q (Suc k) s = after_polls L q k (snd (poll L q s))"

definition nth_poll :: "'w liburma \<Rightarrow> CompletionQueue \<Rightarrow> nat \<Rightarrow> 'w heap \<Rightarrow> Completion option result" where
  "nth_poll L q i s = fst (poll L q (after_polls L q i s))"

lemma nth_poll_simps [simp]:
  "nth_poll L q 0 s = fst (poll L q s)"
  "nth_poll L q (Suc i) s = nth_poll L q i (snd (poll L q s))"
  by (simp_all add: nth_poll_def)

lemma poll_error: "fst (poll L q s) = Inl e \<Longrightarrow> \<exists>n. e = Status n ''urma_poll_jfc''"
  by (auto simp: poll_def split: prod.splits if_splits)

lemma wait_read_loop_ok:
  "fst (wait_read_loop L q expected k s) = Inr cr \<longleftrightarrow>
     (\<exists>i<k. (\<forall>j<i. nth_poll L q j s = Inr None) \<and> nth_poll L q i s = Inr (Some cr)
        \<and> is_success cr \<and> c_user_ctx cr = expected)"
proof (induction k arbitrary: s)
  case (Suc k)
  obtain r s' where p: "poll L q s = (r, s')" by force
  have split: "(\<exists>i<Suc k. P i) \<longleftrightarrow> P 0 \<or> (\<exists>i<k. P (Suc i))" for P
    by (metis less_Suc_eq_0_disj)
  have less: "(\<forall>j<Suc i. P j) \<longleftrightarrow> P 0 \<and> (\<forall>j<i. P (Suc j))" for P i
    by (metis less_Suc_eq_0_disj)
  show ?case
    unfolding split less using p Suc [of s'] by (auto split: sum.splits option.splits)
qed simp

lemma wait_read_loop_timeout:
  "fst (wait_read_loop L q expected k s) = Inl (PollTimeout x) \<longleftrightarrow>
     x = expected \<and> (\<forall>i<k. nth_poll L q i s = Inr None)"
proof (induction k arbitrary: s)
  case (Suc k)
  obtain r s' where p: "poll L q s = (r, s')" by force
  have less: "(\<forall>j<Suc i. P j) \<longleftrightarrow> P 0 \<and> (\<forall>j<i. P (Suc j))" for P i
    by (metis less_Suc_eq_0_disj)
  have "r \<noteq> Inl (PollTimeout x)" using poll_error [of L q s] p by auto
  then show ?case
    unfolding less using p Suc [of s'] by (auto split: sum.splits option.splits)
qed auto

lemma poll_batch_ok:
  assumes "out \<noteq> []"
    and "l_poll_jfc L (cq_jfc q s) (of_nat (min (length out) 64)) (lib_state s) = (n, crs, l)"
    and "sint n = int (length crs)" and "length crs \<le> min (length out) 64"
  shows "\<exists>out' s'. poll_batch L q out s = (Inr (length crs), out', s')
    \<and> length out' = length out \<and> take (length crs) out' = map completion_of crs
    \<and> drop (length crs) out' = drop (length crs) out \<and> lib_state s' = l"
proof -
  have "sint n \<ge> 0" "nat (sint n) = length crs" using assms(3) by simp_all
  moreover have "take (length crs) (take (length out) (written crs (replicate 64 default_urma_cr_t))) = crs"
    using assms(4) by (simp add: written_def)
  moreover have "length (written crs (replicate 64 default_urma_cr_t)) = 64"
    using assms(4) by (simp add: written_def)
  ultimately show ?thesis
    using assms by (simp add: poll_batch_def ffi_poll_jfc_def call_use_def POLL_BATCH_MAX_def Let_def)
qed

lemma poll_batch_fails:
  assumes "out \<noteq> []"
    and "l_poll_jfc L (cq_jfc q s) (of_nat (min (length out) 64)) (lib_state s) = (n, crs, l)"
    and "sint n < 0"
  shows "\<exists>s'. poll_batch L q out s = (Inl (Status n ''urma_poll_jfc''), out, s')"
  using assms by (simp add: poll_batch_def ffi_poll_jfc_def call_use_def POLL_BATCH_MAX_def Let_def)

section \<open>Properties\<close>

text \<open>
  C29 (wait_read). Waiting for a completion returns a record exactly when, of at most 100 polls,
  the first that is not empty delivers a successful record with the expected user_ctx, and
  times out exactly when all 100 polls are empty; a record of another operation is an error,
  never dropped and never taken for the expected one.
\<close>

theorem wait_read_outcome:
  "(fst (wait_read L q expected s) = Inr cr \<longleftrightarrow>
      (\<exists>i<100. (\<forall>j<i. nth_poll L q j s = Inr None) \<and> nth_poll L q i s = Inr (Some cr)
        \<and> is_success cr \<and> c_user_ctx cr = expected))
   \<and> (fst (wait_read L q expected s) = Inl (PollTimeout x) \<longleftrightarrow>
      x = expected \<and> (\<forall>i<100. nth_poll L q i s = Inr None))"
  unfolding wait_read_def wait_read_loop_ok wait_read_loop_timeout by (simp add: POLL_RETRIES_def)

definition demo_heap :: "nat list \<Rightarrow> urma_cr_t list list \<Rightarrow> demo heap" where
  "demo_heap fails polls =
     \<lparr>lib_state = demo_start fails polls, event_log = [], urma_cells = [], init_slot = None,
      ctx_cells = [], cq_cells = [\<lparr>qc_jfce = 1, qc_jfc = 2, qc_ctx = \<lparr>ctx_inner = 0, ctx_eid = []\<rparr>,
      qc_strong = 1\<rparr>]\<rparr>"

definition demo_cr :: "u64 \<Rightarrow> urma_cr_t" where
  "demo_cr x = default_urma_cr_t\<lparr>cr_user_ctx := x, cr_completion_len := 64\<rparr>"

lemmas demo_simps = demo_heap_def demo_start_def demo_lib_def demo_poll_def demo_create_def
  demo_cr_def default_urma_cr_t_def

theorem wait_read_outcome_witness:
  "fst (wait_read demo_lib \<lparr>cq_inner = 0\<rparr> 7 (demo_heap [] [[], [demo_cr 7]]))
     = Inr \<lparr>c_status = 0, c_user_ctx = 7, c_completion_len = 64\<rparr>"
proof -
  let ?s = "demo_heap [] [[], [demo_cr 7]]"
  have "nth_poll demo_lib \<lparr>cq_inner = 0\<rparr> 0 ?s = Inr None"
    and "nth_poll demo_lib \<lparr>cq_inner = 0\<rparr> 1 ?s
      = Inr (Some \<lparr>c_status = 0, c_user_ctx = 7, c_completion_len = 64\<rparr>)"
    by (simp_all add: nth_poll_def poll_def ffi_poll_jfc_def call_use_def demo_simps written_def
        completion_of_def cq_jfc_def numeral_eq_Suc Let_def record_event_def set_lib_def)
  then show ?thesis
    using wait_read_outcome [of demo_lib "\<lparr>cq_inner = 0\<rparr>" 7 ?s
        "\<lparr>c_status = 0, c_user_ctx = 7, c_completion_len = 64\<rparr>" 7]
    by (auto simp: is_success_def ffi_const intro!: exI [of _ 1])
qed

text \<open>
  C30 (poll_batch). If the library keeps to its interface, reporting as many records as it
  wrote and no more than it was asked for, a batch poll returns that count, at most the length of
  the caller's slice, puts exactly those records at the front of the slice and leaves the rest
  of it as it was.
\<close>

theorem poll_batch_reaps:
  assumes "out \<noteq> []"
    and "l_poll_jfc L (cq_jfc q s) (of_nat (min (length out) 64)) (lib_state s) = (n, crs, l)"
    and "sint n = int (length crs)" and "length crs \<le> min (length out) 64"
  shows "\<exists>out' s'. poll_batch L q out s = (Inr (length crs), out', s')
    \<and> length out' = length out \<and> take (length crs) out' = map completion_of crs
    \<and> drop (length crs) out' = drop (length crs) out \<and> length crs \<le> length out"
  using poll_batch_ok [OF assms] assms(4) by auto

theorem poll_batch_reaps_witness:
  "\<exists>out' s'. poll_batch demo_lib \<lparr>cq_inner = 0\<rparr>
       [\<lparr>c_status = 9, c_user_ctx = 0, c_completion_len = 0\<rparr>,
        \<lparr>c_status = 9, c_user_ctx = 1, c_completion_len = 0\<rparr>] (demo_heap [] [[demo_cr 5]])
     = (Inr 1, out', s')"
proof -
  let ?out = "[\<lparr>c_status = 9, c_user_ctx = 0, c_completion_len = 0\<rparr>,
        \<lparr>c_status = 9, c_user_ctx = 1, c_completion_len = 0\<rparr> :: Completion]"
  have "l_poll_jfc demo_lib (cq_jfc \<lparr>cq_inner = 0\<rparr> (demo_heap [] [[demo_cr 5]]))
      (of_nat (min (length ?out) 64)) (lib_state (demo_heap [] [[demo_cr 5]]))
    = (1, [demo_cr 5], demo_start [] [])"
    by (simp add: demo_simps)
  from poll_batch_reaps [OF _ this] show ?thesis by (auto simp: )
qed

end
