(* ===== verification/Pipeline.thy ===== *)
theory Pipeline
  imports Bandwidth WorkRequests Completion
begin

text \<open>
  The pipelined bandwidth pass of \<open>examples/urma_bench.rs\<close> (\<open>bw_pass\<close>, \<open>run_bw_iters\<close>): posting
  chunks while the in-flight budget allows, fencing unsignaled tails, reaping batches of records.
  A step's result is \<open>None\<close> for a panic, and an error or a value otherwise, with the state of the
  pass; \<open>bw_loop\<close> is a partial function whose outer \<open>None\<close> is not returning. \<open>Instant::now()\<close>
  reads the clock, a function from the number of the reading.
\<close>

section \<open>The state of a pass\<close>

definition READ_TIMEOUT :: nat where "READ_TIMEOUT = 30000000000"
definition BW_WARMUP :: nat where "BW_WARMUP = 1000000000"

record BwCtx =
  bx_jetties :: "Jetty list"
  bx_cq :: CompletionQueue
  bx_peers :: "Peer list"
  bx_remote_va :: u64
  bx_seg_len :: u64
  bx_landing :: RegisteredSeg
  bx_post_list :: u32
  bx_op :: BwOp

text \<open>The arguments of \<open>bw_pass\<close>.\<close>

record bw_args =
  ba_bw :: BwCtx
  ba_size :: usize
  ba_depth :: u32
  ba_cq_mod :: u64
  ba_stop :: BwStop
  ba_timed :: bool

text \<open>Its local variables, the number of clock readings and the heap.\<close>

record 'w bw_state =
  bs_next :: u64
  bs_posted :: "u64 list"
  bs_done :: "u64 list"
  bs_done_total :: u64
  bs_fenced :: "bool list"
  bs_t0 :: "nat option"
  bs_deadline :: nat
  bs_crs :: "Completion list"
  bs_tick :: nat
  bs_heap :: "'w heap"

type_synonym ('a, 's) step = "'a result option \<times> 's"

definition and_then :: "('a, 's) step \<Rightarrow> ('a \<Rightarrow> 's \<Rightarrow> ('b, 's) step) \<Rightarrow> ('b, 's) step" where
  "and_then r k =
     (case r of (None, s) \<Rightarrow> (None, s)
      | (Some (Inl e), s) \<Rightarrow> (Some (Inl e), s)
      | (Some (Inr x), s) \<Rightarrow> k x s)"

definition bw_n :: "BwCtx \<Rightarrow> u64" where
  "bw_n bw = of_nat (length (bx_jetties bw))"

definition bw_list :: "BwCtx \<Rightarrow> u64" where
  "bw_list bw = ucast (bx_post_list bw)"

definition landing_len :: "RegisteredSeg \<Rightarrow> usize" where
  "landing_len seg = (case rs_buf seg of None \<Rightarrow> 0 | Some b \<Rightarrow> pb_size b)"

definition read_clock :: "clock \<Rightarrow> 'w bw_state \<Rightarrow> nat \<times> 'w bw_state" where
  "read_clock clk st = (clk (bs_tick st), st\<lparr>bs_tick := Suc (bs_tick st)\<rparr>)"

definition check_stop :: "clock \<Rightarrow> BwStop \<Rightarrow> 'w bw_state \<Rightarrow> bool \<times> 'w bw_state" where
  "check_stop clk stop st =
     (let (halt, tick) = stop_posting clk stop (bs_next st) (bs_tick st)
      in (halt, st\<lparr>bs_tick := tick\<rparr>))"

definition in_window :: "u32 \<Rightarrow> 'w bw_state \<Rightarrow> bool" where
  "in_window depth st \<longleftrightarrow> bs_next st - bs_done_total st < ucast depth"

section \<open>Posting\<close>

text \<open>The next request of a chunk, pushed to the vector of the pass's operation.\<close>

type_synonym requests = "ReadReq list \<times> WriteReq list"

definition push_req :: "bw_args \<Rightarrow> u64 \<Rightarrow> requests \<Rightarrow> requests result option" where
  "push_req p next reqs =
     (let bw = ba_bw p
      in case (bw_op_rank next (bw_n bw) (bw_list bw),
               bw_slot_off next (ba_size p) (landing_len (bx_landing bw)),
               bw_slot_off next (ba_size p) (bx_seg_len bw)) of
           (Some rank, Some off, Some roff) \<Rightarrow>
             (let va = bx_remote_va bw + roff;
                  signaled = is_multiple_of (rank + 1) (ba_cq_mod p)
              in Some (rbind (seg_sge (bx_landing bw) off (ucast (ba_size p))) (\<lambda>sge.
                   Inr (case bx_op bw of
                     OpRead \<Rightarrow> (fst reqs @ [\<lparr>rd_remote_va = va, rd_local = sge, rd_user_ctx = next,
                                  rd_signaled = signaled\<rparr>], snd reqs)
                   | OpWrite \<Rightarrow> (fst reqs, snd reqs @ [\<lparr>wq_remote_va = va, wq_local = sge,
                                  wq_user_ctx = next, wq_signaled = signaled\<rparr>])))))
         | _ \<Rightarrow> None)"

text \<open>One operation is counted as posted; the first one of a timed pass starts the clock.\<close>

definition count_post :: "clock \<Rightarrow> bw_args \<Rightarrow> nat \<Rightarrow> 'w bw_state \<Rightarrow> 'w bw_state" where
  "count_post clk p j st =
     (let st = (if ba_timed p \<and> bs_next st = 0
                then let (t, st) = read_clock clk st in st\<lparr>bs_t0 := Some t\<rparr> else st)
      in st\<lparr>bs_next := bs_next st + 1, bs_posted := (bs_posted st)[j := bs_posted st ! j + 1]\<rparr>)"

text \<open>The inner loop: at most \<open>k\<close> more requests for the chunk of jetty \<open>j\<close>.\<close>

fun fill_chunk ::
  "clock \<Rightarrow> bw_args \<Rightarrow> nat \<Rightarrow> nat \<Rightarrow> requests \<Rightarrow> 'w bw_state \<Rightarrow> (requests, 'w bw_state) step" where
  "fill_chunk clk p j 0 reqs st = (Some (Inr reqs), st)"
| "fill_chunk clk p j (Suc k) reqs st =
     (let (halt, st) = check_stop clk (ba_stop p) st
      in if halt \<or> \<not> in_window (ba_depth p) st then (Some (Inr reqs), st)
         else case push_req p (bs_next st) reqs of
           None \<Rightarrow> (None, st)
         | Some (Inl e) \<Rightarrow> (Some (Inl e), st)
         | Some (Inr reqs) \<Rightarrow> fill_chunk clk p j k reqs (count_post clk p j st))"

definition post_chunk ::
  "'w liburma \<Rightarrow> BwCtx \<Rightarrow> nat \<Rightarrow> requests \<Rightarrow> 'w bw_state \<Rightarrow> (unit, 'w bw_state) step" where
  "post_chunk L bw j reqs st =
     (if j \<ge> length (bx_jetties bw) \<or> j \<ge> length (bx_peers bw) then (None, st)
      else let (r, h) = (case bx_op bw of
             OpRead \<Rightarrow> post_read_list L (bx_jetties bw ! j) (bx_peers bw ! j) (fst reqs) (bs_heap st)
           | OpWrite \<Rightarrow> post_write_list L (bx_jetties bw ! j) (bx_peers bw ! j) (snd reqs) (bs_heap st))
           in (Some r, st\<lparr>bs_heap := h\<rparr>))"

text \<open>One turn of the posting loop; \<open>False\<close> is that its condition no longer holds.\<close>

definition post_step ::
  "'w liburma \<Rightarrow> clock \<Rightarrow> bw_args \<Rightarrow> 'w bw_state \<Rightarrow> (bool, 'w bw_state) step" where
  "post_step L clk p st =
     (let (halt, st) = check_stop clk (ba_stop p) st; bw = ba_bw p
      in if halt \<or> \<not> in_window (ba_depth p) st then (Some (Inr False), st)
         else case (bw_op_jetty (bs_next st) (bw_n bw) (bw_list bw),
                    checked_mod (bs_next st) (bw_list bw)) of
           (Some j, Some r) \<Rightarrow>
             and_then (fill_chunk clk p (unat j) (unat (bw_list bw - r)) ([], []) st) (\<lambda>reqs st.
             and_then (post_chunk L bw (unat j) reqs st) (\<lambda>_ st. (Some (Inr True), st)))
         | _ \<Rightarrow> (None, st))"

text \<open>How much of the budget is free: it shrinks with every turn, so the posting loop ends.\<close>

definition free_slots :: "bw_args \<Rightarrow> 'w bw_state \<Rightarrow> nat" where
  "free_slots p st = unat (ba_depth p) - unat (bs_next st - bs_done_total st)"

lemma and_then_Inr_iff:
  "and_then r k = (Some (Inr y), t) \<longleftrightarrow> (\<exists>x s. r = (Some (Inr x), s) \<and> k x s = (Some (Inr y), t))"
  by (auto simp: and_then_def split: prod.splits option.splits sum.splits)

lemma unat_depth: "unat (ucast d :: u64) = unat d" for d :: u32
  using unat_bound [of d] by (simp add: unsigned_ucast_eq take_bit_nat_eq_self)

lemma check_stop_simps:
  "check_stop clk stop st = (halt, st') \<Longrightarrow> \<exists>tick. st' = st\<lparr>bs_tick := tick\<rparr>"
  by (auto simp: check_stop_def split: prod.splits)

lemma count_post_simps [simp]:
  "bs_next (count_post clk p j st) = bs_next st + 1"
  "bs_posted (count_post clk p j st) = (bs_posted st)[j := bs_posted st ! j + 1]"
  "bs_done (count_post clk p j st) = bs_done st"
  "bs_done_total (count_post clk p j st) = bs_done_total st"
  "bs_fenced (count_post clk p j st) = bs_fenced st"
  "bs_crs (count_post clk p j st) = bs_crs st"
  "bs_heap (count_post clk p j st) = bs_heap st"
  by (simp_all add: count_post_def read_clock_def Let_def)

lemma push_req_length:
  "push_req p x reqs = Some (Inr reqs') \<Longrightarrow>
     length (fst reqs') + length (snd reqs') = Suc (length (fst reqs) + length (snd reqs))"
  by (cases "bx_op (ba_bw p)") (auto simp: push_req_def Let_def res_simps split: option.splits)

lemma fill_chunk_progress:
  assumes "fill_chunk clk p j k reqs st = (Some (Inr reqs'), st')"
  shows "length (fst reqs') + length (snd reqs') = length (fst reqs) + length (snd reqs) \<and> free_slots p st' = free_slots p st
    \<or> free_slots p st' < free_slots p st"
  using assms
proof (induction clk p j k reqs st rule: fill_chunk.induct)
  case (2 clk p j k reqs st)
  obtain halt st1 where c: "check_stop clk (ba_stop p) st = (halt, st1)" by force
  then obtain tick where st1: "st1 = st\<lparr>bs_tick := tick\<rparr>" using check_stop_simps by blast
  show ?case
  proof (cases "halt \<or> \<not> in_window (ba_depth p) st1")
    case True
    then show ?thesis using 2(2) by (auto simp: c st1 free_slots_def)
  next
    case False
    then obtain reqs1 where r: "push_req p (bs_next st1) reqs = Some (Inr reqs1)"
      and f: "fill_chunk clk p j k reqs1 (count_post clk p j st1) = (Some (Inr reqs'), st')"
      using 2(2) by (auto simp: c split: option.splits sum.splits)
    have "unat (bs_next st - bs_done_total st) < unat (ba_depth p)"
      using False by (simp add: in_window_def st1 word_less_nat_alt unat_depth)
    moreover from this have "unat (bs_next st - bs_done_total st + 1) = unat (bs_next st - bs_done_total st) + 1"
      using unat_bound [of "ba_depth p"] unat_plus_no_overflow [of "bs_next st - bs_done_total st" 1] by simp
    ultimately have "free_slots p (count_post clk p j st1) < free_slots p st"
      by (simp add: free_slots_def st1 algebra_simps)
    then show ?thesis using 2(1) [OF c [symmetric] refl False r refl f] c st1 False f r by auto
  qed
qed auto

lemma post_step_progress:
  assumes "post_step L clk p st = (Some (Inr True), st')"
  shows "free_slots p st' < free_slots p st"
proof -
  obtain halt st1 where c: "check_stop clk (ba_stop p) st = (halt, st1)" by force
  then obtain tick where st1: "st1 = st\<lparr>bs_tick := tick\<rparr>" using check_stop_simps by blast
  obtain j k reqs st2 h where f: "fill_chunk clk p j k ([], []) st1 = (Some (Inr reqs), st2)"
    and pc: "post_chunk L (ba_bw p) j reqs st2 = (Some (Inr ()), st')"
    using assms by (auto simp: post_step_def Let_def c and_then_Inr_iff split: if_splits option.splits)
  have "fst reqs \<noteq> [] \<or> snd reqs \<noteq> []" "\<exists>h. st' = st2\<lparr>bs_heap := h\<rparr>"
    using pc by (auto simp: post_chunk_def post_read_list_def post_write_list_def
        split: if_splits BwOp.splits prod.splits)
  then show ?thesis using fill_chunk_progress [OF f] by (auto simp: st1 free_slots_def)
qed

function post_phase ::
  "'w liburma \<Rightarrow> clock \<Rightarrow> bw_args \<Rightarrow> 'w bw_state \<Rightarrow> (unit, 'w bw_state) step" where
  "post_phase L clk p st =
     (case post_step L clk p st of
        (None, st) \<Rightarrow> (None, st)
      | (Some (Inl e), st) \<Rightarrow> (Some (Inl e), st)
      | (Some (Inr go), st) \<Rightarrow> if go then post_phase L clk p st else (Some (Inr ()), st))"
  by pat_completeness auto
termination
  by (relation "measure (\<lambda>(L, clk, p, st). free_slots p st)") (auto dest: post_step_progress [OF sym])

declare post_phase.simps [simp del]

section \<open>Fences and records\<close>

definition post_fence :: "'w liburma \<Rightarrow> bw_args \<Rightarrow> nat \<Rightarrow> 'w bw_state \<Rightarrow> (unit, 'w bw_state) step" where
  "post_fence L p j st =
     (let bw = ba_bw p
      in if \<not> bs_fenced st ! j \<and> bw_tail_uncovered (bs_posted st ! j) (ba_cq_mod p)
         then if j \<ge> length (bx_peers bw) then (None, st)
              else case seg_sge (bx_landing bw) 0 1 of
                Inl e \<Rightarrow> (Some (Inl e), st)
              | Inr sge \<Rightarrow>
                  (case post_read_signaled L (bx_jetties bw ! j) (bx_peers bw ! j) (bx_remote_va bw)
                          [sge] (BW_FENCE_CTX_BASE - of_nat j) True (bs_heap st) of
                     (Inl e, h) \<Rightarrow> (Some (Inl e), st\<lparr>bs_heap := h\<rparr>)
                   | (Inr _, h) \<Rightarrow>
                       (Some (Inr ()), st\<lparr>bs_heap := h, bs_fenced := (bs_fenced st)[j := True]\<rparr>))
         else (Some (Inr ()), st))"

fun post_fences ::
  "'w liburma \<Rightarrow> bw_args \<Rightarrow> nat list \<Rightarrow> 'w bw_state \<Rightarrow> (unit, 'w bw_state) step" where
  "post_fences L p [] st = (Some (Inr ()), st)"
| "post_fences L p (j # js) st = and_then (post_fence L p j st) (\<lambda>_ st. post_fences L p js st)"

definition fence_phase ::
  "'w liburma \<Rightarrow> clock \<Rightarrow> bw_args \<Rightarrow> 'w bw_state \<Rightarrow> (unit, 'w bw_state) step" where
  "fence_phase L clk p st =
     (let (halt, st) = check_stop clk (ba_stop p) st
      in if halt \<and> in_window (ba_depth p) st
         then post_fences L p [0..<length (bx_jetties (ba_bw p))] st
         else (Some (Inr ()), st))"

text \<open>The jetty a record's user context stands for, and how many of its operations it proves.\<close>

definition record_target :: "bw_args \<Rightarrow> 'w bw_state \<Rightarrow> u64 \<Rightarrow> (nat \<times> u64) option" where
  "record_target p st ctx =
     (let bw = ba_bw p
      in if ctx \<ge> BW_FENCE_CTX_MIN
         then let j = unat (BW_FENCE_CTX_BASE - ctx)
              in if j < length (bs_posted st) then Some (j, bs_posted st ! j) else None
         else case (bw_op_jetty ctx (bw_n bw) (bw_list bw), bw_op_rank ctx (bw_n bw) (bw_list bw)) of
             (Some j, Some r) \<Rightarrow> Some (unat j, r + 1)
           | _ \<Rightarrow> None)"

definition credit :: "nat \<Rightarrow> u64 \<Rightarrow> 'w bw_state \<Rightarrow> 'w bw_state" where
  "credit j target st =
     (if target > bs_done st ! j
      then st\<lparr>bs_done_total := bs_done_total st + (target - bs_done st ! j),
              bs_done := (bs_done st)[j := target]\<rparr>
      else st)"

definition reap_one ::
  "clock \<Rightarrow> bw_args \<Rightarrow> Completion \<Rightarrow> 'w bw_state \<Rightarrow> (unit, 'w bw_state) step" where
  "reap_one clk p cr st =
     (if \<not> is_success cr then (Some (Inl (BadCompletion (c_status cr) (c_user_ctx cr))), st)
      else case record_target p st (c_user_ctx cr) of
        None \<Rightarrow> (None, st)
      | Some (j, target) \<Rightarrow>
          (let (t, st) = read_clock clk (credit j target st)
           in (Some (Inr ()), st\<lparr>bs_deadline := t + READ_TIMEOUT\<rparr>)))"

fun reap_all ::
  "clock \<Rightarrow> bw_args \<Rightarrow> Completion list \<Rightarrow> 'w bw_state \<Rightarrow> (unit, 'w bw_state) step" where
  "reap_all clk p [] st = (Some (Inr ()), st)"
| "reap_all clk p (cr # crs) st = and_then (reap_one clk p cr st) (\<lambda>_ st. reap_all clk p crs st)"

text \<open>The records a poll delivered; slicing panics on a count above the batch.\<close>

definition poll_records ::
  "'w liburma \<Rightarrow> bw_args \<Rightarrow> 'w bw_state \<Rightarrow> (Completion list, 'w bw_state) step" where
  "poll_records L p st =
     (let (r, crs, h) = poll_batch L (bx_cq (ba_bw p)) (bs_crs st) (bs_heap st);
          st = st\<lparr>bs_crs := crs, bs_heap := h\<rparr>
      in case r of
           Inl e \<Rightarrow> (Some (Inl e), st)
         | Inr cnt \<Rightarrow> if cnt > length crs then (None, st) else (Some (Inr (take cnt crs)), st))"

definition poll_phase ::
  "'w liburma \<Rightarrow> clock \<Rightarrow> bw_args \<Rightarrow> 'w bw_state \<Rightarrow> (unit, 'w bw_state) step" where
  "poll_phase L clk p st =
     and_then (poll_records L p st) (\<lambda>crs st.
       if crs = []
       then let (t, st) = read_clock clk st
            in if t \<ge> bs_deadline st then (Some (Inl (PollTimeout (bs_next st))), st)
               else (Some (Inr ()), st)
       else reap_all clk p crs st)"

section \<open>The pass\<close>

text \<open>One turn of the main loop; \<open>True\<close> is its \<open>break\<close>.\<close>

definition pass_step ::
  "'w liburma \<Rightarrow> clock \<Rightarrow> bw_args \<Rightarrow> 'w bw_state \<Rightarrow> (bool, 'w bw_state) step" where
  "pass_step L clk p st =
     and_then (post_phase L clk p st) (\<lambda>_ st.
     and_then (fence_phase L clk p st) (\<lambda>_ st.
       let (halt, st) = (if bs_done_total st = bs_next st then check_stop clk (ba_stop p) st else (False, st))
       in if halt then (Some (Inr True), st)
          else and_then (poll_phase L clk p st) (\<lambda>_ st. (Some (Inr False), st))))"

partial_function (option) bw_loop ::
  "'w liburma \<Rightarrow> clock \<Rightarrow> bw_args \<Rightarrow> 'w bw_state \<Rightarrow> (unit, 'w bw_state) step option" where
  "bw_loop L clk p st =
     (case pass_step L clk p st of
        (None, st) \<Rightarrow> Some (None, st)
      | (Some (Inl e), st) \<Rightarrow> Some (Some (Inl e), st)
      | (Some (Inr fin), st) \<Rightarrow> if fin then Some (Some (Inr ()), st) else bw_loop L clk p st)"

definition pass_start :: "clock \<Rightarrow> bw_args \<Rightarrow> nat \<Rightarrow> 'w heap \<Rightarrow> 'w bw_state" where
  "pass_start clk p tick h =
     (let n = length (bx_jetties (ba_bw p))
      in \<lparr>bs_next = 0, bs_posted = replicate n 0, bs_done = replicate n 0, bs_done_total = 0,
          bs_fenced = replicate n False, bs_t0 = None, bs_deadline = clk tick + READ_TIMEOUT,
          bs_crs = replicate BW_POLL_BATCH \<lparr>c_status = 0, c_user_ctx = 0, c_completion_len = 0\<rparr>,
          bs_tick = Suc tick, bs_heap = h\<rparr>)"

text \<open>The window of a timed pass: from its first post to the end, and the completed operations.\<close>

definition pass_result ::
  "clock \<Rightarrow> 'w bw_state \<Rightarrow> ((nat \<times> u64) option, 'w bw_state) step" where
  "pass_result clk st =
     (case bs_t0 st of
        None \<Rightarrow> (Some (Inr None), st)
      | Some t0 \<Rightarrow> (let (t, st) = read_clock clk st in (Some (Inr (Some (t - t0, bs_done_total st))), st)))"

definition bw_pass ::
  "'w liburma \<Rightarrow> clock \<Rightarrow> bw_args \<Rightarrow> nat \<Rightarrow> 'w heap \<Rightarrow> ((nat \<times> u64) option, 'w bw_state) step option" where
  "bw_pass L clk p tick h =
     map_option (\<lambda>r. and_then r (\<lambda>_ st. pass_result clk st)) (bw_loop L clk p (pass_start clk p tick h))"

text \<open>
  \<open>run_bw_iters\<close>: the warm-up pass runs only for a positive operation count; the report is the
  operation count and the window, from which \<open>bw_stats\<close> computes its floating point figures.
\<close>

definition run_bw_iters ::
  "'w liburma \<Rightarrow> clock \<Rightarrow> BwCtx \<Rightarrow> usize \<Rightarrow> u32 \<Rightarrow> u64 \<Rightarrow> u32 \<Rightarrow> u32 \<Rightarrow> u64 option \<Rightarrow> nat \<Rightarrow> 'w heap
     \<Rightarrow> (nat \<times> u64, nat \<times> 'w heap) step option" where
  "run_bw_iters L clk bw sz depth cq_mod warmup iters duration tick h =
     (let (warm_stop, main_stop, tick) =
            (case duration of
               Some secs \<Rightarrow> (Until (clk tick + BW_WARMUP), Until (clk (Suc tick) + unat secs * 1000000000),
                              Suc (Suc tick))
             | None \<Rightarrow> (Ops (ucast warmup), Ops (ucast iters), tick));
          args = (\<lambda>stop timed. \<lparr>ba_bw = bw, ba_size = sz, ba_depth = depth, ba_cq_mod = cq_mod,
                    ba_stop = stop, ba_timed = timed\<rparr>);
          warm = (case warm_stop of
                    Ops n \<Rightarrow> (if n > 0
                      then map_option (\<lambda>(r, st). and_then (r, (bs_tick st, bs_heap st)) (\<lambda>_ s. (Some (Inr ()), s)))
                             (bw_pass L clk (args warm_stop False) tick h)
                      else Some (Some (Inr ()), (tick, h)))
                  | Until _ \<Rightarrow> Some (Some (Inr ()), (tick, h)))
      in Option.bind warm (\<lambda>w. case w of
             (Some (Inr _), (tick, h)) \<Rightarrow>
               map_option (\<lambda>(r, st). and_then (r, (bs_tick st, bs_heap st)) (\<lambda>rep s.
                   case rep of None \<Rightarrow> (None, s) | Some x \<Rightarrow> (Some (Inr x), s)))
                 (bw_pass L clk (args main_stop True) tick h)
           | (Some (Inl e), s) \<Rightarrow> Some (Some (Inl e), s)
           | (None, s) \<Rightarrow> Some (None, s)))"

section \<open>Invariants of a pass\<close>

text \<open>What a step guarantees of its value and state; \<open>panics\<close> is whether it may panic.\<close>

definition holds :: "bool \<Rightarrow> ('a \<Rightarrow> 's \<Rightarrow> bool) \<Rightarrow> ('a, 's) step \<Rightarrow> bool" where
  "holds panics post r =
     (case r of (None, _) \<Rightarrow> panics | (Some (Inl _), _) \<Rightarrow> True | (Some (Inr x), s) \<Rightarrow> post x s)"

lemma holds_simps [simp]:
  "holds panics post (None, s) = panics"
  "holds panics post (Some (Inl e), s) = True"
  "holds panics post (Some (Inr x), s) = post x s"
  by (simp_all add: holds_def)

lemma holds_and_then:
  assumes "holds panics mid r" and "\<And>x s. mid x s \<Longrightarrow> holds panics post (k x s)"
  shows "holds panics post (and_then r k)"
proof -
  obtain q s where r: "r = (q, s)" by force
  show ?thesis
  proof (cases q)
    case None
    then show ?thesis using assms(1) by (simp add: r and_then_def)
  next
    case (Some v)
    then show ?thesis using assms by (cases v) (simp_all add: r and_then_def)
  qed
qed

fun may_post :: "BwStop \<Rightarrow> u64 \<Rightarrow> bool" where
  "may_post (Ops n) next = (next < n)"
| "may_post (Until _) next = True"

fun stopped :: "BwStop \<Rightarrow> u64 \<Rightarrow> bool" where
  "stopped (Ops n) next = (n \<le> next)"
| "stopped (Until _) next = (0 < next)"

lemma check_stop_cases:
  obtains tick where "check_stop clk stop st = (True, st\<lparr>bs_tick := tick\<rparr>)" "bs_tick st \<le> tick"
      "stopped stop (bs_next st)"
  | tick where "check_stop clk stop st = (False, st\<lparr>bs_tick := tick\<rparr>)" "bs_tick st \<le> tick"
      "may_post stop (bs_next st)"
proof -
  define sp where "sp = stop_posting clk stop (bs_next st) (bs_tick st)"
  have "check_stop clk stop st = (fst sp, st\<lparr>bs_tick := snd sp\<rparr>)"
    by (simp add: check_stop_def sp_def split_beta)
  moreover have "bs_tick st \<le> snd sp" by (cases stop) (auto simp: sp_def)
  moreover have "if fst sp then stopped stop (bs_next st) else may_post stop (bs_next st)"
    by (cases stop) (auto simp: sp_def)
  ultimately show thesis using that by (cases "fst sp") auto
qed

text \<open>
  What an invariant owes the two posting phases: \<open>I\<close> holds between their steps and \<open>J\<close> in the
  middle of a chunk for jetty \<open>j\<close> with \<open>k\<close> requests to go; reading the clock keeps them.
\<close>

locale posting_laws =
  fixes L :: "'w liburma" and clk :: clock and p :: bw_args and panics :: bool
    and I :: "'w bw_state \<Rightarrow> bool"
    and J :: "nat \<Rightarrow> nat \<Rightarrow> requests \<Rightarrow> 'w bw_state \<Rightarrow> bool"
  assumes later: "I st \<Longrightarrow> bs_tick st \<le> t \<Longrightarrow> I (st\<lparr>bs_tick := t\<rparr>)"
  and later_filling: "J j k reqs st \<Longrightarrow> bs_tick st \<le> t \<Longrightarrow> J j k reqs (st\<lparr>bs_tick := t\<rparr>)"
  and chunk: "I st \<Longrightarrow> may_post (ba_stop p) (bs_next st) \<Longrightarrow> in_window (ba_depth p) st \<Longrightarrow>
    (case (bw_op_jetty (bs_next st) (bw_n (ba_bw p)) (bw_list (ba_bw p)),
           checked_mod (bs_next st) (bw_list (ba_bw p))) of
       (Some j, Some r) \<Rightarrow> J (unat j) (unat (bw_list (ba_bw p) - r)) ([], []) st
     | _ \<Rightarrow> panics)"
  and push: "J j (Suc k) reqs st \<Longrightarrow> may_post (ba_stop p) (bs_next st) \<Longrightarrow> in_window (ba_depth p) st \<Longrightarrow>
    (case push_req p (bs_next st) reqs of
       None \<Rightarrow> panics | Some (Inl _) \<Rightarrow> True | Some (Inr reqs) \<Rightarrow> J j k reqs (count_post clk p j st))"
  and post: "J j k reqs st \<Longrightarrow> holds panics (\<lambda>_. I) (post_chunk L (ba_bw p) j reqs st)"
  and fence: "I st \<Longrightarrow> stopped (ba_stop p) (bs_next st) \<Longrightarrow> j < length (bx_jetties (ba_bw p)) \<Longrightarrow>
    holds panics (\<lambda>_ s. I s \<and> bs_next s = bs_next st) (post_fence L p j st)"
begin

lemma fill_chunk_holds:
  "J j k reqs st \<Longrightarrow> holds panics (\<lambda>reqs s. \<exists>k. J j k reqs s) (fill_chunk clk p j k reqs st)"
proof (induction k arbitrary: reqs st)
  case (Suc k)
  show ?case
  proof (cases rule: check_stop_cases [of clk "ba_stop p" st])
    case (1 tick)
    then show ?thesis using later_filling [OF Suc.prems] by auto
  next
    case (2 tick)
    let ?st = "st\<lparr>bs_tick := tick\<rparr>"
    have J: "J j (Suc k) reqs ?st" using later_filling [OF Suc.prems] 2 by simp
    show ?thesis
    proof (cases "in_window (ba_depth p) ?st")
      case True
      then show ?thesis
        using push [OF J _ True] 2 Suc.IH by (auto split: option.splits sum.splits)
    next
      case False
      then show ?thesis using 2 J by auto
    qed
  qed
qed auto

lemma post_step_holds: "I st \<Longrightarrow> holds panics (\<lambda>_. I) (post_step L clk p st)"
proof -
  assume I: "I st"
  show ?thesis
  proof (cases rule: check_stop_cases [of clk "ba_stop p" st])
    case (1 tick)
    then show ?thesis using later [OF I] by (auto simp: post_step_def)
  next
    case (2 tick)
    let ?st = "st\<lparr>bs_tick := tick\<rparr>"
    have I': "I ?st" using later [OF I] 2 by simp
    have body: "holds panics (\<lambda>_. I) (and_then (fill_chunk clk p j k ([], []) ?st) (\<lambda>reqs st.
        and_then (post_chunk L (ba_bw p) j reqs st) (\<lambda>_ st. (Some (Inr True), st))))"
      if "J j k ([], []) ?st" for j k
      by (rule holds_and_then [OF fill_chunk_holds [OF that]], elim exE,
          rule holds_and_then [OF post]) auto
    show ?thesis
    proof (cases "in_window (ba_depth p) ?st")
      case True
      then show ?thesis
        using chunk [OF I' _ True] 2 body by (auto simp: post_step_def Let_def split: option.splits)
    next
      case False
      then show ?thesis using 2 I' by (auto simp: post_step_def)
    qed
  qed
qed

lemma post_phase_holds: "I st \<Longrightarrow> holds panics (\<lambda>_. I) (post_phase L clk p st)"
proof (induction "free_slots p st" arbitrary: st rule: less_induct)
  case less
  obtain r s where r: "post_step L clk p st = (r, s)" by force
  have h: "holds panics (\<lambda>_. I) (r, s)" using post_step_holds [OF less.prems] r by simp
  show ?case
  proof (cases "r = Some (Inr True)")
    case True
    then show ?thesis
      using less.hyps [OF post_step_progress] r h by (simp add: post_phase.simps [of L clk p st])
  next
    case False
    then show ?thesis
      using h by (auto simp: post_phase.simps [of L clk p st] r holds_def split: option.splits sum.splits)
  qed
qed

lemma post_fences_holds:
  "I st \<Longrightarrow> stopped (ba_stop p) (bs_next st) \<Longrightarrow> list_all (\<lambda>j. j < length (bx_jetties (ba_bw p))) js
    \<Longrightarrow> holds panics (\<lambda>_. I) (post_fences L p js st)"
proof (induction js arbitrary: st)
  case (Cons j js)
  then show ?case
    by (auto intro!: holds_and_then [OF fence [of st j]])
qed auto

lemma fence_phase_holds: "I st \<Longrightarrow> holds panics (\<lambda>_. I) (fence_phase L clk p st)"
  by (cases rule: check_stop_cases [of clk "ba_stop p" st])
    (auto simp: fence_phase_def list_all_iff intro!: post_fences_holds later)

end

text \<open>What it owes the reaping phase: \<open>K\<close> is what a delivered record is known to say.\<close>

locale pass_laws = posting_laws L clk p panics I J
  for L :: "'w liburma" and clk :: clock and p :: bw_args and panics :: bool
    and I :: "'w bw_state \<Rightarrow> bool" and J :: "nat \<Rightarrow> nat \<Rightarrow> requests \<Rightarrow> 'w bw_state \<Rightarrow> bool" +
  fixes K :: "Completion \<Rightarrow> 'w bw_state \<Rightarrow> bool"
  assumes reset: "I st \<Longrightarrow> bs_tick st \<le> t \<Longrightarrow> I (st\<lparr>bs_tick := t, bs_deadline := d\<rparr>)"
  and record_clock: "K cr (st\<lparr>bs_tick := t, bs_deadline := d\<rparr>) = K cr st"
  and polled: "I st \<Longrightarrow> holds panics (\<lambda>crs s. I s \<and> (\<forall>cr \<in> set crs. K cr s)) (poll_records L p st)"
  and reaped: "I st \<Longrightarrow> K cr st \<Longrightarrow> is_success cr \<Longrightarrow>
    (case record_target p st (c_user_ctx cr) of
       None \<Rightarrow> panics
     | Some (j, target) \<Rightarrow> I (credit j target st) \<and> (\<forall>cr'. K cr' st \<longrightarrow> K cr' (credit j target st)))"
begin

lemma reap_all_holds:
  "I st \<Longrightarrow> \<forall>cr \<in> set crs. K cr st \<Longrightarrow> holds panics (\<lambda>_. I) (reap_all clk p crs st)"
proof (induction crs arbitrary: st)
  case (Cons cr crs)
  have "holds panics (\<lambda>_ s. I s \<and> (\<forall>cr \<in> set crs. K cr s)) (reap_one clk p cr st)"
    using reaped [of st cr] Cons.prems
    by (auto simp: reap_one_def read_clock_def record_clock intro: reset split: option.splits)
  then show ?case using Cons.IH by (auto intro: holds_and_then)
qed auto

lemma poll_phase_holds: "I st \<Longrightarrow> holds panics (\<lambda>_. I) (poll_phase L clk p st)"
  unfolding poll_phase_def
  by (rule holds_and_then [OF polled])
    (auto simp: read_clock_def intro: reap_all_holds later)

lemma pass_step_holds:
  "I st \<Longrightarrow> holds panics (\<lambda>fin s. I s \<and> (fin \<longrightarrow> bs_done_total s = bs_next s \<and> stopped (ba_stop p) (bs_next s)))
    (pass_step L clk p st)"
  unfolding pass_step_def
proof (rule holds_and_then [OF post_phase_holds], assumption, rule holds_and_then [OF fence_phase_holds], assumption)
  fix s assume I: "I s"
  have poll: "holds panics (\<lambda>fin s. I s \<and> (fin \<longrightarrow> bs_done_total s = bs_next s \<and> stopped (ba_stop p) (bs_next s)))
      (and_then (poll_phase L clk p (s\<lparr>bs_tick := t\<rparr>)) (\<lambda>_ st. (Some (Inr False), st)))" if "bs_tick s \<le> t" for t
    using later [OF I that] by (auto intro!: holds_and_then [OF poll_phase_holds])
  show "holds panics (\<lambda>fin s. I s \<and> (fin \<longrightarrow> bs_done_total s = bs_next s \<and> stopped (ba_stop p) (bs_next s)))
      (let (halt, st) = (if bs_done_total s = bs_next s then check_stop clk (ba_stop p) s else (False, s))
       in if halt then (Some (Inr True), st)
          else and_then (poll_phase L clk p st) (\<lambda>_ st. (Some (Inr False), st)))"
    using poll [of "bs_tick s"] poll later [OF I]
    by (cases rule: check_stop_cases [of clk "ba_stop p" s]) auto
qed

lemma bw_loop_holds:
  assumes "bw_loop L clk p st = Some r" and "I st"
  shows "holds panics (\<lambda>_ s. I s \<and> bs_done_total s = bs_next s \<and> stopped (ba_stop p) (bs_next s)) r"
proof -
  let ?P = "\<lambda>L' clk' p' st r. L' = L \<longrightarrow> clk' = clk \<longrightarrow> p' = p \<longrightarrow> I st \<longrightarrow>
      holds panics (\<lambda>_ s. I s \<and> bs_done_total s = bs_next s \<and> stopped (ba_stop p) (bs_next s)) r"
  have "?P L clk p st r"
  proof (rule bw_loop.raw_induct [of ?P, OF _ assms(1)], intro impI)
    fix loop L' clk' p' st r
    assume IH: "\<And>L' clk' p' st r. loop L' clk' p' st = Some r \<Longrightarrow> ?P L' clk' p' st r"
      and body: "(case pass_step L' clk' p' st of (None, st) \<Rightarrow> Some (None, st)
        | (Some (Inl e), st) \<Rightarrow> Some (Some (Inl e), st)
        | (Some (Inr fin), st) \<Rightarrow> if fin then Some (Some (Inr ()), st) else loop L' clk' p' st) = Some r"
      and eq: "L' = L" "clk' = clk" "p' = p" and I: "I st"
    obtain q s where q: "pass_step L clk p st = (q, s)" by force
    have h: "holds panics (\<lambda>fin s. I s \<and> (fin \<longrightarrow> bs_done_total s = bs_next s \<and> stopped (ba_stop p) (bs_next s))) (q, s)"
      using pass_step_holds [OF I] q by simp
    show "holds panics (\<lambda>_ s. I s \<and> bs_done_total s = bs_next s \<and> stopped (ba_stop p) (bs_next s)) r"
    proof (cases "q = Some (Inr False)")
      case True
      then show ?thesis using IH [of L clk p s r] body h by (simp add: eq q)
    next
      case False
      then show ?thesis using body h by (auto simp: eq q split: option.splits sum.splits if_splits)
    qed
  qed
  then show ?thesis using assms(2) by simp
qed

end

section \<open>First invariant: counts and the window\<close>

text \<open>No more operations are posted than asked for, and a timed pass, and only a timed one, has its
start time from its first operation on.\<close>

definition counts :: "bw_args \<Rightarrow> 'w bw_state \<Rightarrow> bool" where
  "counts p st \<longleftrightarrow>
     (case ba_stop p of
        Ops n \<Rightarrow> bs_next st \<le> n \<and> (bs_t0 st \<noteq> None \<longrightarrow> bs_next st \<noteq> 0)
      | Until _ \<Rightarrow> True)
     \<and> (bs_t0 st \<noteq> None \<longrightarrow> ba_timed p)
     \<and> (ba_timed p \<and> bs_next st \<noteq> 0 \<longrightarrow> bs_t0 st \<noteq> None)"

lemma counts_cong:
  "bs_next s = bs_next st \<Longrightarrow> bs_t0 s = bs_t0 st \<Longrightarrow> counts p s = counts p st"
  by (simp add: counts_def split: BwStop.split)

lemma counts_frame [simp]:
  "counts p (st\<lparr>bs_tick := t\<rparr>) = counts p st"
  "counts p (st\<lparr>bs_deadline := d\<rparr>) = counts p st"
  "counts p (st\<lparr>bs_heap := h\<rparr>) = counts p st"
  "counts p (st\<lparr>bs_heap := h, bs_fenced := f\<rparr>) = counts p st"
  "counts p (st\<lparr>bs_crs := c\<rparr>) = counts p st"
  "counts p (st\<lparr>bs_crs := c, bs_heap := h\<rparr>) = counts p st"
  "counts p (credit j target st) = counts p st"
  by (rule counts_cong; simp add: credit_def)+

lemma t0_count_post:
  "bs_t0 (count_post clk p j st) = (if ba_timed p \<and> bs_next st = 0 then Some (clk (bs_tick st)) else bs_t0 st)"
  by (simp add: count_post_def read_clock_def)

lemma word_less_Suc: "x < y \<Longrightarrow> x + 1 \<le> y \<and> x + 1 \<noteq> 0" for x y :: u64
  using unat_plus_no_overflow [of x 1] unat_bound [of y]
  by (auto simp: word_less_nat_alt word_le_nat_alt simp flip: unat_gt_0)

lemma counts_count_post:
  assumes "counts p st" and "may_post (ba_stop p) (bs_next st)"
  shows "counts p (count_post clk p j st)"
proof (cases "ba_stop p")
  case (Ops n)
  then have lt: "bs_next st < n" using assms(2) by simp
  define y where "y = bs_next (count_post clk p j st)"
  have y: "y \<le> n" "y \<noteq> 0"
    using word_less_Suc [OF lt] unfolding y_def count_post_simps by (rule conjunct1, rule conjunct2)
  show ?thesis
    using assms(1) y unfolding counts_def t0_count_post Ops BwStop.case y_def [symmetric]
    by (cases "ba_timed p"; cases "bs_next st = 0"; simp only: simp_thms if_True if_False option.distinct)
next
  case (Until t)
  then show ?thesis using assms(1) by (auto simp: counts_def t0_count_post)
qed

interpretation counted: pass_laws L clk p True "counts p" "\<lambda>_ _ _. counts p" "\<lambda>_ _. True"
  for L :: "'w liburma" and clk p
proof
  show "case push_req p (bs_next st) reqs of
       None \<Rightarrow> True | Some (Inl _) \<Rightarrow> True | Some (Inr reqs) \<Rightarrow> counts p (count_post clk p j st)"
    if "counts p st" "may_post (ba_stop p) (bs_next st)" for j reqs and st :: "'w bw_state"
    using counts_count_post [OF that] by (simp split: option.split sum.split)
  show "holds True (\<lambda>_. counts p) (post_chunk L (ba_bw p) j reqs st)" if "counts p st" for j reqs and st :: "'w bw_state"
    using that by (simp add: post_chunk_def holds_def Let_def split_beta split: sum.split)
  show "holds True (\<lambda>_ s. counts p s \<and> bs_next s = bs_next st) (post_fence L p j st)" if "counts p st" for j and st :: "'w bw_state"
    using that by (simp add: post_fence_def holds_def Let_def split: sum.split prod.split)
  show "holds True (\<lambda>crs s. counts p s \<and> (\<forall>cr \<in> set crs. True)) (poll_records L p st)" if "counts p st" for st :: "'w bw_state"
    using that by (simp add: poll_records_def holds_def Let_def split_beta split: sum.split)
qed (simp_all split: option.split)

lemma counts_start: "counts p (pass_start clk p tick h)"
  by (simp add: counts_def pass_start_def Let_def split: BwStop.splits)

lemma pass_reports:
  "case bw_pass L clk p tick h of
     Some (Some (Inr res), st) \<Rightarrow>
       (if ba_timed p
        then case ba_stop p of
            Ops n \<Rightarrow> (if n = 0 then res = None else \<exists>w. res = Some (w, n))
          | Until _ \<Rightarrow> \<exists>w ops. res = Some (w, ops) \<and> ops \<noteq> 0
        else res = None)
   | _ \<Rightarrow> True"
proof (cases "\<exists>res st. bw_pass L clk p tick h = Some (Some (Inr res), st)")
  case True
  then obtain res st where res: "bw_pass L clk p tick h = Some (Some (Inr res), st)" by blast
  then obtain s where loop: "bw_loop L clk p (pass_start clk p tick h) = Some (Some (Inr ()), s)"
    and st: "pass_result clk s = (Some (Inr res), st)"
    by (auto simp: bw_pass_def and_then_Inr_iff)
  have c: "counts p s" and total: "bs_done_total s = bs_next s" and stop: "stopped (ba_stop p) (bs_next s)"
    using counted.bw_loop_holds [OF loop counts_start] by simp_all
  have ops: "(case ba_stop p of Ops n \<Rightarrow> bs_next s = n \<and> (bs_t0 s \<noteq> None \<longrightarrow> n \<noteq> 0) | Until _ \<Rightarrow> bs_next s \<noteq> 0)
      \<and> (bs_t0 s \<noteq> None \<longrightarrow> ba_timed p) \<and> (ba_timed p \<and> bs_next s \<noteq> 0 \<longrightarrow> bs_t0 s \<noteq> None)"
  proof (cases "ba_stop p")
    case (Ops n)
    have le: "bs_next s \<le> n" and t0: "bs_t0 s \<noteq> None \<longrightarrow> bs_next s \<noteq> 0"
      "(bs_t0 s \<noteq> None \<longrightarrow> ba_timed p) \<and> (ba_timed p \<and> bs_next s \<noteq> 0 \<longrightarrow> bs_t0 s \<noteq> None)"
      using c unfolding counts_def Ops BwStop.case by blast+
    have "bs_next s = n" using stop unfolding Ops stopped.simps by (rule order_antisym [OF le])
    then show ?thesis using t0 unfolding Ops BwStop.case by blast
  next
    case (Until t)
    then show ?thesis using c stop unfolding counts_def Until BwStop.case stopped.simps by (metis less_irrefl)
  qed
  show ?thesis
  proof (cases "bs_t0 s")
    case None
    then have "res = None" "st = s" using st by (simp_all add: pass_result_def)
    then show ?thesis using ops None unfolding res by (cases "ba_stop p") auto
  next
    case (Some t0)
    then have "\<exists>w. res = Some (w, bs_next s)"
      using st by (auto simp: pass_result_def read_clock_def total)
    then show ?thesis using ops Some unfolding res by (cases "ba_stop p") auto
  qed
next
  case False
  then show ?thesis by (auto split: option.split sum.split)
qed

section \<open>Properties\<close>

text \<open>
  C32 (what a timed pass reports). Whenever a timed pass returns a result, it reports exactly the
  operation count it was asked for, and nothing for a count of zero; in duration mode it reports at
  least one operation. So the report run_bw_iters unwraps is there for every positive count and
  every duration. An untimed pass reports nothing.
\<close>

theorem bw_pass_counts:
  "case bw_pass L clk p tick h of
     Some (Some (Inr res), st) \<Rightarrow>
       (if ba_timed p
        then case ba_stop p of
            Ops n \<Rightarrow> (if n = 0 then res = None else \<exists>w. res = Some (w, n))
          | Until _ \<Rightarrow> \<exists>w ops. res = Some (w, ops) \<and> ops \<noteq> 0
        else res = None)
   | _ \<Rightarrow> True"
  by (rule pass_reports)

end
