(* ===== verification/Reaping.thy ===== *)
theory Reaping
  imports Pipeline
begin

text \<open>
  What a closed window of the bandwidth pass proves, for a library that keeps its promises: the
  queue of each jetty holds what was posted to it, in order, and a record for an entry says that
  the entry and everything before it on that jetty is complete (the requests carry comp_order).
  The invariant relates the counters of the pass to the library's queues.
\<close>

section \<open>The operations of a jetty\<close>

definition ops_on :: "nat \<Rightarrow> nat \<Rightarrow> nat \<Rightarrow> nat \<Rightarrow> nat list" where
  "ops_on n list j N = filter (\<lambda>i. jetty_of n list i = j) [0..<N]"

lemma ops_on_0 [simp]: "ops_on n list j 0 = []"
  by (simp add: ops_on_def)

lemma ops_on_Suc: "ops_on n list j (Suc N) = ops_on n list j N @ (if jetty_of n list N = j then [N] else [])"
  by (simp add: ops_on_def)

lemma set_ops_on [simp]: "set (ops_on n list j N) = {i. i < N \<and> jetty_of n list i = j}"
  by (auto simp: ops_on_def)

lemma distinct_ops_on [simp]: "distinct (ops_on n list j N)"
  by (simp add: ops_on_def)

lemma length_ops_on_le: "length (ops_on n list j N) \<le> N"
  using length_filter_le [of "\<lambda>i. jetty_of n list i = j" "[0..<N]"] by (simp add: ops_on_def)

lemma upt_split: "B \<le> N \<Longrightarrow> [0..<N] = [0..<B] @ [B..<N]"
  by (metis le_add_diff_inverse upt_add_eq_append zero_le)

lemma ops_on_extend:
  assumes "B \<le> N" and "\<And>i. B \<le> i \<Longrightarrow> i < N \<Longrightarrow> jetty_of n list i = k"
  shows "ops_on n list j N = ops_on n list j B @ (if j = k then [B..<N] else [])"
proof -
  note upt_split [OF assms(1)]
  moreover have "filter (\<lambda>i. jetty_of n list i = j) [B..<N] = (if j = k then [B..<N] else [])"
    using assms(2) by (auto simp: filter_id_conv filter_empty_conv)
  ultimately show ?thesis by (simp add: ops_on_def)
qed

lemma length_ops_on:
  assumes "0 < n" and "0 < list"
  shows "length (ops_on n list (jetty_of n list i) i) = rank_of n list i"
proof -
  have "length (ops_on n list (jetty_of n list i) i) = card (set (ops_on n list (jetty_of n list i) i))"
    by (rule distinct_card [OF distinct_ops_on, symmetric])
  then show ?thesis using rank_counts [OF assms, of i] by simp
qed

text \<open>The rank of an operation is its place among the operations of its jetty.\<close>

lemma ops_on_nth:
  assumes "0 < n" and "0 < list" and "p < length (ops_on n list j N)"
  shows "jetty_of n list (ops_on n list j N ! p) = j \<and> rank_of n list (ops_on n list j N ! p) = p
    \<and> ops_on n list j N ! p < N"
proof -
  let ?i = "ops_on n list j N ! p"
  have i: "?i < N" "jetty_of n list ?i = j" using nth_mem [OF assms(3)] by auto
  have split: "ops_on n list j N = ops_on n list j ?i @ ?i # filter (\<lambda>i. jetty_of n list i = j) [Suc ?i..<N]"
  proof -
    have "[0..<N] = [0..<?i] @ ?i # [Suc ?i..<N]"
      using i(1) upt_split [of ?i N] by (simp add: upt_conv_Cons)
    then have "ops_on n list j N = filter (\<lambda>i. jetty_of n list i = j) ([0..<?i] @ ?i # [Suc ?i..<N])"
      by (simp only: ops_on_def)
    then show ?thesis using i(2) by (simp add: ops_on_def)
  qed
  have "ops_on n list j N ! length (ops_on n list j ?i) = ?i"
    by (subst split) (simp only: nth_append_length)
  moreover have "length (ops_on n list j ?i) < length (ops_on n list j N)" by (subst (2) split) simp
  ultimately have "length (ops_on n list j ?i) = p"
    using nth_eq_iff_index_eq [OF distinct_ops_on] assms(3) by metis
  then show ?thesis using i length_ops_on [OF assms(1,2), of ?i] by simp
qed

lemma sum_ops_on:
  assumes "0 < n"
  shows "(\<Sum>j<n. length (ops_on n list j N)) = N"
proof (induction N)
  case (Suc N)
  have "jetty_of n list N < n" using assms by (simp add: jetty_of_def)
  then have "(\<Sum>j<n. if jetty_of n list N = j then 1 else 0 :: nat) = 1" by (simp add: sum.delta)
  moreover have "length (ops_on n list j (Suc N)) = length (ops_on n list j N) + (if jetty_of n list N = j then 1 else 0)" for j
    by (simp add: ops_on_Suc)
  ultimately show ?case using Suc by (simp add: sum.distrib)
qed simp

text \<open>The operations left in a list's window run on the same jetty.\<close>

lemma jetty_of_window:
  assumes "0 < list" and "N \<le> i" and "i < N + (list - N mod list)"
  shows "jetty_of n list i = jetty_of n list N"
proof -
  have "N = N div list * list + N mod list" by simp
  then have "N div list * list \<le> i" "i < N div list * list + list"
    using assms mod_less_divisor [OF assms(1), of N] by linarith+
  then have "i div list = N div list"
    using assms(1) by (metis add.commute div_nat_eqI mult.commute mult_Suc_right)
  then show ?thesis by (simp add: jetty_of_def)
qed

section \<open>The library's promise\<close>

text \<open>
  \<open>Q l jp\<close> are the user contexts posted to the jetty handle \<open>jp\<close>, in order, and \<open>D l jp\<close> how many
  of them are complete. A successful post appends the chain it was given; a poll that reports \<open>n\<close>
  wrote \<open>n\<close> records, no more than asked for, and every record is for a completed entry.
\<close>

definition orderly :: "'w liburma \<Rightarrow> ('w \<Rightarrow> ptr \<Rightarrow> u64 list) \<Rightarrow> ('w \<Rightarrow> ptr \<Rightarrow> nat) \<Rightarrow> bool" where
  "orderly L Q D \<longleftrightarrow>
     (\<forall>jp wr sges wrs l n ws. walk n sges wrs wr = Some ws \<longrightarrow> fst (l_post_send_wr L jp wr sges wrs l) = 0 \<longrightarrow>
        Q (snd (l_post_send_wr L jp wr sges wrs l)) = (Q l)(jp := Q l jp @ map q_user_ctx ws)
        \<and> (\<forall>jp'. D l jp' \<le> D (snd (l_post_send_wr L jp wr sges wrs l)) jp'))
     \<and> (\<forall>jfc want l n crs l'. l_poll_jfc L jfc want l = (n, crs, l') \<longrightarrow> 0 \<le> sint n \<longrightarrow>
        Q l' = Q l \<and> (\<forall>jp. D l jp \<le> D l' jp) \<and> sint n = int (length crs) \<and> sint n \<le> sint want
        \<and> (\<forall>cr \<in> set crs. \<exists>jp p. p < length (Q l' jp) \<and> Q l' jp ! p = cr_user_ctx cr \<and> p < D l' jp))"

lemma orderly_post:
  assumes "orderly L Q D" and "hands_over L jp ws nm s out" and "fst out = Inr ()"
  shows "Q (lib_state (snd out)) = (Q (lib_state s))(jp := Q (lib_state s) jp @ map q_user_ctx ws)
    \<and> (\<forall>jp. D (lib_state s) jp \<le> D (lib_state (snd out)) jp)"
proof -
  obtain wr sges wrs where w: "walk (length ws) sges wrs wr = Some ws"
    "fst out = check_status (fst (l_post_send_wr L jp wr sges wrs (lib_state s))) nm"
    "lib_state (snd out) = snd (l_post_send_wr L jp wr sges wrs (lib_state s))"
    using assms(2) by (auto simp: hands_over_def)
  have "fst (l_post_send_wr L jp wr sges wrs (lib_state s)) = 0"
    using assms(3) w(2) by (simp add: check_status_def ffi_const split: if_splits)
  then show ?thesis using assms(1) w(1,3) unfolding orderly_def by metis
qed

section \<open>The invariant\<close>

text \<open>A sound call of \<open>bw_pass\<close> for \<open>n0\<close> operations, as \<open>one_sided_run\<close> makes it.\<close>

definition sound_call :: "bw_args \<Rightarrow> nat \<Rightarrow> bool" where
  "sound_call p n0 \<longleftrightarrow>
     (let bw = ba_bw p; n = length (bx_jetties bw)
      in 0 < n \<and> n \<le> 64 \<and> length (bx_peers bw) = n \<and> distinct (map j_raw (bx_jetties bw))
         \<and> bx_post_list bw \<noteq> 0 \<and> 0 < unat (ba_size p)
         \<and> unat (ba_size p) \<le> unat (landing_len (bx_landing bw)) \<and> unat (ba_size p) \<le> unat (bx_seg_len bw)
         \<and> ba_stop p = Ops (of_nat n0) \<and> n0 < 2 ^ 32)"

definition track ::
  "('w \<Rightarrow> ptr \<Rightarrow> u64 list) \<Rightarrow> ('w \<Rightarrow> ptr \<Rightarrow> nat) \<Rightarrow> bw_args \<Rightarrow> nat \<Rightarrow> nat \<Rightarrow> 'w bw_state \<Rightarrow> bool" where
  "track Q D p n0 B st \<longleftrightarrow>
     (let bw = ba_bw p; n = length (bx_jetties bw); l = unat (bx_post_list bw); N = unat (bs_next st);
          lib = lib_state (bs_heap st); raw = (\<lambda>j. j_raw (bx_jetties bw ! j))
      in length (bs_posted st) = n \<and> length (bs_done st) = n \<and> length (bs_fenced st) = n
         \<and> length (bs_crs st) = BW_POLL_BATCH \<and> N \<le> n0
         \<and> unat (bs_done_total st) = (\<Sum>j<n. unat (bs_done st ! j))
         \<and> N \<le> unat (bs_done_total st) + unat (ba_depth p)
         \<and> (\<forall>j<n. unat (bs_posted st ! j) = length (ops_on n l j N)
              \<and> unat (bs_done st ! j) \<le> length (ops_on n l j B) \<and> unat (bs_done st ! j) \<le> D lib (raw j)
              \<and> (bs_fenced st ! j \<longrightarrow> N = n0)
              \<and> Q lib (raw j) = map of_nat (ops_on n l j B)
                   @ (if bs_fenced st ! j then [BW_FENCE_CTX_BASE - of_nat j] else []))
         \<and> (\<forall>jp. jp \<notin> set (map j_raw (bx_jetties bw)) \<longrightarrow> Q lib jp = []))"

definition settled where
  "settled Q D p n0 st = track Q D p n0 (unat (bs_next st)) st"

text \<open>In the middle of a chunk: the operations from \<open>B\<close> on are requests of the chunk.\<close>

definition chunk_ctxs :: "BwCtx \<Rightarrow> requests \<Rightarrow> u64 list" where
  "chunk_ctxs bw reqs =
     (case bx_op bw of OpRead \<Rightarrow> map rd_user_ctx (fst reqs) | OpWrite \<Rightarrow> map wq_user_ctx (snd reqs))"

definition filling where
  "filling Q D p n0 j k reqs st \<longleftrightarrow>
     (\<exists>B \<le> unat (bs_next st). track Q D p n0 B st \<and> \<not> list_ex id (bs_fenced st)
        \<and> j < length (bx_jetties (ba_bw p))
        \<and> chunk_ctxs (ba_bw p) reqs = map of_nat [B..<unat (bs_next st)]
        \<and> (\<forall>i. B \<le> i \<and> i < unat (bs_next st) + k \<longrightarrow>
              jetty_of (length (bx_jetties (ba_bw p))) (unat (bx_post_list (ba_bw p))) i = j))"

definition proven where
  "proven Q D cr st \<longleftrightarrow>
     (\<exists>jp i. i < length (Q (lib_state (bs_heap st)) jp) \<and> Q (lib_state (bs_heap st)) jp ! i = c_user_ctx cr
        \<and> i < D (lib_state (bs_heap st)) jp)"

section \<open>The invariant is kept\<close>

lemma trackD:
  assumes "track Q D p n0 B st"
  shows "length (bs_posted st) = length (bx_jetties (ba_bw p))"
    and "length (bs_done st) = length (bx_jetties (ba_bw p))"
    and "length (bs_fenced st) = length (bx_jetties (ba_bw p))"
    and "length (bs_crs st) = BW_POLL_BATCH"
    and "unat (bs_next st) \<le> n0"
    and "unat (bs_done_total st) = (\<Sum>j<length (bx_jetties (ba_bw p)). unat (bs_done st ! j))"
    and "unat (bs_next st) \<le> unat (bs_done_total st) + unat (ba_depth p)"
    and "j < length (bx_jetties (ba_bw p)) \<Longrightarrow> unat (bs_posted st ! j)
      = length (ops_on (length (bx_jetties (ba_bw p))) (unat (bx_post_list (ba_bw p))) j (unat (bs_next st)))"
    and "j < length (bx_jetties (ba_bw p)) \<Longrightarrow> unat (bs_done st ! j)
      \<le> length (ops_on (length (bx_jetties (ba_bw p))) (unat (bx_post_list (ba_bw p))) j B)"
    and "j < length (bx_jetties (ba_bw p)) \<Longrightarrow> unat (bs_done st ! j)
      \<le> D (lib_state (bs_heap st)) (j_raw (bx_jetties (ba_bw p) ! j))"
    and "j < length (bx_jetties (ba_bw p)) \<Longrightarrow> bs_fenced st ! j \<Longrightarrow> unat (bs_next st) = n0"
    and "j < length (bx_jetties (ba_bw p)) \<Longrightarrow> Q (lib_state (bs_heap st)) (j_raw (bx_jetties (ba_bw p) ! j))
      = map of_nat (ops_on (length (bx_jetties (ba_bw p))) (unat (bx_post_list (ba_bw p))) j B)
        @ (if bs_fenced st ! j then [BW_FENCE_CTX_BASE - of_nat j] else [])"
    and "jp \<notin> set (map j_raw (bx_jetties (ba_bw p))) \<Longrightarrow> Q (lib_state (bs_heap st)) jp = []"
  using assms unfolding track_def Let_def by blast+

lemma trackI:
  assumes "length (bs_posted st) = length (bx_jetties (ba_bw p))"
    and "length (bs_done st) = length (bx_jetties (ba_bw p))"
    and "length (bs_fenced st) = length (bx_jetties (ba_bw p))"
    and "length (bs_crs st) = BW_POLL_BATCH"
    and "unat (bs_next st) \<le> n0"
    and "unat (bs_done_total st) = (\<Sum>j<length (bx_jetties (ba_bw p)). unat (bs_done st ! j))"
    and "unat (bs_next st) \<le> unat (bs_done_total st) + unat (ba_depth p)"
    and "\<And>j. j < length (bx_jetties (ba_bw p)) \<Longrightarrow> unat (bs_posted st ! j)
      = length (ops_on (length (bx_jetties (ba_bw p))) (unat (bx_post_list (ba_bw p))) j (unat (bs_next st)))"
    and "\<And>j. j < length (bx_jetties (ba_bw p)) \<Longrightarrow> unat (bs_done st ! j)
      \<le> length (ops_on (length (bx_jetties (ba_bw p))) (unat (bx_post_list (ba_bw p))) j B)"
    and "\<And>j. j < length (bx_jetties (ba_bw p)) \<Longrightarrow> unat (bs_done st ! j)
      \<le> D (lib_state (bs_heap st)) (j_raw (bx_jetties (ba_bw p) ! j))"
    and "\<And>j. j < length (bx_jetties (ba_bw p)) \<Longrightarrow> bs_fenced st ! j \<Longrightarrow> unat (bs_next st) = n0"
    and "\<And>j. j < length (bx_jetties (ba_bw p)) \<Longrightarrow> Q (lib_state (bs_heap st)) (j_raw (bx_jetties (ba_bw p) ! j))
      = map of_nat (ops_on (length (bx_jetties (ba_bw p))) (unat (bx_post_list (ba_bw p))) j B)
        @ (if bs_fenced st ! j then [BW_FENCE_CTX_BASE - of_nat j] else [])"
    and "\<And>jp. jp \<notin> set (map j_raw (bx_jetties (ba_bw p))) \<Longrightarrow> Q (lib_state (bs_heap st)) jp = []"
  shows "track Q D p n0 B st"
  unfolding track_def Let_def using assms by blast

text \<open>The parts of the state the invariant does not read.\<close>

lemma track_clock [simp]:
  "track Q D p n0 B (st\<lparr>bs_tick := t\<rparr>) = track Q D p n0 B st"
  "track Q D p n0 B (st\<lparr>bs_deadline := d\<rparr>) = track Q D p n0 B st"
  by (simp_all add: track_def)

lemma settled_clock [simp]:
  "settled Q D p n0 (st\<lparr>bs_tick := t\<rparr>) = settled Q D p n0 st"
  "settled Q D p n0 (st\<lparr>bs_deadline := d\<rparr>) = settled Q D p n0 st"
  by (simp_all add: settled_def)

lemma filling_clock [simp]: "filling Q D p n0 j k reqs (st\<lparr>bs_tick := t\<rparr>) = filling Q D p n0 j k reqs st"
  by (simp add: filling_def)

lemma proven_clock [simp]:
  "proven Q D cr (st\<lparr>bs_tick := t\<rparr>) = proven Q D cr st"
  "proven Q D cr (st\<lparr>bs_deadline := d\<rparr>) = proven Q D cr st"
  by (simp_all add: proven_def)

text \<open>The call's numbers as words.\<close>

lemma sound_call_shape:
  assumes "sound_call p n0"
  shows "0 < length (bx_jetties (ba_bw p))" and "length (bx_jetties (ba_bw p)) \<le> 64"
    and "length (bx_peers (ba_bw p)) = length (bx_jetties (ba_bw p))"
    and "distinct (map j_raw (bx_jetties (ba_bw p)))"
    and "0 < unat (bx_post_list (ba_bw p))"
    and "unat (bw_n (ba_bw p)) = length (bx_jetties (ba_bw p))"
    and "unat (bw_list (ba_bw p)) = unat (bx_post_list (ba_bw p))"
    and "shape_ok (bw_n (ba_bw p)) (bw_list (ba_bw p))"
    and "n0 < 2 ^ 32"
    and "may_post (ba_stop p) x \<longleftrightarrow> unat x < n0" and "stopped (ba_stop p) x \<longleftrightarrow> n0 \<le> unat x"
proof -
  let ?n = "length (bx_jetties (ba_bw p))"
  show n: "0 < ?n" "?n \<le> 64" and "length (bx_peers (ba_bw p)) = ?n"
    and "distinct (map j_raw (bx_jetties (ba_bw p)))" and l: "0 < unat (bx_post_list (ba_bw p))"
    and n0: "n0 < 2 ^ 32"
    using assms by (simp_all add: sound_call_def Let_def unat_gt_0)
  show un: "unat (bw_n (ba_bw p)) = ?n" using n by (simp add: bw_n_def unat_of_nat)
  show ul: "unat (bw_list (ba_bw p)) = unat (bx_post_list (ba_bw p))" by (simp add: bw_list_def unat_depth)
  have "unat (bx_post_list (ba_bw p)) * ?n \<le> 2 ^ 32 * 64"
    using n unat_bound [of "bx_post_list (ba_bw p)"] by (intro mult_mono) simp_all
  then show "shape_ok (bw_n (ba_bw p)) (bw_list (ba_bw p))" using n l by (simp add: shape_ok_def un ul)
  have "unat (of_nat n0 :: u64) = n0" using n0 by (simp add: unat_of_nat)
  then show "may_post (ba_stop p) x \<longleftrightarrow> unat x < n0" "stopped (ba_stop p) x \<longleftrightarrow> n0 \<le> unat x"
    using assms by (simp_all add: sound_call_def Let_def word_less_nat_alt word_le_nat_alt)
qed

lemma done_total_le:
  assumes "track Q D p n0 B st" and "sound_call p n0"
  shows "unat (bs_done_total st) \<le> B"
proof -
  have "unat (bs_done_total st) \<le> (\<Sum>j<length (bx_jetties (ba_bw p)).
      length (ops_on (length (bx_jetties (ba_bw p))) (unat (bx_post_list (ba_bw p))) j B))"
    unfolding trackD(6) [OF assms(1)] by (intro sum_mono) (use trackD(9) [OF assms(1)] in simp)
  then show ?thesis using sum_ops_on sound_call_shape(1) [OF assms(2)] by simp
qed

lemma settled_chunk:
  assumes "sound_call p n0" and "settled Q D p n0 st" and "may_post (ba_stop p) (bs_next st)"
  shows "case (bw_op_jetty (bs_next st) (bw_n (ba_bw p)) (bw_list (ba_bw p)),
           checked_mod (bs_next st) (bw_list (ba_bw p))) of
       (Some j, Some r) \<Rightarrow> filling Q D p n0 (unat j) (unat (bw_list (ba_bw p) - r)) ([], []) st
     | _ \<Rightarrow> False"
proof -
  note call = sound_call_shape [OF assms(1)]
  let ?n = "length (bx_jetties (ba_bw p))" and ?l = "unat (bx_post_list (ba_bw p))" and ?N = "unat (bs_next st)"
  have t: "track Q D p n0 ?N st" using assms(2) by (simp add: settled_def)
  obtain j where j: "bw_op_jetty (bs_next st) (bw_n (ba_bw p)) (bw_list (ba_bw p)) = Some j"
    "unat j = jetty_of ?n ?l ?N"
    using op_jetty_word [OF call(8), of "bs_next st"] unfolding call(6,7) by blast
  obtain r where r: "checked_mod (bs_next st) (bw_list (ba_bw p)) = Some r" "unat r = ?N mod ?l"
    using shape_pos [OF call(8)] call(7) by (simp add: checked_mod_def unat_mod)
  have "r \<le> bw_list (ba_bw p)" using r(2) call(5,7) mod_less_divisor [of ?l ?N]
    by (simp add: word_le_nat_alt less_imp_le)
  then have k: "unat (bw_list (ba_bw p) - r) = ?l - ?N mod ?l"
    using r(2) call(7) by (simp add: unat_sub)
  have "\<not> list_ex id (bs_fenced st)"
    using trackD(3,11) [OF t] assms(3) call(10) by (auto simp: list_ex_iff in_set_conv_nth)
  moreover have "unat j < ?n" using j(2) call(1) by (simp add: jetty_of_def)
  moreover have "jetty_of ?n ?l i = unat j" if "?N \<le> i" "i < ?N + (?l - ?N mod ?l)" for i
    using jetty_of_window [OF call(5) that] j(2) by simp
  ultimately show ?thesis
    using t j(1) r(1) k
    by (auto simp: filling_def chunk_ctxs_def intro!: exI [of _ ?N] split: BwOp.split)
qed

lemma push_req_ctxs:
  "push_req p x reqs = Some (Inr reqs') \<Longrightarrow> chunk_ctxs (ba_bw p) reqs' = chunk_ctxs (ba_bw p) reqs @ [x]"
  by (cases "bx_op (ba_bw p)")
    (auto simp: push_req_def chunk_ctxs_def Let_def res_simps split: option.splits)

lemma push_req_defined:
  assumes "sound_call p n0"
  shows "push_req p x reqs \<noteq> None"
proof -
  note call = sound_call_shape [OF assms]
  have len: "0 < unat (ba_size p)" "unat (ba_size p) \<le> unat (landing_len (bx_landing (ba_bw p)))"
    "unat (ba_size p) \<le> unat (bx_seg_len (ba_bw p))"
    using assms by (simp_all add: sound_call_def Let_def)
  show ?thesis
    using op_rank_word [OF call(8), of x] slot_off_word [OF len(1,2), of x] slot_off_word [OF len(1,3), of x]
    by (auto simp: push_req_def Let_def)
qed

lemma in_window_counts:
  assumes "track Q D p n0 B st" and "sound_call p n0" and "B \<le> unat (bs_next st)" and "in_window (ba_depth p) st"
  shows "unat (bs_next st) < unat (bs_done_total st) + unat (ba_depth p)"
proof -
  have le: "unat (bs_done_total st) \<le> unat (bs_next st)"
    using done_total_le [OF assms(1,2)] assms(3) by simp
  then have "unat (bs_next st - bs_done_total st) = unat (bs_next st) - unat (bs_done_total st)"
    by (simp add: unat_sub word_le_nat_alt)
  then show ?thesis using assms(4) le by (simp add: in_window_def word_less_nat_alt unat_depth)
qed

lemma next_op:
  fixes x :: u64
  assumes "unat x < n0" and "n0 < 2 ^ 32"
  shows "unat (x + 1) = Suc (unat x)"
  using assms unat_plus_no_overflow [of x 1] by simp

lemma filling_push:
  assumes call: "sound_call p n0" and fill: "filling Q D p n0 j (Suc k) reqs st"
    and may: "may_post (ba_stop p) (bs_next st)" and window: "in_window (ba_depth p) st"
  shows "case push_req p (bs_next st) reqs of None \<Rightarrow> False | Some (Inl _) \<Rightarrow> True
    | Some (Inr reqs) \<Rightarrow> filling Q D p n0 j k reqs (count_post clk p j st)"
proof -
  let ?n = "length (bx_jetties (ba_bw p))" and ?l = "unat (bx_post_list (ba_bw p))" and ?N = "unat (bs_next st)"
  obtain B where B: "B \<le> ?N" and t: "track Q D p n0 B st" and nf: "\<not> list_ex id (bs_fenced st)"
    and j: "j < ?n" and ctxs: "chunk_ctxs (ba_bw p) reqs = map of_nat [B..<?N]"
    and on: "\<And>i. B \<le> i \<Longrightarrow> i < ?N + Suc k \<Longrightarrow> jetty_of ?n ?l i = j"
    using fill unfolding filling_def by blast
  note shape = sound_call_shape [OF call] and inv = trackD [OF t]
  have lt: "?N < n0" using may shape(10) by simp
  note Suc_N = next_op [OF lt shape(9)]
  have jN: "jetty_of ?n ?l ?N = j" using on [of ?N] B by simp
  have posted: "unat (bs_posted st ! j + 1) = Suc (length (ops_on ?n ?l j ?N))"
    using next_op [of "bs_posted st ! j" n0] inv(8) [OF j] length_ops_on_le [of ?n ?l j ?N] lt shape(9) by simp
  have "track Q D p n0 B (count_post clk p j st)"
  proof (rule trackI)
    show "unat (bs_next (count_post clk p j st)) \<le> unat (bs_done_total (count_post clk p j st)) + unat (ba_depth p)"
      using in_window_counts [OF t call B window] Suc_N by simp
    show "unat (bs_posted (count_post clk p j st) ! i) = length (ops_on ?n ?l i (unat (bs_next (count_post clk p j st))))"
      if "i < ?n" for i
      using that inv(1) inv(8) [OF that] posted jN Suc_N by (auto simp: ops_on_Suc nth_list_update)
    show "unat (bs_next (count_post clk p j st)) = n0" if "i < ?n" "bs_fenced (count_post clk p j st) ! i" for i
      using that nf inv(3) by (auto simp: list_ex_iff in_set_conv_nth)
  qed (use inv lt Suc_N in simp_all)
  moreover have "map of_nat [B..<?N] @ [bs_next st] = map of_nat [B..<Suc ?N]" using B by simp
  ultimately have "filling Q D p n0 j k reqs' (count_post clk p j st)"
    if "push_req p (bs_next st) reqs = Some (Inr reqs')" for reqs'
    unfolding filling_def using push_req_ctxs [OF that] ctxs B j nf on Suc_N
    by (intro exI [of _ B]) simp
  then show ?thesis using push_req_defined [OF call, of "bs_next st" reqs] by (auto split: sum.split)
qed

text \<open>A chunk that is posted is handed over as the entries of its operations.\<close>

definition chunk_wqes :: "BwCtx \<Rightarrow> nat \<Rightarrow> requests \<Rightarrow> wqe list" where
  "chunk_wqes bw j reqs =
     (case bx_op bw of OpRead \<Rightarrow> map (read_req_wqe (bx_peers bw ! j)) (fst reqs)
      | OpWrite \<Rightarrow> map (write_req_wqe (bx_peers bw ! j)) (snd reqs))"

lemma chunk_wqes_ctxs: "map q_user_ctx (chunk_wqes bw j reqs) = chunk_ctxs bw reqs"
  by (simp add: chunk_wqes_def chunk_ctxs_def read_req_wqe_def read_wqe_def write_req_wqe_def write_wqe_def
      split: BwOp.split)

lemma chunk_hands_over:
  assumes "j < length (bx_jetties bw)" and "length (bx_peers bw) = length (bx_jetties bw)"
  shows "holds False (\<lambda>_ s. \<exists>h nm. s = st\<lparr>bs_heap := h\<rparr>
      \<and> hands_over L (j_raw (bx_jetties bw ! j)) (chunk_wqes bw j reqs) nm (bs_heap st) (Inr (), h))
    (post_chunk L bw j reqs st)"
proof -
  let ?j = "bx_jetties bw ! j" and ?p = "bx_peers bw ! j" and ?h = "bs_heap st"
  define out where "out = (case bx_op bw of
      OpRead \<Rightarrow> post_read_list L ?j ?p (fst reqs) ?h | OpWrite \<Rightarrow> post_write_list L ?j ?p (snd reqs) ?h)"
  have pc: "post_chunk L bw j reqs st = (Some (fst out), st\<lparr>bs_heap := snd out\<rparr>)"
    using assms by (simp add: post_chunk_def out_def split_beta)
  show ?thesis
  proof (cases "fst out")
    case (Inl e)
    then show ?thesis by (simp add: pc)
  next
    case (Inr u)
    obtain nm where ws: "hands_over L (j_raw ?j) (chunk_wqes bw j reqs) nm ?h out"
    proof (cases "bx_op bw")
      case OpRead
      then have "fst reqs \<noteq> []" using Inr by (auto simp: out_def post_read_list_def)
      from read_list_hands_over [OF this, of L ?j ?p ?h] OpRead show thesis
        by (intro that) (simp add: out_def chunk_wqes_def)
    next
      case OpWrite
      then have "snd reqs \<noteq> []" using Inr by (auto simp: out_def post_write_list_def)
      from write_list_hands_over [OF this, of L ?j ?p ?h] OpWrite show thesis
        by (intro that) (simp add: out_def chunk_wqes_def)
    qed
    have "out = (Inr (), snd out)" using Inr by (cases out) simp
    with ws have "hands_over L (j_raw ?j) (chunk_wqes bw j reqs) nm ?h (Inr (), snd out)" by simp
    then show ?thesis unfolding pc Inr holds_simps by blast
  qed
qed

text \<open>Posting a chunk appends its operations to the queue of its jetty.\<close>

lemma holds_mono: "holds b R r \<Longrightarrow> (\<And>x s. R x s \<Longrightarrow> S x s) \<Longrightarrow> (b \<Longrightarrow> b') \<Longrightarrow> holds b' S r"
  by (auto simp: holds_def split: prod.splits option.splits sum.splits)

lemma chunk_posted:
  assumes "orderly L Q D" and "j < length (bx_jetties bw)" and "length (bx_peers bw) = length (bx_jetties bw)"
  shows "holds False (\<lambda>_ s. \<exists>h. s = st\<lparr>bs_heap := h\<rparr>
      \<and> Q (lib_state h) = (Q (lib_state (bs_heap st)))(j_raw (bx_jetties bw ! j) :=
            Q (lib_state (bs_heap st)) (j_raw (bx_jetties bw ! j)) @ chunk_ctxs bw reqs)
      \<and> (\<forall>jp. D (lib_state (bs_heap st)) jp \<le> D (lib_state h) jp)) (post_chunk L bw j reqs st)"
  by (rule holds_mono [OF chunk_hands_over [OF assms(2,3)]])
    (use orderly_post [OF assms(1)] in \<open>fastforce simp: chunk_wqes_ctxs\<close>)+

lemma track_posted:
  assumes call: "sound_call p n0" and t: "track Q D p n0 B st" and B: "B \<le> unat (bs_next st)"
    and nf: "\<not> list_ex id (bs_fenced st)" and j: "j < length (bx_jetties (ba_bw p))"
    and on: "\<And>i. B \<le> i \<Longrightarrow> i < unat (bs_next st) \<Longrightarrow>
      jetty_of (length (bx_jetties (ba_bw p))) (unat (bx_post_list (ba_bw p))) i = j"
    and q: "Q (lib_state h) = (Q (lib_state (bs_heap st)))(j_raw (bx_jetties (ba_bw p) ! j) :=
            Q (lib_state (bs_heap st)) (j_raw (bx_jetties (ba_bw p) ! j)) @ map of_nat [B..<unat (bs_next st)])"
    and d: "\<forall>jp. D (lib_state (bs_heap st)) jp \<le> D (lib_state h) jp"
  shows "settled Q D p n0 (st\<lparr>bs_heap := h\<rparr>)"
proof -
  let ?n = "length (bx_jetties (ba_bw p))" and ?l = "unat (bx_post_list (ba_bw p))" and ?N = "unat (bs_next st)"
  note shape = sound_call_shape [OF call] and inv = trackD [OF t]
  have ops: "ops_on ?n ?l i ?N = ops_on ?n ?l i B @ (if i = j then [B..<?N] else [])" for i
    using ops_on_extend [OF B on] by blast
  have raw: "j_raw (bx_jetties (ba_bw p) ! i) = j_raw (bx_jetties (ba_bw p) ! j) \<longleftrightarrow> i = j" if "i < ?n" for i
    using nth_eq_iff_index_eq [OF shape(4), of i j] that j by simp
  have nfi: "\<not> bs_fenced st ! i" if "i < ?n" for i
    using that nf inv(3) by (auto simp: list_ex_iff in_set_conv_nth)
  show ?thesis
    unfolding settled_def
  proof (rule trackI)
    fix i assume i: "i < ?n"
    have "i < length (bx_jetties (ba_bw p))" using i by simp
    note inv_i = inv(9,10,12) [OF this]
    show "unat (bs_done (st\<lparr>bs_heap := h\<rparr>) ! i) \<le> length (ops_on ?n ?l i (unat (bs_next (st\<lparr>bs_heap := h\<rparr>))))"
      using inv_i(1) ops [of i] by simp
    show "unat (bs_done (st\<lparr>bs_heap := h\<rparr>) ! i) \<le> D (lib_state (bs_heap (st\<lparr>bs_heap := h\<rparr>))) (j_raw (bx_jetties (ba_bw p) ! i))"
      using inv_i(2) d by (auto intro: order_trans)
    show "Q (lib_state (bs_heap (st\<lparr>bs_heap := h\<rparr>))) (j_raw (bx_jetties (ba_bw p) ! i))
        = map of_nat (ops_on ?n ?l i (unat (bs_next (st\<lparr>bs_heap := h\<rparr>))))
          @ (if bs_fenced (st\<lparr>bs_heap := h\<rparr>) ! i then [BW_FENCE_CTX_BASE - of_nat i] else [])"
      using inv_i(3) nfi [OF i] raw [OF i] ops [of i] by (cases "i = j") (simp_all add: q)
  next
    fix jp assume jp: "jp \<notin> set (map j_raw (bx_jetties (ba_bw p)))"
    then have "jp \<noteq> j_raw (bx_jetties (ba_bw p) ! j)" using j by auto
    then show "Q (lib_state (bs_heap (st\<lparr>bs_heap := h\<rparr>))) jp = []" using inv(13) [OF jp] by (simp add: q)
  qed (use inv nfi in simp_all)
qed

lemma filling_post:
  assumes "orderly L Q D" and "sound_call p n0" and "filling Q D p n0 j k reqs st"
  shows "holds False (\<lambda>_. settled Q D p n0) (post_chunk L (ba_bw p) j reqs st)"
proof -
  obtain B where B: "B \<le> unat (bs_next st)" "track Q D p n0 B st" "\<not> list_ex id (bs_fenced st)"
    "j < length (bx_jetties (ba_bw p))" and ctxs: "chunk_ctxs (ba_bw p) reqs = map of_nat [B..<unat (bs_next st)]"
    and on: "\<And>i. B \<le> i \<Longrightarrow> i < unat (bs_next st) + k \<Longrightarrow>
      jetty_of (length (bx_jetties (ba_bw p))) (unat (bx_post_list (ba_bw p))) i = j"
    using assms(3) unfolding filling_def by blast
  note posted = chunk_posted [OF assms(1) B(4) sound_call_shape(3) [OF assms(2)], of st reqs]
  have "settled Q D p n0 s" if "s = st\<lparr>bs_heap := h\<rparr>"
    and "Q (lib_state h) = (Q (lib_state (bs_heap st)))(j_raw (bx_jetties (ba_bw p) ! j) :=
            Q (lib_state (bs_heap st)) (j_raw (bx_jetties (ba_bw p) ! j)) @ chunk_ctxs (ba_bw p) reqs)"
    and "\<forall>jp. D (lib_state (bs_heap st)) jp \<le> D (lib_state h) jp" for s h
    using track_posted [OF assms(2) B(2,1,3,4) _ that(2) [unfolded ctxs] that(3)] on that(1) by simp
  then show ?thesis
    using posted by (auto simp: holds_def split: prod.splits option.splits sum.splits)
qed

text \<open>A fence is appended to its jetty's queue, once.\<close>

lemma fence_hands_over:
  "post_read_signaled L jt peer va [sge] ctx True h = (Inr u, h') \<Longrightarrow>
    hands_over L (j_raw jt) [read_wqe peer va (of_nat (unat (ls_len sge))) [sge] ctx True]
      ''urma_post_jetty_send_wr(READ)'' h (Inr (), h')"
  using one_sided_hands_over [of "[sge]" jt L peer va ctx True h] unat_bound [of "ls_len sge"]
  by (auto split: if_splits)

lemma fence_posted:
  fixes h :: "'w heap"
  assumes "orderly L Q D" and "post_read_signaled L jt peer va [sge] ctx True h = (Inr u, h')"
  shows "Q (lib_state h') = (Q (lib_state h))(j_raw jt := Q (lib_state h) (j_raw jt) @ [ctx])
    \<and> (\<forall>jp. D (lib_state h) jp \<le> D (lib_state h') jp)"
  using orderly_post [OF assms(1) fence_hands_over [OF assms(2)]] by (simp add: read_wqe_def)

lemma settled_fence:
  assumes ord: "orderly L Q D" and call: "sound_call p n0" and set: "settled Q D p n0 st"
    and stop: "stopped (ba_stop p) (bs_next st)" and j: "j < length (bx_jetties (ba_bw p))"
  shows "holds False (\<lambda>_ s. settled Q D p n0 s \<and> bs_next s = bs_next st) (post_fence L p j st)"
proof -
  let ?n = "length (bx_jetties (ba_bw p))" and ?l = "unat (bx_post_list (ba_bw p))" and ?N = "unat (bs_next st)"
  note shape = sound_call_shape [OF call]
  have t: "track Q D p n0 ?N st" using set by (simp add: settled_def)
  note inv = trackD [OF t]
  have N: "?N = n0" using stop shape(11) inv(5) by simp
  have raw: "j_raw (bx_jetties (ba_bw p) ! i) = j_raw (bx_jetties (ba_bw p) ! j) \<longleftrightarrow> i = j" if "i < ?n" for i
    using nth_eq_iff_index_eq [OF shape(4), of i j] that j by simp
  have fenced: "settled Q D p n0 (st\<lparr>bs_heap := h, bs_fenced := (bs_fenced st)[j := True]\<rparr>)"
    if nf: "\<not> bs_fenced st ! j"
      and q: "Q (lib_state h) = (Q (lib_state (bs_heap st)))(j_raw (bx_jetties (ba_bw p) ! j) :=
            Q (lib_state (bs_heap st)) (j_raw (bx_jetties (ba_bw p) ! j)) @ [BW_FENCE_CTX_BASE - of_nat j])"
      and d: "\<forall>jp. D (lib_state (bs_heap st)) jp \<le> D (lib_state h) jp" for h
    unfolding settled_def
  proof (rule trackI)
    let ?s = "st\<lparr>bs_heap := h, bs_fenced := (bs_fenced st)[j := True]\<rparr>"
    fix i assume i: "i < ?n"
    note inv_i = inv(12) [OF i]
    show "unat (bs_done ?s ! i) \<le> D (lib_state (bs_heap ?s)) (j_raw (bx_jetties (ba_bw p) ! i))"
      using inv(10) [OF i] d by (auto intro: order_trans)
    show "Q (lib_state (bs_heap ?s)) (j_raw (bx_jetties (ba_bw p) ! i)) = map of_nat (ops_on ?n ?l i (unat (bs_next ?s)))
          @ (if bs_fenced ?s ! i then [BW_FENCE_CTX_BASE - of_nat i] else [])"
      using inv_i raw [OF i] nf inv(3) i by (cases "i = j") (simp_all add: q)
  next
    fix jp assume jp: "jp \<notin> set (map j_raw (bx_jetties (ba_bw p)))"
    then have "jp \<noteq> j_raw (bx_jetties (ba_bw p) ! j)" using j by auto
    then show "Q (lib_state (bs_heap (st\<lparr>bs_heap := h, bs_fenced := (bs_fenced st)[j := True]\<rparr>))) jp = []"
      using inv(13) [OF jp] by (simp add: q)
  qed (use inv N d in simp_all)
  show ?thesis
  proof (cases "\<not> bs_fenced st ! j \<and> bw_tail_uncovered (bs_posted st ! j) (ba_cq_mod p)")
    case False
    then show ?thesis using set by (auto simp: post_fence_def Let_def)
  next
    case True
    show ?thesis
    proof (cases "seg_sge (bx_landing (ba_bw p)) 0 1")
      case (Inl e)
      then show ?thesis using True j shape(3) by (simp add: post_fence_def Let_def)
    next
      case (Inr sge)
      obtain r h where r: "post_read_signaled L (bx_jetties (ba_bw p) ! j) (bx_peers (ba_bw p) ! j)
          (bx_remote_va (ba_bw p)) [sge] (BW_FENCE_CTX_BASE - of_nat j) True (bs_heap st) = (r, h)" by force
      show ?thesis
      proof (cases r)
        case (Inl e)
        then show ?thesis using True j shape(3) Inr r by (simp add: post_fence_def Let_def)
      next
        case (Inr u)
        then show ?thesis
          using True j shape(3) \<open>seg_sge _ 0 1 = Inr sge\<close> r fenced fence_posted [OF ord r [unfolded Inr]]
          by (simp add: post_fence_def Let_def)
      qed
    qed
  qed
qed

text \<open>Polling moves completion forward and delivers only records of completed entries.\<close>

lemma settled_polled:
  assumes ord: "orderly L Q D" and set: "settled Q D p n0 st"
  shows "holds False (\<lambda>crs s. settled Q D p n0 s \<and> (\<forall>cr \<in> set crs. proven Q D cr s)) (poll_records L p st)"
proof -
  let ?h = "bs_heap st" and ?q = "bx_cq (ba_bw p)"
  have t: "track Q D p n0 (unat (bs_next st)) st" using set by (simp add: settled_def)
  note inv = trackD [OF t]
  have ne: "bs_crs st \<noteq> []" and len: "min (length (bs_crs st)) 64 = 16"
    using inv(4) by (auto simp: BW_POLL_BATCH_def)
  obtain n crs l where p: "l_poll_jfc L (cq_jfc ?q ?h) (of_nat (min (length (bs_crs st)) 64)) (lib_state ?h) = (n, crs, l)"
    by (metis prod.exhaust)
  show ?thesis
  proof (cases "sint n < 0")
    case True
    then show ?thesis using poll_batch_fails [OF ne p] by (auto simp: poll_records_def)
  next
    case False
    then have ord': "Q l = Q (lib_state ?h)" "\<And>jp. D (lib_state ?h) jp \<le> D l jp" "sint n = int (length crs)"
      "sint n \<le> sint (of_nat 16 :: i32)"
      "\<And>cr. cr \<in> set crs \<Longrightarrow> \<exists>jp i. i < length (Q l jp) \<and> Q l jp ! i = cr_user_ctx cr \<and> i < D l jp"
      using ord p unfolding orderly_def len by (metis not_less)+
    then have cnt: "length crs \<le> min (length (bs_crs st)) 64" using len by simp
    obtain out h where out: "poll_batch L ?q (bs_crs st) ?h = (Inr (length crs), out, h)"
      "length out = length (bs_crs st)" "take (length crs) out = map completion_of crs" "lib_state h = l"
      using poll_batch_ok [OF ne p ord'(3) cnt] by blast
    have "settled Q D p n0 (st\<lparr>bs_crs := out, bs_heap := h\<rparr>)"
      unfolding settled_def
    proof (rule trackI)
      show "unat (bs_done (st\<lparr>bs_crs := out, bs_heap := h\<rparr>) ! j)
          \<le> D (lib_state (bs_heap (st\<lparr>bs_crs := out, bs_heap := h\<rparr>))) (j_raw (bx_jetties (ba_bw p) ! j))"
        if "j < length (bx_jetties (ba_bw p))" for j
        using inv(10) [OF that] ord'(2) out(4) by (simp add: order_trans)
    qed (use inv out ord'(1) in simp_all)
    moreover have "\<forall>cr \<in> set (map completion_of crs). proven Q D cr (st\<lparr>bs_crs := out, bs_heap := h\<rparr>)"
      using ord'(5) out(4) by (auto simp: proven_def completion_of_def)
    ultimately show ?thesis using out cnt by (auto simp: poll_records_def)
  qed
qed

text \<open>A record's user context gives back its place in the queue it is proven by.\<close>

lemma fence_ctx:
  assumes "j < 64"
  shows "BW_FENCE_CTX_MIN \<le> BW_FENCE_CTX_BASE - of_nat j"
    and "unat (BW_FENCE_CTX_BASE - (BW_FENCE_CTX_BASE - of_nat j)) = j"
proof -
  have j: "unat (of_nat j :: u64) = j" using assms by (simp add: unat_of_nat)
  have "of_nat j \<le> (- 1 :: u64)" by (simp add: word_n1_ge)
  then have "unat (BW_FENCE_CTX_BASE - of_nat j) = 2 ^ 64 - 1 - j"
    unfolding BW_FENCE_CTX_BASE_def using j
    by (simp add: unat_sub unsigned_minus_1_eq_mask mask_eq_exp_minus_1)
  moreover have "unat BW_FENCE_CTX_MIN = 2 ^ 64 - 64"
    by (simp add: BW_FENCE_CTX_MIN_def BW_FENCE_CTX_BASE_def BW_MAX_JETTIES_def)
  ultimately show "BW_FENCE_CTX_MIN \<le> BW_FENCE_CTX_BASE - of_nat j"
    using assms by (simp add: word_le_nat_alt)
  show "unat (BW_FENCE_CTX_BASE - (BW_FENCE_CTX_BASE - of_nat j)) = j" using j by simp
qed

lemma op_ctx: "k < 2 ^ 32 \<Longrightarrow> unat (of_nat k :: u64) = k \<and> \<not> BW_FENCE_CTX_MIN \<le> of_nat k"
  by (simp add: unat_of_nat word_le_nat_alt BW_FENCE_CTX_MIN_def BW_FENCE_CTX_BASE_def BW_MAX_JETTIES_def)

lemma record_place:
  assumes call: "sound_call p n0" and set: "settled Q D p n0 st" and proven: "proven Q D cr st"
  shows "\<exists>j target. record_target p st (c_user_ctx cr) = Some (j, target) \<and> j < length (bx_jetties (ba_bw p))
    \<and> unat target \<le> length (ops_on (length (bx_jetties (ba_bw p))) (unat (bx_post_list (ba_bw p))) j (unat (bs_next st)))
    \<and> unat target \<le> D (lib_state (bs_heap st)) (j_raw (bx_jetties (ba_bw p) ! j))"
proof -
  let ?n = "length (bx_jetties (ba_bw p))" and ?l = "unat (bx_post_list (ba_bw p))" and ?N = "unat (bs_next st)"
  note shape = sound_call_shape [OF call]
  have t: "track Q D p n0 ?N st" using set by (simp add: settled_def)
  note inv = trackD [OF t]
  obtain jp i where q: "i < length (Q (lib_state (bs_heap st)) jp)"
    "Q (lib_state (bs_heap st)) jp ! i = c_user_ctx cr" "i < D (lib_state (bs_heap st)) jp"
    using proven unfolding proven_def by blast
  then have "Q (lib_state (bs_heap st)) jp \<noteq> []" by auto
  then have "jp \<in> set (map j_raw (bx_jetties (ba_bw p)))" using inv(13) [of jp] by blast
  then obtain j where j: "j < ?n" "jp = j_raw (bx_jetties (ba_bw p) ! j)" by (auto simp: in_set_conv_nth)
  let ?ops = "ops_on ?n ?l j ?N"
  note queue = inv(12) [OF j(1)]
  show ?thesis
  proof (cases "i < length ?ops")
    case True
    define k where "k = ?ops ! i"
    have k: "jetty_of ?n ?l k = j" "rank_of ?n ?l k = i" "k < ?N"
      using ops_on_nth [OF shape(1,5) True] by (simp_all add: k_def)
    then have "k < 2 ^ 32" using inv(5) shape(9) by simp
    note ctx = op_ctx [OF this]
    have c: "c_user_ctx cr = of_nat k" using q(2) True unfolding j(2) queue k_def by (simp add: nth_append)
    obtain jw where jw: "bw_op_jetty (of_nat k) (bw_n (ba_bw p)) (bw_list (ba_bw p)) = Some jw" "unat jw = j"
      using op_jetty_word [OF shape(8), of "of_nat k"] ctx k unfolding shape(6,7) by auto
    obtain r where r: "bw_op_rank (of_nat k) (bw_n (ba_bw p)) (bw_list (ba_bw p)) = Some r" "unat r = i" "unat r \<le> k"
      using op_rank_word [OF shape(8), of "of_nat k"] ctx k unfolding shape(6,7) by auto
    have "unat (r + 1) = Suc i" using r \<open>k < 2 ^ 32\<close> next_op [of r "2 ^ 32"] next_op [of r "Suc i"] k inv(5) shape(9)
      by simp
    moreover have "record_target p st (c_user_ctx cr) = Some (j, r + 1)"
      using ctx jw r by (simp add: record_target_def c)
    ultimately show ?thesis using True j q(3) by auto
  next
    case False
    then have i: "i = length ?ops" "bs_fenced st ! j" using q(1) unfolding j(2) queue by (auto split: if_splits)
    then have c: "c_user_ctx cr = BW_FENCE_CTX_BASE - of_nat j"
      using q(2) unfolding j(2) queue by (simp add: nth_append)
    have "j < 64" using j(1) shape(2) by simp
    then have "record_target p st (c_user_ctx cr) = Some (j, bs_posted st ! j)"
      using fence_ctx [of j] j(1) inv(1) by (simp add: record_target_def c Let_def)
    then show ?thesis using i j q(3) inv(8) [OF j(1)] by auto
  qed
qed

lemma sum_update:
  assumes "length xs = n" and "j < n"
  shows "(\<Sum>i<n. unat (xs[j := t] ! i)) + unat (xs ! j) = (\<Sum>i<n. unat (xs ! i)) + unat t"
proof -
  have "(\<Sum>i<n. unat (xs[j := t] ! i)) = unat t + (\<Sum>i \<in> {..<n} - {j}. unat (xs ! i))"
    using assms by (subst sum.remove [of _ j]) (auto intro!: sum.cong)
  moreover have "(\<Sum>i<n. unat (xs ! i)) = unat (xs ! j) + (\<Sum>i \<in> {..<n} - {j}. unat (xs ! i))"
    using assms by (subst sum.remove [of _ j]) auto
  ultimately show ?thesis by simp
qed

lemma settled_credit:
  assumes call: "sound_call p n0" and set: "settled Q D p n0 st" and j: "j < length (bx_jetties (ba_bw p))"
    and ops: "unat target \<le> length (ops_on (length (bx_jetties (ba_bw p))) (unat (bx_post_list (ba_bw p))) j (unat (bs_next st)))"
    and d: "unat target \<le> D (lib_state (bs_heap st)) (j_raw (bx_jetties (ba_bw p) ! j))"
  shows "settled Q D p n0 (credit j target st)"
proof (cases "target > bs_done st ! j")
  case True
  let ?n = "length (bx_jetties (ba_bw p))" and ?l = "unat (bx_post_list (ba_bw p))" and ?N = "unat (bs_next st)"
  let ?s = "st\<lparr>bs_done_total := bs_done_total st + (target - bs_done st ! j), bs_done := (bs_done st)[j := target]\<rparr>"
  note shape = sound_call_shape [OF call]
  have t: "track Q D p n0 ?N st" using set by (simp add: settled_def)
  note inv = trackD [OF t]
  have le: "unat (bs_done st ! j) \<le> unat target" using True by (simp add: word_less_nat_alt)
  have bounds: "unat (bs_done_total st) < 2 ^ 32" "unat target < 2 ^ 32"
    using done_total_le [OF t call] inv(5) shape(9) ops length_ops_on_le [of ?n ?l j ?N] by simp_all
  have diff: "unat (target - bs_done st ! j) = unat target - unat (bs_done st ! j)"
    using True by (simp add: unat_sub less_imp_le)
  have "unat (bs_done_total st + (target - bs_done st ! j)) = unat (bs_done_total st) + (unat target - unat (bs_done st ! j))"
    using bounds by (subst unat_plus_no_overflow) (simp_all add: diff)
  then have total: "unat (bs_done_total ?s) = (\<Sum>i<?n. unat (bs_done ?s ! i))"
    using sum_update [OF inv(2) j, of target] inv(6) le by simp
  have "settled Q D p n0 ?s"
    unfolding settled_def
  proof (rule trackI)
    show "unat (bs_done_total ?s) = (\<Sum>i<?n. unat (bs_done ?s ! i))" by (rule total)
    show "unat (bs_next ?s) \<le> unat (bs_done_total ?s) + unat (ba_depth p)"
      using inv(7) sum_update [OF inv(2) j, of target] inv(6) le total by simp
    show "unat (bs_done ?s ! i) \<le> length (ops_on ?n ?l i (unat (bs_next ?s)))" if "i < ?n" for i
      using inv(9) [OF that] ops inv(2) that by (cases "i = j") simp_all
    show "unat (bs_done ?s ! i) \<le> D (lib_state (bs_heap ?s)) (j_raw (bx_jetties (ba_bw p) ! i))" if "i < ?n" for i
      using inv(10) [OF that] d inv(2) that by (cases "i = j") simp_all
  qed (use inv in simp_all)
  then show ?thesis using True by (simp add: credit_def)
next
  case False
  then show ?thesis using set by (simp add: credit_def)
qed

lemma proven_credit [simp]: "proven Q D cr (credit j target st) = proven Q D cr st"
  by (simp add: proven_def credit_def)

lemma settled_laws:
  assumes ord: "orderly L Q D" and call: "sound_call p n0"
  shows "pass_laws L clk p False (settled Q D p n0) (filling Q D p n0) (proven Q D)"
proof
  show "case record_target p st (c_user_ctx cr) of None \<Rightarrow> False
      | Some (j, target) \<Rightarrow> settled Q D p n0 (credit j target st)
          \<and> (\<forall>cr'. proven Q D cr' st \<longrightarrow> proven Q D cr' (credit j target st))"
    if "settled Q D p n0 st" "proven Q D cr st" for st cr
    using record_place [OF call that] settled_credit [OF call that(1)] by auto
qed (use settled_chunk [OF call] filling_push [OF call] filling_post [OF ord call] settled_fence [OF ord call]
      settled_polled [OF ord] in \<open>simp_all only: settled_clock filling_clock proven_clock\<close>)

lemma settled_start:
  assumes "sound_call p n0" and "\<And>jp. Q (lib_state h) jp = []"
  shows "settled Q D p n0 (pass_start clk p tick h)"
  unfolding settled_def by (rule trackI) (use assms in \<open>simp_all add: pass_start_def Let_def BW_POLL_BATCH_def\<close>)

section \<open>Properties\<close>


end
