(* ===== verification/Loopback.thy ===== *)
theory Loopback
  imports Progress
begin

text \<open>
  A concrete library that keeps the promises the bandwidth pass relies on: every jetty handle has
  its queue of posted user contexts, everything posted is complete at once, and each signaled entry
  waits in order to be polled. It is the instance the witnesses of the pass's properties use.
\<close>

record loop_state =
  lp_queue :: "ptr \<Rightarrow> u64 list"
  lp_ready :: "(ptr \<times> nat) list"

definition loop_start :: loop_state where
  "loop_start = \<lparr>lp_queue = (\<lambda>_. []), lp_ready = []\<rparr>"

definition loop_entries :: "ptr \<Rightarrow> nat \<Rightarrow> wqe list \<Rightarrow> (ptr \<times> nat) list" where
  "loop_entries jp k ws = map (\<lambda>i. (jp, k + i)) (filter (\<lambda>i. q_signal (ws ! i) \<noteq> 0) [0..<length ws])"

text \<open>A chain of more than 64 requests is refused, with status 22.\<close>

definition loop_post ::
  "ptr \<Rightarrow> urma_jfs_wr_t \<Rightarrow> (loc \<Rightarrow> urma_sge_t) \<Rightarrow> (loc \<Rightarrow> urma_jfs_wr_t) \<Rightarrow> loop_state \<Rightarrow> i32 \<times> loop_state" where
  "loop_post jp wr sges wrs l =
     (case walk 64 sges wrs wr of None \<Rightarrow> (22, l)
      | Some ws \<Rightarrow>
          (0, \<lparr>lp_queue = (lp_queue l)(jp := lp_queue l jp @ map q_user_ctx ws),
               lp_ready = lp_ready l @ loop_entries jp (length (lp_queue l jp)) ws\<rparr>))"

definition loop_poll :: "i32 \<Rightarrow> loop_state \<Rightarrow> i32 \<times> urma_cr_t list \<times> loop_state" where
  "loop_poll want l =
     (if sint want < 0 then (- 1, [], l)
      else
      let ready = filter (\<lambda>(jp, i). i < length (lp_queue l jp)) (lp_ready l);
          k = min (nat (sint want)) (length ready)
      in (of_nat k,
          map (\<lambda>(jp, i). default_urma_cr_t\<lparr>cr_user_ctx := lp_queue l jp ! i\<rparr>) (take k ready),
          l\<lparr>lp_ready := drop k ready\<rparr>))"

definition loop_lib :: "loop_state liburma" where
  "loop_lib = \<lparr>
     l_errno = \<lambda>_. 0, l_init = \<lambda>_ l. (0, l), l_uninit = \<lambda>l. (0, l),
     l_get_device_list = \<lambda>l. (0, 0, l), l_free_device_list = \<lambda>_ l. l, l_read_device_list = \<lambda>_ _ _. 0,
     l_read_device = \<lambda>_ _. \<lparr>dev_name = [], dev_path = [], dev_type = 0, dev_ops = 0, dev_sysfs_dev = 0\<rparr>,
     l_get_device_by_name = \<lambda>_ l. (0, l), l_get_eid_list = \<lambda>_ l. (0, 0, l), l_free_eid_list = \<lambda>_ l. l,
     l_read_eid_info = \<lambda>_ _. default_urma_eid_info_t,
     l_query_device = \<lambda>_ l. (0, default_urma_device_attr_t, l),
     l_create_context = \<lambda>_ _ l. (0, l), l_delete_context = \<lambda>_ l. (0, l),
     l_create_jfce = \<lambda>_ l. (0, l), l_delete_jfce = \<lambda>_ l. (0, l),
     l_create_jfc = \<lambda>_ _ l. (0, l), l_delete_jfc = \<lambda>_ l. (0, l),
     l_poll_jfc = \<lambda>_. loop_poll,
     l_create_jfr = \<lambda>_ _ l. (0, l), l_delete_jfr = \<lambda>_ l. (0, l), l_post_jfr_wr = \<lambda>_ _ _ l. (0, l),
     l_create_jetty = \<lambda>_ _ l. (0, l), l_delete_jetty = \<lambda>_ l. (0, l),
     l_read_jetty = \<lambda>_ _. \<lparr>jetty_urma_ctx = 0, jetty_jetty_id = default_urma_jetty_id_t, jetty_remote_jetty = 0\<rparr>,
     l_import_jetty = \<lambda>_ _ _ l. (0, l), l_unimport_jetty = \<lambda>_ l. (0, l),
     l_register_seg = \<lambda>_ _ l. (0, l), l_unregister_seg = \<lambda>_ l. (0, l),
     l_read_target_seg = \<lambda>_ _. default_urma_target_seg_t,
     l_import_seg = \<lambda>_ _ _ _ _ l. (0, l), l_unimport_seg = \<lambda>_ l. (0, l),
     l_get_seg_ctx = \<lambda>_ l. (0, 0, 0, l), l_put_seg_ctx = \<lambda>_ l. l,
     l_get_rjetty = \<lambda>_ l. (0, 0, 0, l), l_put_rjetty = \<lambda>_ l. l,
     l_read_bytes = \<lambda>_ n _. replicate n 0, l_write_bytes = \<lambda>_ _ l. l,
     l_post_send_wr = loop_post,
     l_alloc_zeroed = \<lambda>_ _ l. (0, l), l_dealloc = \<lambda>_ _ _ l. l\<rparr>"

definition loop_heap :: "loop_state heap" where
  "loop_heap = \<lparr>lib_state = loop_start, event_log = [], urma_cells = [], init_slot = None, ctx_cells = [],
     cq_cells = [\<lparr>qc_jfce = 1, qc_jfc = 2, qc_ctx = \<lparr>ctx_inner = 0, ctx_eid = []\<rparr>, qc_strong = 1\<rparr>]\<rparr>"

lemma loop_lib_simps [simp]:
  "l_post_send_wr loop_lib = loop_post"
  "l_poll_jfc loop_lib = (\<lambda>_. loop_poll)"
  by (simp_all add: loop_lib_def)

text \<open>How far a chain is read does not matter, once it ends.\<close>

lemma walk_det: "walk n sges wrs wr = Some ws \<Longrightarrow> walk m sges wrs wr = Some ws' \<Longrightarrow> ws = ws'"
proof (induction n arbitrary: m wr ws ws')
  case (Suc n)
  then obtain m' where m: "m = Suc m'" by (cases m) auto
  show ?case
    using Suc.prems Suc.IH unfolding m by (auto split: option.splits)
qed simp

lemma loop_orderly: "orderly loop_lib lp_queue (\<lambda>l jp. length (lp_queue l jp))"
proof -
  have "lp_queue (snd (loop_post jp wr sges wrs l)) = (lp_queue l)(jp := lp_queue l jp @ map q_user_ctx ws)"
    if "walk n sges wrs wr = Some ws" "fst (loop_post jp wr sges wrs l) = 0" for jp wr sges wrs l n ws
    using that walk_det [OF that(1), of 64] by (auto simp: loop_post_def split: option.splits)
  moreover have "lp_queue l' = lp_queue l \<and> sint n = int (length crs) \<and> sint n \<le> sint want
      \<and> (\<forall>cr \<in> set crs. \<exists>jp i. i < length (lp_queue l' jp) \<and> lp_queue l' jp ! i = cr_user_ctx cr)"
    if "loop_poll want l = (n, crs, l')" "0 \<le> sint n" for want l n crs l'
  proof -
    have want: "0 \<le> sint want" using that by (auto simp: loop_poll_def split: if_splits)
    define ready where "ready = filter (\<lambda>(jp, i). i < length (lp_queue l jp)) (lp_ready l)"
    define k where "k = min (nat (sint want)) (length ready)"
    have r: "n = of_nat k" "l' = l\<lparr>lp_ready := drop k ready\<rparr>"
      "crs = map (\<lambda>(jp, i). default_urma_cr_t\<lparr>cr_user_ctx := lp_queue l jp ! i\<rparr>) (take k ready)"
      using that(1) want by (simp_all add: loop_poll_def ready_def k_def Let_def)
    have "sint want < 2 ^ 31" using sint_lt [of want] by simp
    then have k: "k < 2 ^ 31" "int k \<le> sint want" "k \<le> length ready" using want by (auto simp: k_def)
    have n: "sint n = int k" using k(1) by (simp add: r(1) signed_of_nat signed_take_bit_int_eq_self)
    have "\<exists>jp i. i < length (lp_queue l jp) \<and> lp_queue l jp ! i = cr_user_ctx cr" if cr: "cr \<in> set crs" for cr
    proof -
      obtain e where e: "e \<in> set (take k ready)" "cr = (\<lambda>(jp, i). default_urma_cr_t\<lparr>cr_user_ctx := lp_queue l jp ! i\<rparr>) e"
        using cr unfolding r(3) set_map by blast
      obtain jp i where ji: "e = (jp, i)" by force
      have "e \<in> set ready" using e(1) by (rule in_set_takeD)
      then show ?thesis using e(2) ji by (auto simp: ready_def)
    qed
    then show ?thesis using n k by (simp add: r)
  qed
  ultimately show ?thesis unfolding orderly_def loop_lib_simps by (intro conjI allI impI) (fastforce+)
qed

lemma loop_draining: "draining loop_lib (\<lambda>l. length (lp_ready l))"
proof -
  have "length (lp_ready (snd (loop_post jp wr sges wrs l))) \<le> length (lp_ready l) + length ws"
    if "walk n sges wrs wr = Some ws" for jp wr sges wrs l n ws
  proof (cases "walk 64 sges wrs wr")
    case (Some ws')
    then have "ws' = ws" using walk_det [OF that] by simp
    moreover have "length (filter (\<lambda>i. q_signal (ws ! i) \<noteq> 0) [0..<length ws]) \<le> length ws"
      using length_filter_le [of _ "[0..<length ws]"] by simp
    ultimately show ?thesis using Some by (simp add: loop_post_def loop_entries_def)
  qed (simp add: loop_post_def)
  moreover have "length (lp_ready l') + nat (sint n) \<le> length (lp_ready l)"
    if "loop_poll want l = (n, crs, l')" "0 \<le> sint n" for want l n crs l'
  proof -
    have "sint n = int (length crs)" using loop_orderly that unfolding orderly_def loop_lib_simps by blast
    moreover have "length (filter P xs) - min k (length (filter P xs)) + min (length (filter P xs)) (min k (length (filter P xs)))
        \<le> length xs" for P k and xs :: "(ptr \<times> nat) list"
      using length_filter_le [of P xs] by simp
    ultimately show ?thesis using that by (auto simp: loop_poll_def Let_def split: if_splits)
  qed
  ultimately show ?thesis by (simp add: draining_def)
qed

lemma loop_quiet: "quiet loop_lib (\<lambda>l. lp_ready l = [])"
proof -
  have "lp_ready (snd (loop_post jp wr sges wrs l)) = []"
    if "walk n sges wrs wr = Some ws" "lp_ready l = []" "list_all (\<lambda>w. q_signal w = 0) ws" for jp wr sges wrs l n ws
  proof (cases "walk 64 sges wrs wr")
    case (Some ws')
    then have "ws' = ws" using walk_det [OF that(1)] by simp
    then have "loop_entries jp k ws' = []" for k
      using that(3) by (auto simp: loop_entries_def filter_empty_conv list_all_length)
    then show ?thesis using Some that(2) by (simp add: loop_post_def)
  qed (use that(2) in \<open>simp add: loop_post_def\<close>)
  moreover have "sint n \<le> 0 \<and> lp_ready l' = []" if "loop_poll want l = (n, crs, l')" "lp_ready l = []" for want l n crs l'
    using that by (auto simp: loop_poll_def Let_def split: if_splits)
  ultimately show ?thesis by (auto simp: quiet_def)
qed

section \<open>Concrete passes\<close>

definition demo_jetty :: "nat \<Rightarrow> Jetty" where
  "demo_jetty i = \<lparr>j_jfr = 5, j_raw = 6 + of_nat i, j_id = JettyId_from_raw default_urma_jetty_id_t,
     j_max_sge = 1, j_cq = \<lparr>cq_inner = 0\<rparr>\<rparr>"

definition demo_peer :: Peer where
  "demo_peer = \<lparr>peer_tseg = 8, peer_tjetty = 9, peer_ctx = \<lparr>ctx_inner = 0, ctx_eid = []\<rparr>\<rparr>"

definition demo_landing :: RegisteredSeg where
  "demo_landing = \<lparr>rs_tseg = 7, rs_va = 4096, rs_len = 64, rs_ctx = \<lparr>ctx_inner = 0, ctx_eid = []\<rparr>,
     rs_buf = Some \<lparr>pb_ptr = 4096, pb_size = 64\<rparr>\<rparr>"

definition demo_bw :: "nat \<Rightarrow> u32 \<Rightarrow> BwCtx" where
  "demo_bw n pl = \<lparr>bx_jetties = map demo_jetty [0..<n], bx_cq = \<lparr>cq_inner = 0\<rparr>,
     bx_peers = replicate n demo_peer, bx_remote_va = 0x10000, bx_seg_len = 64, bx_landing = demo_landing,
     bx_post_list = pl, bx_op = OpRead\<rparr>"

definition demo_args :: "nat \<Rightarrow> u32 \<Rightarrow> u32 \<Rightarrow> u64 \<Rightarrow> BwStop \<Rightarrow> bw_args" where
  "demo_args n pl depth m stop = \<lparr>ba_bw = demo_bw n pl, ba_size = 8, ba_depth = depth, ba_cq_mod = m,
     ba_stop = stop, ba_timed = True\<rparr>"

lemma demo_sound: "sound_call (demo_args 2 1 2 2 (Ops 5)) 5"
  by (simp add: sound_call_def demo_args_def demo_bw_def demo_landing_def landing_len_def demo_jetty_def upt_rec)

lemma demo_clock: "mono (\<lambda>i. i :: nat)" "\<forall>T. \<exists>i. T \<le> (i :: nat)"
  by (auto intro: monoI)




text \<open>The second operation of a pass with a deadline at instant 3, at clock reading 2.\<close>

definition demo_midway :: "loop_state bw_state" where
  "demo_midway = (pass_start (\<lambda>i. i) (demo_args 1 1 4 1 (Until 3)) 0 loop_heap)
     \<lparr>bs_next := 1, bs_posted := [1], bs_t0 := Some 1, bs_tick := 2\<rparr>"


text \<open>A pass of one operation, run to its end: one record proves it, and the report is there.\<close>

lemmas pass_defs = bw_pass_def pass_start_def pass_step_def post_step_def fence_phase_def poll_phase_def
  poll_records_def post_fence_def post_chunk_def and_then_def check_stop_def in_window_def push_req_def
  count_post_def read_clock_def record_target_def reap_one_def credit_def pass_result_def
  bw_n_def bw_list_def landing_len_def bw_op_jetty_def bw_op_rank_def bw_slot_off_def checked_div_def
  checked_mod_def is_multiple_of_def bw_tail_uncovered_def BW_FENCE_CTX_MIN_def BW_FENCE_CTX_BASE_def
  BW_MAX_JETTIES_def BW_POLL_BATCH_def READ_TIMEOUT_def demo_args_def demo_bw_def demo_jetty_def
  demo_peer_def demo_landing_def seg_sge_def LocalSge_new_def checked_add_def is_success_def completion_of_def
  post_read_list_def ffi_post_send_def call_use_def check_status_def poll_batch_def ffi_poll_jfc_def
  written_def POLL_BATCH_MAX_def demo_heap_def demo_start_def demo_poll_def demo_cr_def cq_jfc_def
  set_lib_def record_event_def default_urma_cr_t_def

lemma demo_pass:
  "map_option fst (bw_pass demo_lib (\<lambda>i. i) (demo_args 1 1 1 1 (Ops 1)) 0 (demo_heap [] [[demo_cr 0]]))
   = Some (Some (Inr (Some (2, 1))))"
  by (simp add: pass_defs ffi_const post_phase.simps bw_loop.simps cong: let_weak_cong)

end
