(* ===== verification/Preflight.thy ===== *)
theory Preflight
  imports DeviceCaps
begin

text \<open>
  The mode checks the examples run before creating any resource: \<open>check_mode_support\<close>
  (\<open>examples/common/mod.rs\<close>) for the fixed CTP-RM mode, and the parameterised \<open>preflight\<close>
  and \<open>resolve_priority\<close> of \<open>examples/urma_bench.rs\<close> (\<open>examples/urma_cli.rs\<close> has the same
  \<open>preflight\<close> without the capability in its result). The capability query is the argument
  \<open>query\<close>; the progress lines they print are left out.
\<close>

section \<open>check_mode_support\<close>

definition quoted :: "string \<Rightarrow> string" where
  "quoted s = [CHR 0x27] @ s @ [CHR 0x27]"

definition missing_fixed_mode :: "DeviceCap \<Rightarrow> bool \<Rightarrow> string list" where
  "missing_fixed_mode cap bonding =
     (if \<not> supports_mode cap Rm then [''transport mode '' @ tm_name Rm]
      else
        (if \<not> supports cap Rm Ctp
         then [''tp type '' @ tp_name Ctp @ '' for '' @ tm_name Rm @
               (if ctp (tp_cap cap Rm) \<and> \<not> dev_ctp_en cap
                then '' (the mode allows CTP but the device feature ctp_en is off)'' else [])]
         else [])
        @ (if bonding \<and> \<not> supports_multi_path cap Rm
           then [''multi-path for RM (bonding devices run RM with multi-path)''] else []))"

definition check_mode_support :: "(string \<Rightarrow> DeviceCap result) \<Rightarrow> string \<Rightarrow> unit result" where
  "check_mode_support query dev =
     rbind (query dev) (\<lambda>cap.
       let missing = missing_fixed_mode cap (starts_with dev ''bonding'')
       in if missing \<noteq> []
          then Inl (Invalid (''device '' @ quoted dev @
                 '' does not support the CTP-RM mode these examples run; missing: '' @
                 join '', '' missing @ ''; device supports: '' @ show_DeviceCap cap))
          else Inr ())"

section \<open>The parameterised preflight\<close>

record ModeArgs =
  ma_dev :: string
  ma_mode :: TransMode
  ma_tp :: TpType
  ma_multi_path :: bool
  ma_priority :: "u8 option"

definition missing_combo :: "DeviceCap \<Rightarrow> TransMode \<Rightarrow> TpType \<Rightarrow> string list" where
  "missing_combo cap mode tp =
     (if \<not> supports_mode cap mode then [''transport mode '' @ tm_name mode]
      else if \<not> supports cap mode tp
      then [''tp type '' @ tp_name tp @ '' for '' @ tm_name mode @
            (if tp = Ctp \<and> ctp (tp_cap cap mode) \<and> \<not> dev_ctp_en cap
             then '' (the mode allows CTP but the device feature ctp_en is off)'' else [])]
      else [])"

definition preflight :: "(string \<Rightarrow> DeviceCap result) \<Rightarrow> ModeArgs
    \<Rightarrow> (TransMode \<times> TpType \<times> bool \<times> DeviceCap) result" where
  "preflight query m =
     (let mode = ma_mode m; tp = ma_tp m;
          multi_path = (ma_multi_path m \<or> starts_with (ma_dev m) ''bonding'')
      in rbind (query (ma_dev m)) (\<lambda>cap.
         let missing = missing_combo cap mode tp;
             (missing, multi_path) =
               (if multi_path \<and> \<not> supports_multi_path cap mode
                then if ma_multi_path m
                     then (missing @ [''multi-path for '' @ tm_name mode], multi_path)
                     else (missing, False)
                else (missing, multi_path))
         in if missing \<noteq> []
            then Inl (Invalid (''device '' @ quoted (ma_dev m) @
                   '' does not support it; missing: '' @ join '', '' missing))
            else Inr (mode, tp, multi_path, cap)))"

definition resolve_priority :: "ModeArgs \<Rightarrow> DeviceCap \<Rightarrow> TpType \<Rightarrow> u8" where
  "resolve_priority m cap tp =
     (case ma_priority m of Some p \<Rightarrow> p
      | None \<Rightarrow> (case priority_for cap tp of Some p \<Rightarrow> p | None \<Rightarrow> URMA_MAX_PRIORITY))"

section \<open>Lemmas\<close>

lemma missing_combo_empty: "missing_combo cap mode tp = [] \<longleftrightarrow> supports cap mode tp"
  by (auto simp: missing_combo_def supports_iff)

lemma missing_fixed_mode_empty:
  "missing_fixed_mode cap b = [] \<longleftrightarrow>
     supports cap Rm Ctp \<and> (if b then supports_multi_path cap Rm else True)"
  by (auto simp: missing_fixed_mode_def supports_iff)

section \<open>Properties\<close>

text \<open>
  On check_mode_support. The fixed-mode check passes exactly when the query succeeds, the
  device supports RM with CTP (mode bit, capability bit and device gate) and, for a device whose
  name starts with "bonding", RM multi-path; a query error is returned as it is.
\<close>

theorem check_mode_support_iff:
  "(check_mode_support query dev = Inr () \<longleftrightarrow>
      (\<exists>cap. query dev = Inr cap \<and> supports_mode cap Rm \<and> ctp (rm_tp_cap cap) \<and> dev_ctp_en cap
        \<and> (if starts_with dev ''bonding'' then rm_multi_path cap else True)))
   \<and> check_mode_support (\<lambda>_. Inl e) dev = Inl e"
  by (cases "query dev")
    (auto simp: check_mode_support_def Let_def missing_fixed_mode_empty supports_iff)

text \<open>
  On preflight: The parameterised check succeeds exactly when the device supports the
  requested mode and tp type and, if multi-path was asked for on the command line, multi-path
  for the mode; it then returns the request with multi-path on when it was asked for or the
  device is a bonding one, but never on a mode without multi-path support.
\<close>

theorem preflight_iff:
  "preflight query m = Inr (mode, tp, mp, cap) \<longleftrightarrow>
     query (ma_dev m) = Inr cap \<and> mode = ma_mode m \<and> tp = ma_tp m \<and> supports cap mode tp
     \<and> (if ma_multi_path m then supports_multi_path cap mode else True)
     \<and> mp = ((ma_multi_path m \<or> starts_with (ma_dev m) ''bonding'') \<and> supports_multi_path cap mode)"
  by (cases "query (ma_dev m)")
    (auto simp: preflight_def Let_def missing_combo_empty split: if_splits)

text \<open>
  On resolve_priority. The priority slot of a run never exceeds 15, given that an explicit
  one does not and the capability has the 16 slots of its array.
\<close>

theorem resolve_priority_in_range:
  assumes "\<And>p. ma_priority m = Some p \<Longrightarrow> p \<le> URMA_MAX_PRIORITY"
    and "length (priority_tp cap) = unat URMA_MAX_PRIORITY_CNT"
  shows "resolve_priority m cap tp \<le> URMA_MAX_PRIORITY"
proof (cases "ma_priority m")
  case None
  have "of_nat i \<le> URMA_MAX_PRIORITY" if "position (tp_class tp) (priority_tp cap) = Some i" for i
    using that assms(2)
    by (auto simp: position_Some_iff ffi_const word_le_nat_alt unat_of_nat)
  with None show ?thesis
    by (auto simp: resolve_priority_def priority_for_def split: option.split)
next
  case (Some p)
  with assms(1) show ?thesis by (simp add: resolve_priority_def)
qed

theorem resolve_priority_in_range_witness:
  "resolve_priority \<lparr>ma_dev = ''udma2'', ma_mode = Rm, ma_tp = Ctp, ma_multi_path = False,
      ma_priority = Some 3\<rparr> (DeviceCap_from_raw demo_cap) Ctp \<le> URMA_MAX_PRIORITY"
  by (rule resolve_priority_in_range)
    (simp_all add: ffi_const DeviceCap_from_raw_def demo_cap_def)

end
