(* ===== verification/Contract.thy ===== *)
theory Contract
  imports Provider "HOL-Library.Multiset"
begin

text \<open>
  The contract of the library as a relation between a state's log and the multiset of live
  objects: \<open>tracks s T ini\<close> says that, as long as the library itself never handed out a live
  address, the log obeys the contract and leaves exactly the objects \<open>T\<close> live. One lemma per
  kind of event.
\<close>

type_synonym entry = "robj \<times> robj list"

definition tracks :: "('w, 'x) world_scheme \<Rightarrow> entry multiset \<Rightarrow> bool \<Rightarrow> bool" where
  "tracks s T ini \<longleftrightarrow> (honest (event_log s) \<longrightarrow>
     (\<exists>p. prun proto_init (event_log s) = Some p \<and> mset (p_live p) = T \<and> p_inited p = ini
        \<and> distinct (map fst (p_live p))))"

definition objs_in :: "entry multiset \<Rightarrow> robj set" where
  "objs_in T = fst ` set_mset T"

definition closed :: "entry multiset \<Rightarrow> bool" where
  "closed T \<longleftrightarrow> (\<forall>e \<in># T. set (snd e) \<subseteq> objs_in T)"

lemma objs_in_simps [simp]:
  "objs_in {#} = {}" "objs_in (add_mset e T) = insert (fst e) (objs_in T)"
  "objs_in (T + T') = objs_in T \<union> objs_in T'"
  by (auto simp: objs_in_def)

lemma closed_add: "closed T \<Longrightarrow> set deps \<subseteq> objs_in T \<Longrightarrow> closed (add_mset (obj, deps) T)"
  by (auto simp: closed_def)

lemma tracks_step:
  assumes "tracks s T ini"
    and "\<And>p. mset (p_live p) = T \<Longrightarrow> p_inited p = ini \<Longrightarrow> distinct (map fst (p_live p)) \<Longrightarrow>
           set (p_live p) = set_mset T \<Longrightarrow> live_after [] (event_log s) = map fst (p_live p) \<Longrightarrow>
           honest (event_log s @ [e]) \<Longrightarrow>
           \<exists>p'. pstep p e = Some p' \<and> mset (p_live p') = T' \<and> p_inited p' = ini'
              \<and> distinct (map fst (p_live p'))"
  shows "tracks (record_event e (set_lib l s)) T' ini'"
proof (unfold tracks_def, intro impI)
  assume h: "honest (event_log (record_event e (set_lib l s)))"
  then have "honest (event_log s)" by (auto dest: honest_prefix)
  then obtain p where p: "prun proto_init (event_log s) = Some p" "mset (p_live p) = T"
      "p_inited p = ini" "distinct (map fst (p_live p))"
    using assms(1) by (auto simp: tracks_def)
  moreover have "set (p_live p) = set_mset T" using p(2) by (metis set_mset_mset)
  moreover have "live_after [] (event_log s) = map fst (p_live p)"
    using prun_live_after [OF p(1)] by (simp add: proto_init_def)
  ultimately show "\<exists>p. prun proto_init (event_log (record_event e (set_lib l s))) = Some p
      \<and> mset (p_live p) = T' \<and> p_inited p = ini' \<and> distinct (map fst (p_live p))"
    using assms(2) [of p] h by (simp add: prun_snoc)
qed

lemma tracks_use:
  assumes "tracks s T ini" and "set objs \<subseteq> objs_in T"
  shows "tracks (record_event (EUse objs) (set_lib l s)) T ini"
  using assms(1)
  by (rule tracks_step) (use assms(2) in \<open>auto simp: list_all_iff live_def objs_in_def\<close>)

lemma tracks_create:
  assumes "tracks s T ini" and "set deps \<subseteq> objs_in T" and "is_ctx obj \<Longrightarrow> ini"
  shows "tracks (record_event (ECreate obj deps) (set_lib l s)) (add_mset (obj, deps) T) ini"
  using assms(1)
  by (rule tracks_step)
    (use assms(2,3) in \<open>auto simp: list_all_iff live_def objs_in_def honest_def fresh_log_append\<close>)

lemma mset_remove_obj:
  assumes "distinct (map fst tbl)" and "mset tbl = add_mset (obj, deps) T"
  shows "mset (remove_obj obj tbl) = T" and "obj \<notin> objs_in T"
proof -
  have "(obj, deps) \<in> set tbl" using assms(2) by (metis set_mset_mset union_single_eq_member)
  then obtain xs ys where split: "tbl = xs @ (obj, deps) # ys" by (meson split_list)
  with assms(1) have no: "obj \<notin> fst ` set xs" "obj \<notin> fst ` set ys" by auto
  have keep: "filter (\<lambda>e. fst e \<noteq> obj) zs = zs" if "obj \<notin> fst ` set zs" for zs :: "entry list"
    using that by (intro filter_True) force
  have T: "T = mset (xs @ ys)" using assms(2) split by simp
  show "mset (remove_obj obj tbl) = T" using keep no by (simp add: remove_obj_def split T)
  show "obj \<notin> objs_in T" using no by (auto simp: T objs_in_def)
qed

lemma tracks_delete:
  assumes "tracks s (add_mset (obj, deps) T) ini" and "closed T" and "obj \<notin> set deps"
  shows "tracks (record_event (EDelete obj) (set_lib l s)) T ini"
  using assms(1)
proof (rule tracks_step)
  fix p :: proto
  assume p: "mset (p_live p) = add_mset (obj, deps) T" "p_inited p = ini"
    "distinct (map fst (p_live p))" "set (p_live p) = set_mset (add_mset (obj, deps) T)"
  note rem = mset_remove_obj [OF p(3,1)]
  have "\<not> in_use p obj"
    using assms(2,3) rem(2) by (force simp: in_use_def list_ex_iff p(4) closed_def)
  moreover have "live p obj" by (simp add: live_def p(4))
  moreover have "distinct (map fst (remove_obj obj (p_live p)))"
    using p(3) by (simp add: map_fst_remove_obj)
  ultimately show "\<exists>p'. pstep p (EDelete obj) = Some p' \<and> mset (p_live p') = T
      \<and> p_inited p' = ini \<and> distinct (map fst (p_live p'))"
    using rem(1) p(2) by simp
qed

lemma tracks_uninit:
  assumes "tracks s T True" and "\<And>e. e \<in># T \<Longrightarrow> \<not> is_ctx (fst e)"
  shows "tracks (record_event EUninit (set_lib l s)) T False"
  using assms(1) by (rule tracks_step) (use assms(2) in \<open>auto simp: list_all_iff\<close>)

lemma tracks_init: "tracks s T False \<Longrightarrow> tracks (record_event EInit (set_lib l s)) T True"
  by (erule tracks_step) auto

lemma tracks_cong: "event_log s = event_log s' \<Longrightarrow> tracks s T i = tracks s' T i"
  by (simp add: tracks_def)

section \<open>The wrappers\<close>

lemma call_create_fail:
  assumes "call_create f mk deps s = (0, s')" and "tracks s T ini" and "set deps \<subseteq> objs_in T"
  shows "tracks s' T ini"
  using assms(1) tracks_use [OF assms(2,3)] by (auto simp: call_create_def split: prod.splits if_splits)

lemma call_create_ok:
  assumes "call_create f mk deps s = (p, s')" and "p \<noteq> 0" and "tracks s T ini"
    and "set deps \<subseteq> objs_in T" and "is_ctx (mk p) \<Longrightarrow> ini"
  shows "tracks s' (add_mset (mk p, deps) T) ini"
  using assms(1,2) tracks_create [OF assms(3,4,5)]
  by (auto simp: call_create_def split: prod.splits if_splits)

lemma call_create_out_fail:
  assumes "call_create_out f mk deps s = (0, out, s')" and "tracks s T ini" and "set deps \<subseteq> objs_in T"
  shows "tracks s' T ini"
  using assms(1) tracks_use [OF assms(2,3)]
  by (auto simp: call_create_out_def split: prod.splits if_splits)

lemma call_create_out_ok:
  assumes "call_create_out f mk deps s = (p, out, s')" and "p \<noteq> 0" and "tracks s T ini"
    and "set deps \<subseteq> objs_in T" and "is_ctx (mk p) \<Longrightarrow> ini"
  shows "tracks s' (add_mset (mk p, deps) T) ini"
  using assms(1,2) tracks_create [OF assms(3,4,5)]
  by (auto simp: call_create_out_def split: prod.splits if_splits)

lemma call_delete_tracks:
  "tracks s (add_mset (obj, deps) T) ini \<Longrightarrow> closed T \<Longrightarrow> obj \<notin> set deps \<Longrightarrow>
     tracks (call_delete f obj s) T ini"
  by (simp add: call_delete_def tracks_delete)

lemma call_use_tracks:
  "call_use f objs s = (r, s') \<Longrightarrow> tracks s T ini \<Longrightarrow> set objs \<subseteq> objs_in T \<Longrightarrow> tracks s' T ini"
  using tracks_use by (fastforce simp: call_use_def split: prod.splits)

end
