(* ===== verification/Ownership.thy ===== *)
theory Ownership
  imports Endpoints Contract
begin

text \<open>
  Why the crate's destruction order is right. The values a program owns are a multiset; the
  invariant says that every strong count is the number of handles to its cell (owned ones, the
  ones inside other cells, and the thread's slot) and that the log of library calls keeps to the
  contract, with exactly the objects live that the owned values and the live cells stand for.
  A lemma per operation shows that it keeps the invariant; dropping a child is shown by moving
  the handle it holds into the owned values and dropping that.
\<close>

section \<open>Owned values\<close>

datatype val =
    VUrma Urma
  | VCtx Context
  | VCq CompletionQueue
  | VJetty Jetty
  | VBuf PageBuf
  | VSeg RegisteredSeg
  | VPeer Peer

fun drop_val :: "'w liburma \<Rightarrow> val \<Rightarrow> 'w heap \<Rightarrow> 'w heap" where
  "drop_val L (VUrma u) s = drop_urma L u s"
| "drop_val L (VCtx c) s = drop_ctx L c s"
| "drop_val L (VCq q) s = drop_cq L q s"
| "drop_val L (VJetty j) s = drop_jetty L j s"
| "drop_val L (VBuf b) s = drop_PageBuf L b s"
| "drop_val L (VSeg g) s = drop_seg L g s"
| "drop_val L (VPeer p) s = drop_peer L p s"

fun refs_urma :: "nat \<Rightarrow> val \<Rightarrow> bool" where
  "refs_urma i (VUrma u) = (urma_inner u = i)"
| "refs_urma i _ = False"

fun refs_ctx :: "nat \<Rightarrow> val \<Rightarrow> bool" where
  "refs_ctx i (VCtx c) = (ctx_inner c = i)"
| "refs_ctx i (VSeg g) = (ctx_inner (rs_ctx g) = i)"
| "refs_ctx i (VPeer p) = (ctx_inner (peer_ctx p) = i)"
| "refs_ctx i _ = False"

fun refs_cq :: "nat \<Rightarrow> val \<Rightarrow> bool" where
  "refs_cq i (VCq q) = (cq_inner q = i)"
| "refs_cq i (VJetty j) = (cq_inner (j_cq j) = i)"
| "refs_cq i _ = False"

section \<open>Counts\<close>

definition ustrong :: "'w heap \<Rightarrow> nat \<Rightarrow> nat" where
  "ustrong s i = (if i < length (urma_cells s) then urma_cells s ! i else 0)"

definition cstrong :: "'w heap \<Rightarrow> nat \<Rightarrow> nat" where
  "cstrong s i = (if i < length (ctx_cells s) then cc_strong (ctx_cells s ! i) else 0)"

definition qstrong :: "'w heap \<Rightarrow> nat \<Rightarrow> nat" where
  "qstrong s i = (if i < length (cq_cells s) then qc_strong (cq_cells s ! i) else 0)"

definition one_if :: "bool \<Rightarrow> nat" where
  "one_if b = (if b then 1 else 0)"

definition live_ctx_of :: "nat \<Rightarrow> ctx_cell \<Rightarrow> bool" where
  "live_ctx_of i c \<longleftrightarrow> cc_strong c > 0 \<and> cc_urma c = i"

definition live_cq_of :: "nat \<Rightarrow> cq_cell \<Rightarrow> bool" where
  "live_cq_of i q \<longleftrightarrow> qc_strong q > 0 \<and> ctx_inner (qc_ctx q) = i"

definition urma_refs :: "val multiset \<Rightarrow> 'w heap \<Rightarrow> nat \<Rightarrow> nat" where
  "urma_refs V s i = (\<Sum>v\<in>#V. one_if (refs_urma i v)) + one_if (init_slot s = Some i)
     + (\<Sum>c\<leftarrow>ctx_cells s. one_if (live_ctx_of i c))"

definition ctx_refs :: "val multiset \<Rightarrow> 'w heap \<Rightarrow> nat \<Rightarrow> nat" where
  "ctx_refs V s i = (\<Sum>v\<in>#V. one_if (refs_ctx i v)) + (\<Sum>q\<leftarrow>cq_cells s. one_if (live_cq_of i q))"

definition cq_refs :: "val multiset \<Rightarrow> 'w heap \<Rightarrow> nat \<Rightarrow> nat" where
  "cq_refs V s i = (\<Sum>v\<in>#V. one_if (refs_cq i v))"

definition counts_ok :: "val multiset \<Rightarrow> 'w heap \<Rightarrow> bool" where
  "counts_ok V s \<longleftrightarrow>
     (\<forall>i. ustrong s i = urma_refs V s i) \<and> (\<forall>i. cstrong s i = ctx_refs V s i)
     \<and> (\<forall>i. qstrong s i = cq_refs V s i)"

section \<open>Objects\<close>

definition raws :: "'w heap \<Rightarrow> ptr list" where
  "raws s = map cc_raw (ctx_cells s)"

definition cq_ctxs :: "'w heap \<Rightarrow> nat list" where
  "cq_ctxs s = map (\<lambda>q. ctx_inner (qc_ctx q)) (cq_cells s)"

definition jfcs :: "'w heap \<Rightarrow> ptr list" where
  "jfcs s = map qc_jfc (cq_cells s)"

definition ctx_objs :: "ctx_cell \<Rightarrow> entry multiset" where
  "ctx_objs c = (if cc_strong c > 0 then {#(OCtx (cc_raw c), [])#} else {#})"

definition cq_pair :: "ptr \<Rightarrow> ptr \<Rightarrow> ptr \<Rightarrow> entry multiset" where
  "cq_pair r jfce jfc = {#(OJfce jfce, [OCtx r]), (OJfc jfc, [OCtx r, OJfce jfce])#}"

definition cq_objs :: "ptr list \<Rightarrow> cq_cell \<Rightarrow> entry multiset" where
  "cq_objs R q = (if qc_strong q > 0 then cq_pair (R ! ctx_inner (qc_ctx q)) (qc_jfce q) (qc_jfc q) else {#})"

definition jetty_pair :: "ptr \<Rightarrow> ptr \<Rightarrow> ptr \<Rightarrow> ptr \<Rightarrow> entry multiset" where
  "jetty_pair r jfc jfr raw = {#(OJfr jfr, [OCtx r, OJfc jfc]), (OJetty raw, [OCtx r, OJfr jfr, OJfc jfc])#}"

definition buf_objs :: "PageBuf option \<Rightarrow> entry multiset" where
  "buf_objs b = (case b of None \<Rightarrow> {#} | Some b \<Rightarrow> {#(OMem (pb_ptr b), [])#})"

fun val_objs :: "ptr list \<Rightarrow> nat list \<Rightarrow> ptr list \<Rightarrow> val \<Rightarrow> entry multiset" where
  "val_objs R Q J (VJetty j) = jetty_pair (R ! (Q ! cq_inner (j_cq j))) (J ! cq_inner (j_cq j)) (j_jfr j) (j_raw j)"
| "val_objs R Q J (VBuf b) = buf_objs (Some b)"
| "val_objs R Q J (VSeg g) =
     add_mset (OSeg (rs_tseg g), OCtx (R ! ctx_inner (rs_ctx g)) # buf_deps (rs_buf g)) (buf_objs (rs_buf g))"
| "val_objs R Q J (VPeer p) =
     {#(OImpSeg (peer_tseg p), [OCtx (R ! ctx_inner (peer_ctx p))]),
       (OImpJetty (peer_tjetty p), [OCtx (R ! ctx_inner (peer_ctx p))])#}"
| "val_objs R Q J _ = {#}"

definition objs_of :: "val multiset \<Rightarrow> 'w heap \<Rightarrow> entry multiset" where
  "objs_of V s = (\<Sum>c\<leftarrow>ctx_cells s. ctx_objs c) + (\<Sum>q\<leftarrow>cq_cells s. cq_objs (raws s) q)
     + (\<Sum>v\<in>#V. val_objs (raws s) (cq_ctxs s) (jfcs s) v)"

section \<open>The invariant\<close>

definition slot_ok :: "bool \<Rightarrow> 'w heap \<Rightarrow> bool" where
  "slot_ok ex s \<longleftrightarrow> length (urma_cells s) \<le> 1 \<and> (init_slot s = None \<longrightarrow> urma_cells s = [] \<or> ex)
     \<and> (ex \<longrightarrow> init_slot s = None)"

definition inv :: "bool \<Rightarrow> entry multiset \<Rightarrow> val multiset \<Rightarrow> 'w heap \<Rightarrow> bool" where
  "inv ex X V s \<longleftrightarrow> counts_ok V s \<and> slot_ok ex s \<and> tracks s (objs_of V s + X) (\<exists>i. ustrong s i > 0)"

section \<open>What the parts of the invariant depend on\<close>

definition cells :: "'w heap \<Rightarrow> nat list \<times> nat option \<times> ctx_cell list \<times> cq_cell list" where
  "cells s = (urma_cells s, init_slot s, ctx_cells s, cq_cells s)"

lemma cells_log [simp]:
  "cells (record_event e s) = cells s" "cells (set_lib l s) = cells s"
  "cells (call_delete f obj s) = cells s"
  by (simp_all add: cells_def record_event_def set_lib_def call_delete_def)

lemma cells_create:
  "call_create f mk deps s = (p, s') \<Longrightarrow> cells s' = cells s"
  "call_create_out g mk deps s = (p, out, s') \<Longrightarrow> cells s' = cells s"
  "call_use h objs s = (r, s') \<Longrightarrow> cells s' = cells s"
  by (auto simp: call_create_def call_create_out_def call_use_def split: prod.splits)

named_theorems state_defs "the state projections of the invariant"

lemmas [state_defs] = ustrong_def cstrong_def qstrong_def urma_refs_def ctx_refs_def cq_refs_def
  objs_of_def raws_def cq_ctxs_def jfcs_def

lemma cells_cong:
  assumes "cells s' = cells s"
  shows "counts_ok V s' = counts_ok V s" "slot_ok ex s' = slot_ok ex s" "objs_of V s' = objs_of V s"
    "ustrong s' = ustrong s" "cstrong s' = cstrong s" "qstrong s' = qstrong s" "raws s' = raws s"
    "cq_ctxs s' = cq_ctxs s" "jfcs s' = jfcs s"
proof -
  have [simp]: "urma_cells s' = urma_cells s" "init_slot s' = init_slot s"
    "ctx_cells s' = ctx_cells s" "cq_cells s' = cq_cells s"
    using assms by (simp_all add: cells_def)
  show "ustrong s' = ustrong s" "cstrong s' = cstrong s" "qstrong s' = qstrong s" "raws s' = raws s"
    "cq_ctxs s' = cq_ctxs s" "jfcs s' = jfcs s" "slot_ok ex s' = slot_ok ex s"
    by (rule ext | simp add: state_defs slot_ok_def)+
  then show "objs_of V s' = objs_of V s" "counts_ok V s' = counts_ok V s"
    by (simp_all add: objs_of_def counts_ok_def urma_refs_def ctx_refs_def cq_refs_def)
qed

lemma inv_transfer:
  assumes "inv ex X V s" and "cells s' = cells s"
    and "tracks s (objs_of V s + X) (\<exists>i. ustrong s i > 0) \<Longrightarrow>
         tracks s' (objs_of V s + Y) (\<exists>i. ustrong s i > 0)"
  shows "inv ex Y V s'"
  using assms(1,3) by (simp add: inv_def cells_cong [OF assms(2)])

section \<open>Liveness of what is referenced\<close>

lemma sum_one_if_pos: "x \<in># V \<Longrightarrow> P x \<Longrightarrow> 0 < (\<Sum>v\<in>#V. one_if (P v))"
  by (auto simp: one_if_def dest!: multi_member_split)

lemma sum_list_one_if_pos: "x \<in> set xs \<Longrightarrow> P x \<Longrightarrow> 0 < (\<Sum>v\<leftarrow>xs. one_if (P v))"
  by (auto simp: one_if_def dest!: split_list)

lemma counts_live:
  assumes "counts_ok V s"
  shows "v \<in># V \<Longrightarrow> refs_urma i v \<Longrightarrow> 0 < ustrong s i"
    and "v \<in># V \<Longrightarrow> refs_ctx i v \<Longrightarrow> 0 < cstrong s i"
    and "v \<in># V \<Longrightarrow> refs_cq i v \<Longrightarrow> 0 < qstrong s i"
    and "c \<in> set (ctx_cells s) \<Longrightarrow> live_ctx_of i c \<Longrightarrow> 0 < ustrong s i"
    and "q \<in> set (cq_cells s) \<Longrightarrow> live_cq_of i q \<Longrightarrow> 0 < cstrong s i"
proof -
  have eq: "ustrong s i = urma_refs V s i" "cstrong s i = ctx_refs V s i" "qstrong s i = cq_refs V s i"
    using assms by (simp_all add: counts_ok_def)
  show "v \<in># V \<Longrightarrow> refs_urma i v \<Longrightarrow> 0 < ustrong s i"
    using sum_one_if_pos [of v V "refs_urma i"] by (simp add: eq urma_refs_def)
  show "v \<in># V \<Longrightarrow> refs_ctx i v \<Longrightarrow> 0 < cstrong s i"
    using sum_one_if_pos [of v V "refs_ctx i"] by (simp add: eq ctx_refs_def)
  show "v \<in># V \<Longrightarrow> refs_cq i v \<Longrightarrow> 0 < qstrong s i"
    using sum_one_if_pos [of v V "refs_cq i"] by (simp add: eq cq_refs_def)
  show "c \<in> set (ctx_cells s) \<Longrightarrow> live_ctx_of i c \<Longrightarrow> 0 < ustrong s i"
    using sum_list_one_if_pos [of c "ctx_cells s" "live_ctx_of i"] by (simp add: eq urma_refs_def)
  show "q \<in> set (cq_cells s) \<Longrightarrow> live_cq_of i q \<Longrightarrow> 0 < cstrong s i"
    using sum_list_one_if_pos [of q "cq_cells s" "live_cq_of i"] by (simp add: eq ctx_refs_def)
qed

lemma cstrong_pos_iff: "0 < cstrong s i \<longleftrightarrow> i < length (ctx_cells s) \<and> 0 < cc_strong (ctx_cells s ! i)"
  and qstrong_pos_iff: "0 < qstrong s i \<longleftrightarrow> i < length (cq_cells s) \<and> 0 < qc_strong (cq_cells s ! i)"
  and ustrong_pos_iff: "0 < ustrong s i \<longleftrightarrow> i < length (urma_cells s) \<and> 0 < urma_cells s ! i"
  by (auto simp: state_defs)

lemma set_mset_sum_list: "set_mset (\<Sum>x\<leftarrow>xs. f x) = (\<Union>x\<in>set xs. set_mset (f x))"
  by (induction xs) auto

lemma objs_in_objs_of:
  "objs_in (objs_of V s) = (\<Union>c\<in>set (ctx_cells s). objs_in (ctx_objs c))
     \<union> (\<Union>q\<in>set (cq_cells s). objs_in (cq_objs (raws s) q))
     \<union> (\<Union>v\<in>set_mset V. objs_in (val_objs (raws s) (cq_ctxs s) (jfcs s) v))"
  by (simp add: objs_of_def objs_in_def set_mset_sum_list image_UN image_Un)

lemma live_ctx_in:
  assumes "0 < cstrong s i"
  shows "OCtx (raws s ! i) \<in> objs_in (objs_of V s)"
proof -
  have i: "i < length (ctx_cells s)" "0 < cc_strong (ctx_cells s ! i)"
    using assms by (simp_all add: cstrong_pos_iff)
  then have "OCtx (raws s ! i) \<in> objs_in (ctx_objs (ctx_cells s ! i))"
    by (simp add: ctx_objs_def raws_def)
  then show ?thesis using nth_mem [OF i(1)] unfolding objs_in_objs_of by blast
qed

lemma live_cq_in:
  assumes "0 < qstrong s i"
  shows "OJfc (jfcs s ! i) \<in> objs_in (objs_of V s)"
proof -
  have i: "i < length (cq_cells s)" "0 < qc_strong (cq_cells s ! i)"
    using assms by (simp_all add: qstrong_pos_iff)
  then have "OJfc (jfcs s ! i) \<in> objs_in (cq_objs (raws s) (cq_cells s ! i))"
    by (simp add: cq_objs_def cq_pair_def jfcs_def)
  then show ?thesis using nth_mem [OF i(1)] unfolding objs_in_objs_of by blast
qed

lemma live_cq_ctx: "counts_ok V s \<Longrightarrow> 0 < qstrong s i \<Longrightarrow> 0 < cstrong s (cq_ctxs s ! i)"
  using counts_live(5) [of V s "cq_cells s ! i"]
  by (auto simp: qstrong_pos_iff live_cq_of_def cq_ctxs_def)

end
