(* ===== verification/Destruction.thy ===== *)
theory Destruction
  imports Ownership
begin

text \<open>
  Cloning and dropping handles keeps the invariant: the lemmas on strong counts, and one lemma
  per \<open>Drop\<close> of the crate.
\<close>

section \<open>The live objects are closed under dependency\<close>

lemma closed_objs:
  assumes "counts_ok V s"
  shows "closed (objs_of V s)"
proof -
  let ?S = "objs_in (objs_of V s)"
  have ctx: "OCtx (raws s ! i) \<in> ?S" if "0 < cstrong s i" for i
    using that by (rule live_ctx_in)
  have cq: "OJfc (jfcs s ! i) \<in> ?S" "OCtx (raws s ! (cq_ctxs s ! i)) \<in> ?S" if "0 < qstrong s i" for i
    using that live_cq_in ctx live_cq_ctx [OF assms] by auto
  have 1: "set (snd e) \<subseteq> ?S" if "e \<in># ctx_objs c" for e c
    using that by (auto simp: ctx_objs_def split: if_splits)
  have 2: "set (snd e) \<subseteq> ?S" if q: "q \<in> set (cq_cells s)" and e: "e \<in># cq_objs (raws s) q" for e q
  proof -
    have live: "0 < qc_strong q" using e by (auto simp: cq_objs_def split: if_splits)
    then have "0 < cstrong s (ctx_inner (qc_ctx q))"
      using counts_live(5) [OF assms q] by (simp add: live_cq_of_def)
    then have "OCtx (raws s ! ctx_inner (qc_ctx q)) \<in> ?S" by (rule ctx)
    moreover have "OJfce (qc_jfce q) \<in> ?S"
      using q live unfolding objs_in_objs_of by (force simp: cq_objs_def cq_pair_def)
    ultimately show ?thesis using e by (auto simp: cq_objs_def cq_pair_def split: if_splits)
  qed
  have 3: "set (snd e) \<subseteq> ?S"
    if v: "v \<in># V" and e: "e \<in># val_objs (raws s) (cq_ctxs s) (jfcs s) v" for e v
  proof -
    have self: "objs_in (val_objs (raws s) (cq_ctxs s) (jfcs s) v) \<subseteq> ?S"
      using v unfolding objs_in_objs_of by blast
    show ?thesis
    proof (cases v)
      case (VJetty j)
      then show ?thesis
        using e self cq [of "cq_inner (j_cq j)"] counts_live(3) [OF assms v, of "cq_inner (j_cq j)"]
        by (auto simp: jetty_pair_def)
    next
      case (VSeg g)
      then show ?thesis
        using e self ctx [of "ctx_inner (rs_ctx g)"] counts_live(2) [OF assms v, of "ctx_inner (rs_ctx g)"]
        by (auto simp: buf_objs_def buf_deps_def split: option.splits)
    next
      case (VPeer p)
      then show ?thesis
        using e self ctx [of "ctx_inner (peer_ctx p)"] counts_live(2) [OF assms v, of "ctx_inner (peer_ctx p)"]
        by auto
    qed (use e in \<open>auto simp: buf_objs_def\<close>)
  qed
  show ?thesis
    unfolding closed_def
  proof
    fix e assume "e \<in># objs_of V s"
    then consider c where "c \<in> set (ctx_cells s)" "e \<in># ctx_objs c"
      | q where "q \<in> set (cq_cells s)" "e \<in># cq_objs (raws s) q"
      | v where "v \<in># V" "e \<in># val_objs (raws s) (cq_ctxs s) (jfcs s) v"
      by (auto simp: objs_of_def set_mset_sum_list)
    then show "set (snd e) \<subseteq> ?S"
      using 1 2 3 by cases blast+
  qed
qed

section \<open>Changing a strong count\<close>

lemma urma_strong_set:
  assumes "i < length (urma_cells s)"
  shows "ustrong (set_urma_strong i n s) j = (if j = i then n else ustrong s j)"
    "cstrong (set_urma_strong i n s) = cstrong s" "qstrong (set_urma_strong i n s) = qstrong s"
    "objs_of V (set_urma_strong i n s) = objs_of V s"
    "urma_refs V (set_urma_strong i n s) = urma_refs V s"
    "ctx_refs V (set_urma_strong i n s) = ctx_refs V s"
    "cq_refs V (set_urma_strong i n s) = cq_refs V s"
    "event_log (set_urma_strong i n s) = event_log s"
    "slot_ok ex (set_urma_strong i n s) = slot_ok ex s"
  using assms by (auto simp: set_urma_strong_def state_defs slot_ok_def fun_eq_iff)

lemma ctx_strong_set:
  fixes n :: nat and s :: "'w heap"
  assumes i: "i < length (ctx_cells s)" and live: "0 < cc_strong (ctx_cells s ! i)"
  defines "s' \<equiv> set_ctx_strong i n s"
  shows "cstrong s' j = (if j = i then n else cstrong s j)"
    "ustrong s' = ustrong s" "qstrong s' = qstrong s" "raws s' = raws s" "cq_ctxs s' = cq_ctxs s"
    "jfcs s' = jfcs s" "ctx_refs V s' = ctx_refs V s" "cq_refs V s' = cq_refs V s"
    "event_log s' = event_log s" "slot_ok ex s' = slot_ok ex s"
    "0 < n \<Longrightarrow> objs_of V s' = objs_of V s" "0 < n \<Longrightarrow> urma_refs V s' = urma_refs V s"
    "n = 0 \<Longrightarrow> objs_of V s = add_mset (OCtx (cc_raw (ctx_cells s ! i)), []) (objs_of V s')"
    "n = 0 \<Longrightarrow> urma_refs V s k = urma_refs V s' k + one_if (cc_urma (ctx_cells s ! i) = k)"
proof -
  let ?c = "ctx_cells s ! i"
  let ?d = "?c\<lparr>cc_strong := n\<rparr>"
  have cells: "ctx_cells s' = (ctx_cells s)[i := ?d]" "cq_cells s' = cq_cells s"
    "urma_cells s' = urma_cells s" "init_slot s' = init_slot s"
    by (simp_all add: s'_def set_ctx_strong_def)
  have raws: "raws s' = raws s"
    unfolding raws_def cells by (rule map_update_same) simp
  show "cstrong s' j = (if j = i then n else cstrong s j)"
    using i by (auto simp: cstrong_def cells)
  show "ustrong s' = ustrong s" "qstrong s' = qstrong s" "cq_ctxs s' = cq_ctxs s" "jfcs s' = jfcs s"
    "ctx_refs V s' = ctx_refs V s" "cq_refs V s' = cq_refs V s" "slot_ok ex s' = slot_ok ex s"
    by (auto simp: state_defs cells slot_ok_def)
  then have env: "cq_ctxs s' = cq_ctxs s" "jfcs s' = jfcs s" by simp_all
  show "raws s' = raws s" by (rule raws)
  show "event_log s' = event_log s" by (simp add: s'_def set_ctx_strong_def)
  show "objs_of V s' = objs_of V s" if "0 < n"
  proof -
    have "map ctx_objs (ctx_cells s') = map ctx_objs (ctx_cells s)"
      unfolding cells using that live by (intro map_update_same) (simp add: ctx_objs_def)
    then show ?thesis by (simp add: objs_of_def raws env cells(2))
  qed
  show "urma_refs V s' = urma_refs V s" if "0 < n"
  proof
    fix k
    have "map (\<lambda>c. one_if (live_ctx_of k c)) (ctx_cells s') = map (\<lambda>c. one_if (live_ctx_of k c)) (ctx_cells s)"
      unfolding cells using that live by (intro map_update_same) (simp add: live_ctx_of_def)
    then show "urma_refs V s' k = urma_refs V s k" by (simp add: urma_refs_def cells(4))
  qed
  show "objs_of V s = add_mset (OCtx (cc_raw ?c), []) (objs_of V s')" if "n = 0"
  proof -
    have "(\<Sum>c\<leftarrow>ctx_cells s. ctx_objs c) = add_mset (OCtx (cc_raw ?c), []) (\<Sum>c\<leftarrow>ctx_cells s'. ctx_objs c)"
    proof -
      have "ctx_objs ?c = {#(OCtx (cc_raw ?c), [])#}" "ctx_objs ?d = {#}"
        using that live by (simp_all add: ctx_objs_def)
      then show ?thesis using sum_list_map_update [OF i, of ctx_objs ?d] by (simp add: cells)
    qed
    then show ?thesis by (simp add: objs_of_def raws env cells(2))
  qed
  show "urma_refs V s k = urma_refs V s' k + one_if (cc_urma ?c = k)" if "n = 0"
    using sum_list_map_update [OF i, of "\<lambda>c. one_if (live_ctx_of k c)" ?d] that live
    by (simp add: urma_refs_def cells live_ctx_of_def one_if_def)
qed

lemma cq_strong_set:
  fixes n :: nat and s :: "'w heap"
  assumes i: "i < length (cq_cells s)" and live: "0 < qc_strong (cq_cells s ! i)"
  defines "s' \<equiv> set_cq_strong i n s"
  shows "qstrong s' j = (if j = i then n else qstrong s j)"
    "ustrong s' = ustrong s" "cstrong s' = cstrong s" "raws s' = raws s" "cq_ctxs s' = cq_ctxs s"
    "jfcs s' = jfcs s" "urma_refs V s' = urma_refs V s" "cq_refs V s' = cq_refs V s"
    "event_log s' = event_log s" "slot_ok ex s' = slot_ok ex s"
    "0 < n \<Longrightarrow> objs_of V s' = objs_of V s" "0 < n \<Longrightarrow> ctx_refs V s' = ctx_refs V s"
    "n = 0 \<Longrightarrow> objs_of V s = cq_pair (raws s ! ctx_inner (qc_ctx (cq_cells s ! i)))
       (qc_jfce (cq_cells s ! i)) (qc_jfc (cq_cells s ! i)) + objs_of V s'"
    "n = 0 \<Longrightarrow> ctx_refs V s k = ctx_refs V s' k + one_if (ctx_inner (qc_ctx (cq_cells s ! i)) = k)"
proof -
  let ?c = "cq_cells s ! i"
  let ?d = "?c\<lparr>qc_strong := n\<rparr>"
  have cells: "cq_cells s' = (cq_cells s)[i := ?d]" "ctx_cells s' = ctx_cells s"
    "urma_cells s' = urma_cells s" "init_slot s' = init_slot s"
    by (simp_all add: s'_def set_cq_strong_def)
  have env: "raws s' = raws s" "cq_ctxs s' = cq_ctxs s" "jfcs s' = jfcs s"
    unfolding raws_def cq_ctxs_def jfcs_def cells by (simp_all add: map_update_same)
  show "qstrong s' j = (if j = i then n else qstrong s j)"
    using i by (auto simp: qstrong_def cells)
  show "ustrong s' = ustrong s" "cstrong s' = cstrong s"
    "urma_refs V s' = urma_refs V s" "cq_refs V s' = cq_refs V s" "slot_ok ex s' = slot_ok ex s"
    by (auto simp: state_defs cells slot_ok_def)
  show "raws s' = raws s" "cq_ctxs s' = cq_ctxs s" "jfcs s' = jfcs s" by (rule env)+
  show "event_log s' = event_log s" by (simp add: s'_def set_cq_strong_def)
  show "objs_of V s' = objs_of V s" if "0 < n"
  proof -
    have "map (cq_objs (raws s)) (cq_cells s') = map (cq_objs (raws s)) (cq_cells s)"
      unfolding cells using that live by (intro map_update_same) (simp add: cq_objs_def)
    then show ?thesis by (simp add: objs_of_def env cells(2))
  qed
  show "ctx_refs V s' = ctx_refs V s" if "0 < n"
  proof
    fix k
    have "map (\<lambda>c. one_if (live_cq_of k c)) (cq_cells s') = map (\<lambda>c. one_if (live_cq_of k c)) (cq_cells s)"
      unfolding cells using that live by (intro map_update_same) (simp add: live_cq_of_def)
    then show "ctx_refs V s' k = ctx_refs V s k" by (simp add: ctx_refs_def)
  qed
  show "objs_of V s = cq_pair (raws s ! ctx_inner (qc_ctx ?c)) (qc_jfce ?c) (qc_jfc ?c) + objs_of V s'"
    if "n = 0"
  proof -
    have "(\<Sum>q\<leftarrow>cq_cells s. cq_objs (raws s) q) = (\<Sum>q\<leftarrow>cq_cells s'. cq_objs (raws s) q)
        + cq_pair (raws s ! ctx_inner (qc_ctx ?c)) (qc_jfce ?c) (qc_jfc ?c)"
    proof -
      have "cq_objs (raws s) ?c = cq_pair (raws s ! ctx_inner (qc_ctx ?c)) (qc_jfce ?c) (qc_jfc ?c)"
        "cq_objs (raws s) ?d = {#}"
        using that live by (simp_all add: cq_objs_def)
      then show ?thesis using sum_list_map_update [OF i, of "cq_objs (raws s)" ?d] by (simp add: cells)
    qed
    then show ?thesis by (simp add: objs_of_def env cells(2) ac_simps)
  qed
  show "ctx_refs V s k = ctx_refs V s' k + one_if (ctx_inner (qc_ctx ?c) = k)" if "n = 0"
    using sum_list_map_update [OF i, of "\<lambda>c. one_if (live_cq_of k c)" ?d] that live
    by (simp add: ctx_refs_def cells live_cq_of_def one_if_def)
qed

section \<open>Owning one more value\<close>

lemma refs_add [simp]:
  "urma_refs (add_mset v V) s i = one_if (refs_urma i v) + urma_refs V s i"
  "ctx_refs (add_mset v V) s i = one_if (refs_ctx i v) + ctx_refs V s i"
  "cq_refs (add_mset v V) s i = one_if (refs_cq i v) + cq_refs V s i"
  by (simp_all add: urma_refs_def ctx_refs_def cq_refs_def)

lemma objs_of_add:
  "objs_of (add_mset v V) s = val_objs (raws s) (cq_ctxs s) (jfcs s) v + objs_of V s"
  by (simp add: objs_of_def ac_simps)

lemma objs_of_handles [simp]:
  "objs_of (add_mset (VUrma u) V) s = objs_of V s"
  "objs_of (add_mset (VCtx c) V) s = objs_of V s"
  "objs_of (add_mset (VCq q) V) s = objs_of V s"
  by (simp_all add: objs_of_add)

lemma invD:
  assumes "inv ex X V s"
  shows "counts_ok V s" "slot_ok ex s" "tracks s (objs_of V s + X) (\<exists>i. ustrong s i > 0)"
  using assms by (simp_all add: inv_def)

lemma inv_same_log:
  assumes "inv ex X V s" and "event_log s' = event_log s" and "slot_ok ex s' = slot_ok ex s"
    and "(\<exists>i. ustrong s' i > 0) = (\<exists>i. ustrong s i > 0)"
    and "objs_of V' s' + Y = objs_of V s + X" and "counts_ok V' s'"
  shows "inv ex Y V' s'"
  using assms(1) unfolding inv_def assms(3-5) tracks_cong [OF assms(2)] using assms(6) by blast

lemma strong_eq:
  "counts_ok V s \<Longrightarrow> i < length (urma_cells s) \<Longrightarrow> urma_cells s ! i = urma_refs V s i"
  "counts_ok V s \<Longrightarrow> i < length (ctx_cells s) \<Longrightarrow> cc_strong (ctx_cells s ! i) = ctx_refs V s i"
  "counts_ok V s \<Longrightarrow> i < length (cq_cells s) \<Longrightarrow> qc_strong (cq_cells s ! i) = cq_refs V s i"
  unfolding counts_ok_def ustrong_def cstrong_def qstrong_def by presburger+

lemma one_if_simps [simp]: "one_if True = 1" "one_if False = 0"
  by (simp_all add: one_if_def)

lemma inv_clone_urma:
  assumes "inv ex X V s" and "0 < ustrong s (urma_inner u)"
  shows "inv ex X (add_mset (VUrma u) V) (snd (clone_urma u s))"
proof -
  let ?i = "urma_inner u"
  define n where "n = Suc (urma_cells s ! urma_inner u)"
  note I = invD [OF assms(1)]
  have i: "?i < length (urma_cells s)" using assms(2) by (simp add: ustrong_pos_iff)
  note st = urma_strong_set [OF i, where n = n]
  have "counts_ok (add_mset (VUrma u) V) (set_urma_strong ?i n s)"
    using I(1) strong_eq(1) [OF I(1) i] unfolding counts_ok_def st refs_add
    by (auto simp: one_if_def n_def)
  moreover have "0 < ustrong (set_urma_strong ?i n s) ?i" by (simp add: st(1)) (simp add: n_def)
  then have "(\<exists>k. 0 < ustrong (set_urma_strong ?i n s) k) = (\<exists>k. 0 < ustrong s k)"
    using assms(2) by blast
  ultimately have "inv ex X (add_mset (VUrma u) V) (set_urma_strong ?i n s)"
    by (intro inv_same_log [OF assms(1)]) (simp_all add: st)
  then show ?thesis by (simp add: clone_urma_def n_def)
qed

lemma inv_clone_ctx:
  assumes "inv ex X V s" and "0 < cstrong s (ctx_inner c)"
  shows "inv ex X (add_mset (VCtx c) V) (snd (clone_ctx c s))"
proof -
  let ?i = "ctx_inner c"
  define n where "n = Suc (cc_strong (ctx_cells s ! ctx_inner c))"
  note I = invD [OF assms(1)]
  have i: "?i < length (ctx_cells s)" "0 < cc_strong (ctx_cells s ! ?i)"
    using assms(2) by (simp_all add: cstrong_pos_iff)
  have np: "0 < n" by (simp add: n_def)
  note st = ctx_strong_set [OF i, where n = n]
  have "counts_ok (add_mset (VCtx c) V) (set_ctx_strong ?i n s)"
    using I(1) strong_eq(2) [OF I(1) i(1)] unfolding counts_ok_def st(1-10) st(11,12) [OF np] refs_add
    by (auto simp: one_if_def n_def)
  then have "inv ex X (add_mset (VCtx c) V) (set_ctx_strong ?i n s)"
    by (rule inv_same_log [OF assms(1), rotated -1]) (simp_all add: st np)
  then show ?thesis by (simp add: clone_ctx_def n_def)
qed

lemma inv_clone_cq:
  assumes "inv ex X V s" and "0 < qstrong s (cq_inner q)"
  shows "inv ex X (add_mset (VCq q) V) (snd (clone_cq q s))"
proof -
  let ?i = "cq_inner q"
  define n where "n = Suc (qc_strong (cq_cells s ! cq_inner q))"
  note I = invD [OF assms(1)]
  have i: "?i < length (cq_cells s)" "0 < qc_strong (cq_cells s ! ?i)"
    using assms(2) by (simp_all add: qstrong_pos_iff)
  have np: "0 < n" by (simp add: n_def)
  note st = cq_strong_set [OF i, where n = n]
  have "counts_ok (add_mset (VCq q) V) (set_cq_strong ?i n s)"
    using I(1) strong_eq(3) [OF I(1) i(1)] unfolding counts_ok_def st(1-10) st(11,12) [OF np] refs_add
    by (auto simp: one_if_def n_def)
  then have "inv ex X (add_mset (VCq q) V) (set_cq_strong ?i n s)"
    by (rule inv_same_log [OF assms(1), rotated -1]) (simp_all add: st np)
  then show ?thesis by (simp add: clone_cq_def n_def)
qed

section \<open>Deleting an object\<close>

lemma inv_delete:
  assumes "inv ex (add_mset (obj, deps) X) V s" and "closed (objs_of V s + X)" and "obj \<notin> set deps"
  shows "inv ex X V (call_delete f obj s)"
  using assms(1)
proof (rule inv_transfer)
  assume "tracks s (objs_of V s + add_mset (obj, deps) X) (\<exists>i. 0 < ustrong s i)"
  then show "tracks (call_delete f obj s) (objs_of V s + X) (\<exists>i. 0 < ustrong s i)"
    using call_delete_tracks [OF _ assms(2,3)] by simp
qed simp

lemma closed_ctx_dep:
  assumes "counts_ok V s" and "\<And>e. e \<in># X \<Longrightarrow> set (snd e) \<subseteq> objs_in (objs_of V s)"
  shows "closed (objs_of V s + X)"
  using closed_objs [OF assms(1)] assms(2) unfolding closed_def by fastforce

section \<open>Dropping a value\<close>

lemma val_objs_not_ctx: "e \<in># val_objs R Q J v \<Longrightarrow> \<not> is_ctx (fst e)"
  by (cases v) (auto simp: jetty_pair_def buf_objs_def split: option.splits)

lemma ctx_entry_cell:
  assumes "e \<in># objs_of V s" and "is_ctx (fst e)"
  obtains c where "c \<in> set (ctx_cells s)" "e \<in># ctx_objs c"
  using assms
  by (auto dest: val_objs_not_ctx simp: objs_of_def set_mset_sum_list cq_objs_def cq_pair_def split: if_splits)

lemma inv_drop_urma:
  assumes inv: "inv ex {#} (add_mset (VUrma u) V) s"
  shows "inv ex {#} V (drop_urma L u s)"
proof -
  let ?i = "urma_inner u"
  define n where "n = urma_cells s ! urma_inner u - Suc 0"
  let ?s = "set_urma_strong ?i n s"
  note I = invD [OF inv]
  have pos: "0 < ustrong s ?i" using counts_live(1) [OF I(1), of "VUrma u"] by simp
  then have i: "?i < length (urma_cells s)" "0 < urma_cells s ! ?i" by (simp_all add: ustrong_pos_iff)
  note st = urma_strong_set [OF i(1), where n = n]
  have cnt: "counts_ok V ?s"
    using I(1) strong_eq(1) [OF I(1) i(1)] unfolding counts_ok_def st refs_add
    by (auto simp: one_if_def n_def)
  have slot: "slot_ok ex ?s" using I(2) by (simp add: st)
  have tr: "tracks ?s (objs_of V ?s) True"
    using I(3) pos by (auto simp: st tracks_def)
  show ?thesis
  proof (cases "n = 0")
    case False
    then have "\<exists>k. ustrong ?s k > 0" by (auto simp: st)
    then show ?thesis
      using False cnt slot tr by (simp add: drop_urma_def Let_def n_def inv_def)
  next
    case True
    have "ustrong s k = 0" if "k \<noteq> ?i" for k
      using I(2) i(1) that by (auto simp: slot_ok_def ustrong_def)
    then have dead: "ustrong ?s k = 0" for k
      unfolding st(1) using True by simp
    have no_ctx: "\<not> is_ctx (fst e)" if e: "e \<in># objs_of V ?s" for e
    proof
      assume ctx: "is_ctx (fst e)"
      with e obtain c where "c \<in> set (ctx_cells ?s)" "live_ctx_of (cc_urma c) c"
        by (elim ctx_entry_cell) (auto simp: ctx_objs_def live_ctx_of_def split: if_splits)
      then show False using counts_live(4) [OF cnt] dead by fastforce
    qed
    have "inv ex {#} V (ffi_uninit L ?s)"
    proof -
      have c: "cells (ffi_uninit L ?s) = cells ?s" by (simp add: ffi_uninit_def)
      have "tracks (ffi_uninit L ?s) (objs_of V ?s) False"
        unfolding ffi_uninit_def using tr no_ctx by (rule tracks_uninit)
      then show ?thesis using cnt slot dead by (simp add: inv_def cells_cong [OF c])
    qed
    then show ?thesis using True by (simp add: drop_urma_def Let_def n_def)
  qed
qed

lemma inv_drop_ctx:
  assumes inv: "inv ex {#} (add_mset (VCtx c) V) s"
  shows "inv ex {#} V (drop_ctx L c s)"
proof -
  let ?i = "ctx_inner c" and ?cell = "ctx_cells s ! ctx_inner c"
  define n where "n = cc_strong ?cell - Suc 0"
  let ?s = "set_ctx_strong ?i n s"
  let ?U = "VUrma \<lparr>urma_inner = cc_urma ?cell\<rparr>"
  note I = invD [OF inv]
  have pos: "0 < cstrong s ?i" using counts_live(2) [OF I(1), of "VCtx c"] by simp
  then have i: "?i < length (ctx_cells s)" "0 < cc_strong ?cell" by (simp_all add: cstrong_pos_iff)
  note st = ctx_strong_set [OF i, where n = n]
  show ?thesis
  proof (cases "n = 0")
    case False
    then have np: "0 < n" by simp
    have "counts_ok V ?s"
      using I(1) strong_eq(2) [OF I(1) i(1)] unfolding counts_ok_def st(1-10) st(11,12) [OF np] refs_add
      by (auto simp: one_if_def n_def)
    then have "inv ex {#} V ?s"
      by (rule inv_same_log [OF inv, rotated -1]) (use False in \<open>simp_all add: st\<close>)
    then show ?thesis using False by (simp add: drop_ctx_def Let_def n_def)
  next
    case True
    have cnt: "counts_ok (add_mset ?U V) ?s"
    proof -
      have "urma_refs V s k = urma_refs V ?s k + one_if (cc_urma ?cell = k)" for k
        using True by (rule st(14))
      then show ?thesis
        using I(1) strong_eq(2) [OF I(1) i(1)] n_def True unfolding counts_ok_def st(1-10) refs_add
        by (auto simp: one_if_def)
    qed
    have T: "objs_of V s = add_mset (OCtx (cc_raw ?cell), []) (objs_of V ?s)"
      using True by (rule st(13))
    have X: "inv ex {#(OCtx (cc_raw ?cell), [])#} (add_mset ?U V) ?s"
      using I(2,3) cnt by (simp add: inv_def st(2,9,10) T tracks_def)
    have "inv ex {#} (add_mset ?U V)
        (call_delete (\<lambda>l. snd (l_delete_context L (cc_raw ?cell) l)) (OCtx (cc_raw ?cell)) ?s)"
      by (rule inv_delete [OF X]) (use closed_objs [OF cnt] in simp_all)
    then show ?thesis
      using True by (simp add: drop_ctx_def Let_def n_def inv_drop_urma)
  qed
qed

lemma inv_drop_cq:
  assumes inv: "inv ex {#} (add_mset (VCq q) V) s"
  shows "inv ex {#} V (drop_cq L q s)"
proof -
  let ?i = "cq_inner q" and ?cell = "cq_cells s ! cq_inner q"
  define n where "n = qc_strong ?cell - Suc 0"
  let ?s = "set_cq_strong ?i n s"
  let ?C = "VCtx (qc_ctx ?cell)" and ?r = "raws s ! ctx_inner (qc_ctx ?cell)"
  let ?jfce = "(OJfce (qc_jfce ?cell), [OCtx ?r])"
  note I = invD [OF inv]
  have pos: "0 < qstrong s ?i" using counts_live(3) [OF I(1), of "VCq q"] by simp
  then have i: "?i < length (cq_cells s)" "0 < qc_strong ?cell" by (simp_all add: qstrong_pos_iff)
  note st = cq_strong_set [OF i, where n = n]
  show ?thesis
  proof (cases "n = 0")
    case False
    then have np: "0 < n" by simp
    have "counts_ok V ?s"
      using I(1) strong_eq(3) [OF I(1) i(1)] unfolding counts_ok_def st(1-10) st(11,12) [OF np] refs_add
      by (auto simp: one_if_def n_def)
    then have "inv ex {#} V ?s"
      by (rule inv_same_log [OF inv, rotated -1]) (use False in \<open>simp_all add: st\<close>)
    then show ?thesis using False by (simp add: drop_cq_def Let_def n_def)
  next
    case True
    have cnt: "counts_ok (add_mset ?C V) ?s"
    proof -
      have "ctx_refs V s k = ctx_refs V ?s k + one_if (ctx_inner (qc_ctx ?cell) = k)" for k
        using True by (rule st(14))
      then show ?thesis
        using I(1) strong_eq(3) [OF I(1) i(1)] n_def True unfolding counts_ok_def st(1-10) refs_add
        by (auto simp: one_if_def)
    qed
    have r: "OCtx ?r \<in> objs_in (objs_of (add_mset ?C V) ?s)"
      using counts_live(2) [OF cnt, of ?C] live_ctx_in [of ?s] st(4) by (metis refs_ctx.simps(1) union_single_eq_member)
    have T: "objs_of V s = cq_pair ?r (qc_jfce ?cell) (qc_jfc ?cell) + objs_of V ?s"
      using True by (rule st(13))
    let ?s1 = "call_delete (\<lambda>l. snd (l_delete_jfc L (qc_jfc ?cell) l)) (OJfc (qc_jfc ?cell)) ?s"
    let ?s2 = "call_delete (\<lambda>l. snd (l_delete_jfce L (qc_jfce ?cell) l)) (OJfce (qc_jfce ?cell)) ?s1"
    have X: "inv ex {#(OJfc (qc_jfc ?cell), [OCtx ?r, OJfce (qc_jfce ?cell)]), ?jfce#} (add_mset ?C V) ?s"
      using I(2,3) cnt by (simp add: inv_def st(2,9,10) T tracks_def cq_pair_def add_mset_commute)
    have s1: "inv ex {#?jfce#} (add_mset ?C V) ?s1"
      by (rule inv_delete [OF X]) (use closed_ctx_dep [OF cnt, of "{#?jfce#}"] r in simp_all)
    have "inv ex {#} (add_mset ?C V) ?s2"
    proof (rule inv_delete [OF s1])
      show "closed (objs_of (add_mset ?C V) ?s1 + {#})"
        using closed_objs [OF invD(1) [OF s1]] by simp
    qed simp
    then show ?thesis
      using True by (simp add: drop_cq_def Let_def n_def inv_drop_ctx)
  qed
qed

text \<open>
  The other \<open>Drop\<close>s first delete their own objects; what remains of the value is the handle it
  holds (and the buffer of a registered one).
\<close>

lemma counts_holder:
  "counts_ok (add_mset (VJetty j) V) s = counts_ok (add_mset (VCq (j_cq j)) V) s"
  "counts_ok (add_mset (VSeg g) V) s = counts_ok (add_mset (VCtx (rs_ctx g)) V) s"
  "counts_ok (add_mset (VPeer p) V) s = counts_ok (add_mset (VCtx (peer_ctx p)) V) s"
  by (simp_all add: counts_ok_def)

lemma counts_buf [simp]: "counts_ok (add_mset (VBuf b) V) s = counts_ok V s"
  by (simp add: counts_ok_def)

lemma inv_swap:
  assumes "inv ex X (add_mset v V) s" and "counts_ok (V' + V) s"
    and "objs_of (V' + V) s + Y = objs_of (add_mset v V) s + X"
  shows "inv ex Y (V' + V) s"
  using assms by (simp add: inv_def)

lemma inv_drop_jetty:
  assumes inv: "inv ex {#} (add_mset (VJetty j) V) s"
  shows "inv ex {#} V (drop_jetty L j s)"
proof -
  let ?q = "j_cq j"
  let ?r = "raws s ! (cq_ctxs s ! cq_inner ?q)" and ?jfc = "jfcs s ! cq_inner ?q"
  let ?jfr = "(OJfr (j_jfr j), [OCtx ?r, OJfc ?jfc])"
  let ?s1 = "call_delete (\<lambda>l. snd (l_delete_jetty L (j_raw j) l)) (OJetty (j_raw j)) s"
  let ?s2 = "call_delete (\<lambda>l. snd (l_delete_jfr L (j_jfr j) l)) (OJfr (j_jfr j)) ?s1"
  have cnt: "counts_ok (add_mset (VCq ?q) V) s"
    using invD(1) [OF inv] counts_holder(1) by blast
  have "0 < qstrong s (cq_inner ?q)" using counts_live(3) [OF cnt, of "VCq ?q"] by simp
  then have live: "OCtx ?r \<in> objs_in (objs_of V s)" "OJfc ?jfc \<in> objs_in (objs_of V s)"
    using live_cq_ctx [OF cnt] live_ctx_in live_cq_in by auto
  have "inv ex {#(OJetty (j_raw j), [OCtx ?r, OJfr (j_jfr j), OJfc ?jfc]), ?jfr#} (add_mset (VCq ?q) V) s"
    using inv_swap [OF inv, of "{#VCq ?q#}"] cnt by (simp add: objs_of_add jetty_pair_def)
  then have s1: "inv ex {#?jfr#} (add_mset (VCq ?q) V) ?s1"
    by (rule inv_delete) (use closed_ctx_dep [OF cnt, of "{#?jfr#}"] live in simp_all)
  have "inv ex {#} (add_mset (VCq ?q) V) ?s2"
    by (rule inv_delete [OF s1]) (use closed_objs [OF invD(1) [OF s1]] in simp_all)
  then show ?thesis by (simp add: drop_jetty_def Let_def inv_drop_cq)
qed

lemma inv_drop_PageBuf:
  assumes inv: "inv ex {#} (add_mset (VBuf b) V) s"
  shows "inv ex {#} V (drop_PageBuf L b s)"
proof -
  have "inv ex {#(OMem (pb_ptr b), [])#} V s"
    using inv_swap [OF inv, of "{#}"] invD(1) [OF inv] by (simp add: objs_of_add buf_objs_def)
  then show ?thesis
    unfolding drop_PageBuf_def
    by (rule inv_delete) (use closed_objs [of V s] invD(1) [OF inv] in simp_all)
qed

definition buf_vals :: "PageBuf option \<Rightarrow> val multiset" where
  "buf_vals b = (case b of None \<Rightarrow> {#} | Some b \<Rightarrow> {#VBuf b#})"

lemma objs_of_buf_vals [simp]: "objs_of (buf_vals b + V) s = buf_objs b + objs_of V s"
  by (cases b) (simp_all add: buf_vals_def buf_objs_def objs_of_add)

lemma counts_buf_vals [simp]: "counts_ok (buf_vals b + V) s = counts_ok V s"
  by (cases b) (simp_all add: buf_vals_def)

lemma counts_add_buf_vals [simp]:
  "counts_ok (add_mset v (buf_vals b + V)) s = counts_ok (add_mset v V) s"
  by (cases b) (simp_all add: buf_vals_def add_mset_commute [of v])

lemma inv_drop_buf:
  "inv ex {#} (buf_vals b + V) s \<Longrightarrow> inv ex {#} V (drop_buf L b s)"
  by (cases b) (simp_all add: drop_buf_def buf_vals_def inv_drop_PageBuf)

lemma inv_drop_seg:
  assumes inv: "inv ex {#} (add_mset (VSeg g) V) s"
  shows "inv ex {#} V (drop_seg L g s)"
proof -
  let ?C = "VCtx (rs_ctx g)"
  let ?V = "add_mset ?C (buf_vals (rs_buf g) + V)"
  let ?s1 = "call_delete (\<lambda>l. snd (l_unregister_seg L (rs_tseg g) l)) (OSeg (rs_tseg g)) s"
  have "counts_ok (add_mset ?C V) s"
    using invD(1) [OF inv] counts_holder(2) by blast
  then have cnt: "counts_ok ?V s"
    by simp
  have "inv ex {#(OSeg (rs_tseg g), OCtx (raws s ! ctx_inner (rs_ctx g)) # buf_deps (rs_buf g))#} ?V s"
    using inv_swap [OF inv, of "add_mset ?C (buf_vals (rs_buf g))"] cnt by (simp add: objs_of_add)
  then have "inv ex {#} ?V ?s1"
    by (rule inv_delete) (use closed_objs [OF cnt] in \<open>auto simp: buf_deps_def split: option.splits\<close>)
  then have "inv ex {#} (buf_vals (rs_buf g) + V) (drop_ctx L (rs_ctx g) ?s1)"
    by (rule inv_drop_ctx)
  then show ?thesis by (simp add: drop_seg_def Let_def inv_drop_buf)
qed

lemma inv_drop_peer:
  assumes inv: "inv ex {#} (add_mset (VPeer p) V) s"
  shows "inv ex {#} V (drop_peer L p s)"
proof -
  let ?C = "VCtx (peer_ctx p)" and ?r = "raws s ! ctx_inner (peer_ctx p)"
  let ?seg = "(OImpSeg (peer_tseg p), [OCtx ?r])"
  let ?s1 = "call_delete (\<lambda>l. snd (l_unimport_jetty L (peer_tjetty p) l)) (OImpJetty (peer_tjetty p)) s"
  let ?s2 = "call_delete (\<lambda>l. snd (l_unimport_seg L (peer_tseg p) l)) (OImpSeg (peer_tseg p)) ?s1"
  have cnt: "counts_ok (add_mset ?C V) s"
    using invD(1) [OF inv] counts_holder(3) by blast
  then have live: "OCtx ?r \<in> objs_in (objs_of V s)"
    using counts_live(2) [OF cnt, of ?C] live_ctx_in by simp
  have "inv ex {#(OImpJetty (peer_tjetty p), [OCtx ?r]), ?seg#} (add_mset ?C V) s"
    using inv_swap [OF inv, of "{#?C#}"] cnt by (simp add: objs_of_add add_mset_commute)
  then have s1: "inv ex {#?seg#} (add_mset ?C V) ?s1"
    by (rule inv_delete) (use closed_ctx_dep [OF cnt, of "{#?seg#}"] live in simp_all)
  have "inv ex {#} (add_mset ?C V) ?s2"
    by (rule inv_delete [OF s1]) (use closed_objs [OF invD(1) [OF s1]] in simp_all)
  then show ?thesis by (simp add: drop_peer_def Let_def inv_drop_ctx)
qed

lemma inv_drop_val: "inv ex {#} (add_mset v V) s \<Longrightarrow> inv ex {#} V (drop_val L v s)"
  by (cases v)
    (simp_all add: inv_drop_urma inv_drop_ctx inv_drop_cq inv_drop_jetty inv_drop_PageBuf
      inv_drop_seg inv_drop_peer)

text \<open>At thread exit the slot's guard is dropped like an owned one.\<close>

lemma inv_thread_exit:
  assumes inv: "inv ex {#} V s"
  shows "inv True {#} V (thread_exit L s)"
proof (cases "init_slot s")
  case None
  then show ?thesis using inv by (auto simp: thread_exit_def inv_def slot_ok_def)
next
  case (Some i)
  let ?s = "s\<lparr>init_slot := None\<rparr>"
  have same: "ustrong ?s = ustrong s" "cstrong ?s = cstrong s" "qstrong ?s = qstrong s"
    "ctx_refs V ?s = ctx_refs V s" "cq_refs V ?s = cq_refs V s" "objs_of V ?s = objs_of V s"
    for V by (simp_all add: state_defs fun_eq_iff)
  have refs: "urma_refs V s k = one_if (i = k) + urma_refs V ?s k" for k
    using Some by (auto simp: urma_refs_def one_if_def)
  have "counts_ok (add_mset (VUrma \<lparr>urma_inner = i\<rparr>) V) ?s"
    using invD(1) [OF inv] by (simp add: counts_ok_def same refs)
  then have "inv True {#} (add_mset (VUrma \<lparr>urma_inner = i\<rparr>) V) ?s"
    using invD(2,3) [OF inv] by (simp add: inv_def slot_ok_def same tracks_def)
  then show ?thesis by (simp add: thread_exit_def Some inv_drop_urma)
qed

end
