(* ===== verification/Creation.thy ===== *)
theory Creation
  imports Destruction
begin

text \<open>
  Every creating operation keeps the invariant, on success and on each of its error paths: what
  it returns is one more owned value, and an error leaves nothing behind.
\<close>

section \<open>Library calls\<close>

lemma inv_create_ok:
  assumes "call_create f mk deps s = (p, s')" and "p \<noteq> 0" and "inv ex X V s"
    and "set deps \<subseteq> objs_in (objs_of V s + X)" and "is_ctx (mk p) \<Longrightarrow> \<exists>i. ustrong s i > 0"
  shows "inv ex (add_mset (mk p, deps) X) V s'"
  using assms(3) cells_create(1) [OF assms(1)]
  by (rule inv_transfer) (use call_create_ok [OF assms(1,2) _ assms(4,5)] in simp)

lemma inv_create_fail:
  assumes "call_create f mk deps s = (0, s')" and "inv ex X V s"
    and "set deps \<subseteq> objs_in (objs_of V s + X)"
  shows "inv ex X V s'"
  using assms(2) cells_create(1) [OF assms(1)]
  by (rule inv_transfer) (use call_create_fail [OF assms(1) _ assms(3)] in simp)

lemma inv_create_out_ok:
  assumes "call_create_out f mk deps s = (p, out, s')" and "p \<noteq> 0" and "inv ex X V s"
    and "set deps \<subseteq> objs_in (objs_of V s + X)" and "\<not> is_ctx (mk p)"
  shows "inv ex (add_mset (mk p, deps) X) V s'"
  using assms(3) cells_create(2) [OF assms(1)]
  by (rule inv_transfer) (use call_create_out_ok [OF assms(1,2) _ assms(4)] assms(5) in simp)

lemma inv_create_out_fail:
  assumes "call_create_out f mk deps s = (0, out, s')" and "inv ex X V s"
    and "set deps \<subseteq> objs_in (objs_of V s + X)"
  shows "inv ex X V s'"
  using assms(2) cells_create(2) [OF assms(1)]
  by (rule inv_transfer) (use call_create_out_fail [OF assms(1) _ assms(3)] in simp)

lemma inv_use:
  assumes "call_use f objs s = (r, s')" and "inv ex X V s" and "set objs \<subseteq> objs_in (objs_of V s + X)"
  shows "inv ex X V s'"
  using assms(2) cells_create(3) [OF assms(1)]
  by (rule inv_transfer) (use call_use_tracks [OF assms(1) _ assms(3)] in simp)

lemma inv_free:
  assumes "inv ex {#(obj, deps)#} V s" and "obj \<notin> set deps"
  shows "inv ex {#} V (call_delete f obj s)"
  using assms(1) by (rule inv_delete) (use closed_objs [OF invD(1) [OF assms(1)]] assms(2) in simp_all)

fun res_val :: "('a \<Rightarrow> val) \<Rightarrow> 'a result \<Rightarrow> val multiset" where
  "res_val mk (Inl e) = {#}"
| "res_val mk (Inr x) = {#mk x#}"

section \<open>New cells\<close>

lemma objs_stable:
  assumes cnt: "counts_ok V s"
    and ext: "raws s' = raws s @ a" "cq_ctxs s' = cq_ctxs s @ b" "jfcs s' = jfcs s @ c"
  shows "v \<in># V \<Longrightarrow> val_objs (raws s') (cq_ctxs s') (jfcs s') v = val_objs (raws s) (cq_ctxs s) (jfcs s) v"
    and "q \<in> set (cq_cells s) \<Longrightarrow> cq_objs (raws s') q = cq_objs (raws s) q"
proof -
  have len: "length (raws s) = length (ctx_cells s)" "length (cq_ctxs s) = length (cq_cells s)"
    "length (jfcs s) = length (cq_cells s)"
    by (simp_all add: raws_def cq_ctxs_def jfcs_def)
  have nth: "raws s' ! i = raws s ! i" if "0 < cstrong s i" for i
    using that by (simp add: ext nth_append len cstrong_pos_iff)
  show "cq_objs (raws s') q = cq_objs (raws s) q" if "q \<in> set (cq_cells s)"
    using nth counts_live(5) [OF cnt that] by (auto simp: cq_objs_def live_cq_of_def)
  show "val_objs (raws s') (cq_ctxs s') (jfcs s') v = val_objs (raws s) (cq_ctxs s) (jfcs s) v"
    if v: "v \<in># V"
  proof (cases v)
    case (VJetty j)
    then have "0 < qstrong s (cq_inner (j_cq j))" using counts_live(3) [OF cnt v] by simp
    then show ?thesis
      using VJetty nth live_cq_ctx [OF cnt] by (simp add: ext nth_append len qstrong_pos_iff)
  next
    case (VSeg g)
    then show ?thesis using nth counts_live(2) [OF cnt v] by simp
  next
    case (VPeer p)
    then show ?thesis using nth counts_live(2) [OF cnt v] by simp
  qed simp_all
qed

lemma objs_of_stable:
  assumes "counts_ok V s"
    and "raws s' = raws s @ a" "cq_ctxs s' = cq_ctxs s @ b" "jfcs s' = jfcs s @ c"
    and "ctx_cells s' = ctx_cells s @ C" "cq_cells s' = cq_cells s @ Q"
  shows "objs_of V s' = objs_of V s + (\<Sum>c\<leftarrow>C. ctx_objs c) + (\<Sum>q\<leftarrow>Q. cq_objs (raws s') q)"
proof -
  note st = objs_stable [OF assms(1-4)]
  have "(\<Sum>q\<leftarrow>cq_cells s. cq_objs (raws s') q) = (\<Sum>q\<leftarrow>cq_cells s. cq_objs (raws s) q)"
    using st(2) by (intro arg_cong [where f = sum_list] map_cong) simp_all
  moreover have "(\<Sum>v\<in>#V. val_objs (raws s') (cq_ctxs s') (jfcs s') v)
      = (\<Sum>v\<in>#V. val_objs (raws s) (cq_ctxs s) (jfcs s) v)"
    using st(1) by (intro arg_cong [where f = sum_mset] image_mset_cong) simp
  ultimately show ?thesis by (simp add: objs_of_def assms(5,6) ac_simps)
qed

lemma inv_push_ctx:
  assumes inv: "inv ex {#(OCtx raw, [])#} (add_mset (VUrma u) V) s"
  defines "cell \<equiv> \<lparr>cc_raw = raw, cc_urma = urma_inner u, cc_strong = 1\<rparr>"
  shows "inv ex {#} (add_mset (VCtx \<lparr>ctx_inner = length (ctx_cells s), ctx_eid = eid\<rparr>) V)
           (s\<lparr>ctx_cells := ctx_cells s @ [cell]\<rparr>)"
proof -
  let ?s = "s\<lparr>ctx_cells := ctx_cells s @ [cell]\<rparr>"
  note I = invD [OF inv]
  have strong: "ustrong ?s = ustrong s" "qstrong ?s = qstrong s"
    "cstrong ?s i = cstrong s i + one_if (length (ctx_cells s) = i)" for i
    by (auto simp: state_defs fun_eq_iff cell_def nth_append one_if_def)
  have refs: "ctx_refs V ?s = ctx_refs V s" "cq_refs V ?s = cq_refs V s"
    "urma_refs V ?s i = urma_refs V s i + one_if (urma_inner u = i)" for i
    by (auto simp: state_defs fun_eq_iff cell_def live_ctx_of_def)
  have cnt: "counts_ok (add_mset (VCtx \<lparr>ctx_inner = length (ctx_cells s), ctx_eid = eid\<rparr>) V) ?s"
    using I(1) by (simp add: counts_ok_def strong refs)
  have "objs_of (add_mset (VUrma u) V) ?s = objs_of (add_mset (VUrma u) V) s + ctx_objs cell"
    using objs_of_stable [OF I(1), of ?s "[raw]" "[]" "[]" "[cell]" "[]"]
    by (simp add: raws_def cq_ctxs_def jfcs_def cell_def)
  then have "objs_of V ?s = add_mset (OCtx raw, []) (objs_of V s)"
    by (simp add: ctx_objs_def cell_def)
  then show ?thesis
    using I(2,3) cnt by (simp add: inv_def slot_ok_def strong tracks_def)
qed

lemma inv_push_cq:
  assumes inv: "inv ex (cq_pair (raws s ! ctx_inner c) jfce jfc) (add_mset (VCtx c) V) s"
  defines "cell \<equiv> \<lparr>qc_jfce = jfce, qc_jfc = jfc, qc_ctx = c, qc_strong = 1\<rparr>"
  shows "inv ex {#} (add_mset (VCq \<lparr>cq_inner = length (cq_cells s)\<rparr>) V)
           (s\<lparr>cq_cells := cq_cells s @ [cell]\<rparr>)"
proof -
  let ?s = "s\<lparr>cq_cells := cq_cells s @ [cell]\<rparr>"
  note I = invD [OF inv]
  have strong: "ustrong ?s = ustrong s" "cstrong ?s = cstrong s"
    "qstrong ?s i = qstrong s i + one_if (length (cq_cells s) = i)" for i
    by (auto simp: state_defs fun_eq_iff cell_def nth_append one_if_def)
  have refs: "urma_refs V ?s = urma_refs V s" "cq_refs V ?s = cq_refs V s"
    "ctx_refs V ?s i = ctx_refs V s i + one_if (ctx_inner c = i)" for i
    by (auto simp: state_defs fun_eq_iff cell_def live_cq_of_def)
  have cnt: "counts_ok (add_mset (VCq \<lparr>cq_inner = length (cq_cells s)\<rparr>) V) ?s"
    using I(1) by (simp add: counts_ok_def strong refs)
  have raws: "raws ?s = raws s" by (simp add: raws_def)
  have "objs_of (add_mset (VCtx c) V) ?s = objs_of (add_mset (VCtx c) V) s + cq_objs (raws s) cell"
    using objs_of_stable [OF I(1), of ?s "[]" "[ctx_inner c]" "[jfc]" "[]" "[cell]"]
    by (simp add: raws_def cq_ctxs_def jfcs_def cell_def)
  then have "objs_of V ?s = objs_of V s + cq_pair (raws s ! ctx_inner c) jfce jfc"
    by (simp add: cq_objs_def cell_def)
  then show ?thesis
    using I(2,3) cnt by (simp add: inv_def slot_ok_def strong tracks_def)
qed

section \<open>The init guard and devices\<close>

lemma inv_urma_init:
  assumes "Urma_init L s = (r, s')" and inv: "inv False {#} V s"
  shows "inv False {#} (res_val VUrma r + V) s'"
proof (cases "init_slot s")
  case (Some i)
  have "0 < urma_refs V s i" using Some by (simp add: urma_refs_def)
  then have "0 < ustrong s i" using invD(1) [OF inv] by (simp add: counts_ok_def)
  then have "inv False {#} (add_mset (VUrma \<lparr>urma_inner = i\<rparr>) V) (snd (clone_urma \<lparr>urma_inner = i\<rparr> s))"
    by (intro inv_clone_urma [OF inv]) simp
  then show ?thesis using assms(1) Some by (auto simp: Urma_init_def clone_urma_def)
next
  case None
  note I = invD [OF inv]
  have none: "urma_cells s = []" using I(2) None by (simp add: slot_ok_def)
  then have dead: "ustrong s i = 0" for i by (simp add: ustrong_def)
  obtain st l where init: "l_init L \<lparr>init_token = 0, init_uasid = 0\<rparr> (lib_state s) = (st, l)"
    by (cases "l_init L \<lparr>init_token = 0, init_uasid = 0\<rparr> (lib_state s)") blast
  show ?thesis
  proof (cases "st = URMA_SUCCESS")
    case False
    then have s': "s' = set_lib l s" "res_val VUrma r = {#}"
      using assms(1) None init by (auto simp: Urma_init_def ffi_init_def check_status_def Let_def)
    have c: "cells s' = cells s" by (simp add: s')
    show ?thesis
      using I by (simp add: inv_def cells_cong [OF c] s'(2) tracks_def) (simp add: s'(1))
  next
    case True
    let ?s1 = "record_event EInit (set_lib l s)"
    have r: "r = Inr \<lparr>urma_inner = 0\<rparr>"
      and s': "s' = ?s1\<lparr>urma_cells := [2], init_slot := Some 0\<rparr>"
      using assms(1) None init True none
      by (auto simp: Urma_init_def ffi_init_def check_status_def Let_def clone_urma_def
          set_urma_strong_def record_event_def set_lib_def numeral_2_eq_2)
    have zero: "urma_refs V s i = 0" for i using I(1) dead by (simp add: counts_ok_def)
    have fields: "ctx_cells s' = ctx_cells s" "cq_cells s' = cq_cells s" "urma_cells s' = [2]"
      "init_slot s' = Some 0"
      by (simp_all add: s' record_event_def set_lib_def)
    have same: "cstrong s' = cstrong s" "qstrong s' = qstrong s" "ctx_refs V s' = ctx_refs V s"
      "cq_refs V s' = cq_refs V s" "objs_of V s' = objs_of V s"
      by (unfold cstrong_def [abs_def] qstrong_def [abs_def] ctx_refs_def [abs_def]
        cq_refs_def [abs_def] objs_of_def raws_def cq_ctxs_def jfcs_def fields) (rule refl)+
    have "urma_refs V s' i = urma_refs V s i + one_if (i = 0)" for i
      unfolding urma_refs_def fields None by (cases "i = 0") simp_all
    then have "urma_refs V s' i = one_if (i = 0)" for i by (simp add: zero)
    moreover have "ustrong s' i = (if i = 0 then 2 else 0)" for i
      by (simp add: ustrong_def fields)
    ultimately have "counts_ok (add_mset (VUrma \<lparr>urma_inner = 0\<rparr>) V) s'"
      using I(1) by (simp add: counts_ok_def same)
    moreover have "tracks s' (objs_of V s) True"
    proof -
      have "tracks ?s1 (objs_of V s) True" using I(3) dead by (intro tracks_init) simp
      then show ?thesis by (simp add: s' tracks_def)
    qed
    moreover have "\<exists>i. 0 < ustrong s' i" by (rule exI [of _ 0]) (simp add: ustrong_def fields)
    ultimately show ?thesis by (simp add: r inv_def same slot_ok_def fields)
  qed
qed

lemma inv_device_by_name:
  assumes "device_by_name L dev s = (r, s')" and "inv ex X V s"
  shows "inv ex X V s'"
proof (cases "CHR 0x00 \<in> set dev")
  case False
  obtain p s1 where use: "call_use (l_get_device_by_name L dev) [] s = (p, s1)" by force
  then have "inv ex X V s1" by (rule inv_use [OF _ assms(2)]) simp
  moreover have "s' = s1"
    using use assms(1) False by (auto simp: device_by_name_def split: if_splits)
  ultimately show ?thesis by simp
qed (use assms in \<open>simp add: device_by_name_def\<close>)

lemma inv_list_devices:
  assumes "list_devices L lossy s = (r, s')" and inv: "inv False {#} V s"
  shows "inv False {#} V s'"
proof -
  obtain r1 s1 where init: "Urma_init L s = (r1, s1)" by force
  note I1 = inv_urma_init [OF init inv]
  show ?thesis
  proof (cases r1)
    case (Inl e)
    then show ?thesis using assms(1) init I1 by (simp add: list_devices_def)
  next
    case (Inr u)
    then have I2: "inv False {#} (add_mset (VUrma u) V) s1" using I1 by simp
    obtain lst cnt s2 where get: "call_create_out (l_get_device_list L) ODevList [] s1 = (lst, cnt, s2)"
      by (metis prod_cases3)
    show ?thesis
    proof (cases "lst = 0")
      case True
      then have "inv False {#} (add_mset (VUrma u) V) s2"
        using inv_create_out_fail [of _ _ _ _ cnt s2, OF _ I2] get by simp
      then show ?thesis
        using assms(1) init Inr get True by (auto simp: list_devices_def inv_drop_urma)
    next
      case False
      have "inv False {#(ODevList lst, [])#} (add_mset (VUrma u) V) s2"
        using inv_create_out_ok [OF get False I2] by simp
      then have "inv False {#} (add_mset (VUrma u) V) (call_delete (l_free_device_list L lst) (ODevList lst) s2)"
        by (rule inv_free) simp
      then have "inv False {#} V (drop_urma L u (call_delete (l_free_device_list L lst) (ODevList lst) s2))"
        by (rule inv_drop_urma)
      then show ?thesis
        using assms(1) init Inr get False by (auto simp: list_devices_def Let_def split: if_splits)
    qed
  qed
qed

lemma inv_query_device:
  assumes "query_device L dev s = (r, s')" and inv: "inv False {#} V s"
  shows "inv False {#} V s'"
proof -
  obtain r1 s1 where init: "Urma_init L s = (r1, s1)" by force
  note I1 = inv_urma_init [OF init inv]
  show ?thesis
  proof (cases r1)
    case (Inl e)
    then show ?thesis using assms(1) init I1 by (simp add: query_device_def)
  next
    case (Inr u)
    then have I2: "inv False {#} (add_mset (VUrma u) V) s1" using I1 by simp
    obtain r2 s2 where dev: "device_by_name L dev s1 = (r2, s2)" by force
    have I3: "inv False {#} (add_mset (VUrma u) V) s2" using inv_device_by_name [OF dev I2] by simp
    show ?thesis
    proof (cases r2)
      case (Inl e)
      then show ?thesis using assms(1) init Inr dev I3 by (auto simp: query_device_def inv_drop_urma)
    next
      case (Inr p)
      obtain out s3 where q: "call_use (\<lambda>l. let (st, attr, l) = l_query_device L p l in ((st, attr), l)) [] s2 = (out, s3)"
        by (meson surj_pair)
      have "inv False {#} V (drop_urma L u s3)"
        using inv_use [OF q I3] by (simp add: inv_drop_urma)
      then show ?thesis
        using assms(1) init \<open>r1 = Inr u\<close> dev Inr q by (auto simp: query_device_def split: prod.splits)
    qed
  qed
qed

section \<open>Contexts and completion queues\<close>

lemma inv_context_create:
  assumes "Context_create L u dev s = (r, s')" and inv: "inv ex {#} V s" and u: "VUrma u \<in># V"
  shows "inv ex {#} (res_val VCtx r + V) s'"
proof -
  obtain r1 s1 where dev: "device_by_name L dev s = (r1, s1)" by force
  have I1: "inv ex {#} V s1" using inv_device_by_name [OF dev inv] by simp
  show ?thesis
  proof (cases r1)
    case (Inl e)
    then show ?thesis using assms(1) dev I1 by (auto simp: Context_create_def)
  next
    case (Inr p)
    obtain lst cnt s2 where get: "call_create_out (l_get_eid_list L p) OEidList [] s1 = (lst, cnt, s2)"
      by (metis prod_cases3)
    show ?thesis
    proof (cases "lst = 0")
      case True
      then have "inv ex {#} V s2" using inv_create_out_fail [of _ _ _ _ cnt s2, OF _ I1] get by simp
      then show ?thesis using assms(1) dev Inr get True by (auto simp: Context_create_def)
    next
      case False
      let ?s3 = "call_delete (l_free_eid_list L lst) (OEidList lst) s2"
      have "inv ex {#(OEidList lst, [])#} V s2" using inv_create_out_ok [OF get False I1] by simp
      then have I3: "inv ex {#} V ?s3" by (rule inv_free) simp
      let ?info = "l_read_eid_info L lst (lib_state s2)"
      obtain raw s4 where cr: "call_create (l_create_context L p (ei_eid_index ?info)) OCtx [] ?s3 = (raw, s4)"
        by force
      have live: "0 < ustrong ?s3 (urma_inner u)"
        using counts_live(1) [OF invD(1) [OF I3] u] by simp
      show ?thesis
      proof (cases "cnt = 0 \<or> raw = 0")
        case bad: True
        have "inv ex {#} V s4" if "raw = 0" using inv_create_fail [of _ _ _ _ s4, OF _ I3] cr that by simp
        then show ?thesis
          using assms(1) dev Inr get False cr bad I3
          by (auto simp: Context_create_def Let_def split: if_splits)
      next
        case ok: False
        then have I4: "inv ex {#(OCtx raw, [])#} V s4" using inv_create_ok [OF cr _ I3] live by auto
        have "0 < ustrong s4 (urma_inner u)" using counts_live(1) [OF invD(1) [OF I4] u] by simp
        then have "inv ex {#(OCtx raw, [])#} (add_mset (VUrma u) V) (snd (clone_urma u s4))"
          by (rule inv_clone_urma [OF I4])
        from inv_push_ctx [OF this, of "eid_raw (ei_eid ?info)"] show ?thesis
          using assms(1) dev Inr get False cr ok
          by (simp add: Context_create_def Let_def clone_urma_def) auto
      qed
    qed
  qed
qed

lemma inv_cq_new:
  assumes "CompletionQueue_new L c depth s = (r, s')" and inv: "inv ex {#} V s"
    and c: "0 < cstrong s (ctx_inner c)"
  shows "inv ex {#} (res_val VCq r + V) s'"
proof -
  let ?raw = "ctx_raw c s"
  have raw: "?raw = raws s ! ctx_inner c" using c by (simp add: ctx_raw_def raws_def cstrong_pos_iff)
  have dep: "OCtx ?raw \<in> objs_in (objs_of V s)" unfolding raw using c by (rule live_ctx_in)
  obtain jfce s1 where c1: "call_create (l_create_jfce L ?raw) OJfce [OCtx ?raw] s = (jfce, s1)" by force
  show ?thesis
  proof (cases "jfce = 0")
    case True
    then have "inv ex {#} V s1" using inv_create_fail [of _ _ _ _ s1, OF _ inv] c1 dep by simp
    then show ?thesis using assms(1) c1 True by (auto simp: CompletionQueue_new_def Let_def)
  next
    case False
    let ?cfg = "default_urma_jfc_cfg_t\<lparr>jfc_depth := depth, jfc_jfce := jfce\<rparr>"
    have I1: "inv ex {#(OJfce jfce, [OCtx ?raw])#} V s1"
      using inv_create_ok [OF c1 False inv] dep by simp
    have cs1: "cells s1 = cells s" by (rule cells_create(1) [OF c1])
    obtain jfc s2 where c2: "call_create (l_create_jfc L ?raw ?cfg) OJfc [OCtx ?raw, OJfce jfce] s1 = (jfc, s2)"
      by force
    have dep1: "set [OCtx ?raw, OJfce jfce] \<subseteq> objs_in (objs_of V s1 + {#(OJfce jfce, [OCtx ?raw])#})"
      using dep by (simp add: cells_cong [OF cs1])
    show ?thesis
    proof (cases "jfc = 0")
      case bad: True
      then have "inv ex {#(OJfce jfce, [OCtx ?raw])#} V s2"
        using inv_create_fail [of _ _ _ _ s2, OF _ I1 dep1] c2 by simp
      then have "inv ex {#} V (call_delete (\<lambda>l. snd (l_delete_jfce L jfce l)) (OJfce jfce) s2)"
        by (rule inv_free) simp
      then show ?thesis using assms(1) c1 False c2 bad by (auto simp: CompletionQueue_new_def Let_def)
    next
      case ok: False
      have I2: "inv ex (cq_pair ?raw jfce jfc) V s2"
        using inv_create_ok [OF c2 ok I1 dep1] by (simp add: cq_pair_def add_mset_commute)
      have cs2: "cells s2 = cells s" using cells_create(1) [OF c2] cs1 by simp
      let ?s3 = "snd (clone_ctx c s2)"
      have I3: "inv ex (cq_pair ?raw jfce jfc) (add_mset (VCtx c) V) ?s3"
        by (rule inv_clone_ctx [OF I2]) (simp add: cells_cong [OF cs2] c)
      have "raws ?s3 = raws s2"
        unfolding raws_def clone_ctx_def set_ctx_strong_def by (simp add: map_update_same)
      then have r3: "?raw = raws ?s3 ! ctx_inner c" by (simp add: raw cells_cong [OF cs2])
      have "inv ex (cq_pair (raws ?s3 ! ctx_inner c) jfce jfc) (add_mset (VCtx c) V) ?s3"
        using I3 unfolding r3 .
      from inv_push_cq [OF this] show ?thesis
        using assms(1) c1 False c2 ok
        by (simp add: CompletionQueue_new_def Let_def clone_ctx_def) auto
    qed
  qed
qed

section \<open>Jettys\<close>

lemma ctx_dep:
  assumes "0 < cstrong s (ctx_inner c)"
  shows "ctx_raw c s = raws s ! ctx_inner c" "OCtx (ctx_raw c s) \<in> objs_in (objs_of V s)"
proof -
  show raw: "ctx_raw c s = raws s ! ctx_inner c"
    using assms by (simp add: ctx_raw_def raws_def cstrong_pos_iff)
  show "OCtx (ctx_raw c s) \<in> objs_in (objs_of V s)"
    unfolding raw using assms by (rule live_ctx_in)
qed

lemma cq_dep:
  assumes "0 < qstrong s (cq_inner q)"
  shows "cq_jfc q s = jfcs s ! cq_inner q" "OJfc (cq_jfc q s) \<in> objs_in (objs_of V s)"
proof -
  show jfc: "cq_jfc q s = jfcs s ! cq_inner q"
    using assms by (simp add: cq_jfc_def jfcs_def qstrong_pos_iff)
  show "OJfc (cq_jfc q s) \<in> objs_in (objs_of V s)"
    unfolding jfc using assms by (rule live_cq_in)
qed

lemma cfg_fields [simp]:
  "jfr_jfc (jetty_jfr_cfg jfc opts) = jfc" "recv_jfr (jc_recv (jetty_cfg jfr jfc opts)) = jfr"
  "jfs_jfc (jc_jfs_cfg (jetty_cfg jfr jfc opts)) = jfc"
  by (simp_all add: jetty_jfr_cfg_def jetty_cfg_def jetty_jfs_cfg_def)

text \<open>The context a jetty is created on is the one its completion queue belongs to.\<close>

definition same_ctx :: "Context \<Rightarrow> CompletionQueue \<Rightarrow> 'w heap \<Rightarrow> bool" where
  "same_ctx c q s \<longleftrightarrow> ctx_inner c = ctx_inner (qc_ctx (cq_cells s ! cq_inner q))"

lemma inv_jetty_new:
  assumes "Jetty_new L c q opts s = (r, s')" and inv: "inv ex {#} V s"
    and c: "0 < cstrong s (ctx_inner c)" and q: "0 < qstrong s (cq_inner q)"
    and same: "same_ctx c q s" and prio: "opt_priority opts \<le> URMA_MAX_PRIORITY"
  shows "inv ex {#} (res_val VJetty r + V) s'"
proof -
  let ?raw = "ctx_raw c s" and ?jfc = "cq_jfc q s"
  note dep = ctx_dep(2) [OF c, of V] cq_dep(2) [OF q, of V]
  let ?cfg = "jetty_jfr_cfg ?jfc opts"
  let ?jfrs = "\<lambda>jfr. (OJfr jfr, [OCtx ?raw, OJfc ?jfc])"
  obtain jfr s1 where c1: "call_create (l_create_jfr L ?raw ?cfg) OJfr [OCtx ?raw, OJfc ?jfc] s = (jfr, s1)"
    by force
  show ?thesis
  proof (cases "jfr = 0")
    case True
    then have "inv ex {#} V s1" using inv_create_fail [of _ _ _ _ s1, OF _ inv] c1 dep by simp
    then show ?thesis using assms(1) c1 True by (auto simp: Jetty_new_def Let_def)
  next
    case False
    have I1: "inv ex {#?jfrs jfr#} V s1" using inv_create_ok [OF c1 False inv] dep by simp
    have cs1: "cells s1 = cells s" by (rule cells_create(1) [OF c1])
    have jfc1: "cq_jfc q s1 = ?jfc" using cs1 by (simp add: cq_jfc_def cells_def)
    let ?cfg2 = "jetty_cfg jfr ?jfc opts"
    let ?deps = "[OCtx ?raw, OJfr jfr, OJfc ?jfc]"
    obtain raw s2 where c2: "call_create (l_create_jetty L ?raw ?cfg2) OJetty ?deps s1 = (raw, s2)"
      by force
    have dep1: "set ?deps \<subseteq> objs_in (objs_of V s1 + {#?jfrs jfr#})"
      using dep by (simp add: cells_cong [OF cs1])
    have eval: "Jetty_new L c q opts s =
        (if raw = 0 then (Inl (null_err L ''urma_create_jetty'' s2),
             call_delete (\<lambda>l. snd (l_delete_jfr L jfr l)) (OJfr jfr) s2)
         else (Inr \<lparr>j_jfr = jfr, j_raw = raw,
                   j_id = JettyId_from_raw (jetty_jetty_id (l_read_jetty L raw (lib_state s2))),
                   j_max_sge = opt_max_sge opts, j_cq = q\<rparr>, snd (clone_cq q s2)))"
      using c1 False c2 leD [OF prio] by (simp add: Jetty_new_def Let_def jfc1 clone_cq_def)
    show ?thesis
    proof (cases "raw = 0")
      case bad: True
      then have "inv ex {#?jfrs jfr#} V s2"
        using inv_create_fail [of _ _ _ _ s2, OF _ I1 dep1] c2 by simp
      then have "inv ex {#} V (call_delete (\<lambda>l. snd (l_delete_jfr L jfr l)) (OJfr jfr) s2)"
        by (rule inv_free) simp
      then show ?thesis using assms(1) bad by (auto simp: eval)
    next
      case ok: False
      have I2: "inv ex (jetty_pair ?raw ?jfc jfr raw) V s2"
        using inv_create_ok [OF c2 ok I1 dep1] by (simp add: jetty_pair_def add_mset_commute)
      have cs2: "cells s2 = cells s" using cells_create(1) [OF c2] cs1 by simp
      let ?s3 = "snd (clone_cq q s2)"
      define j where "j = \<lparr>j_jfr = jfr, j_raw = raw,
        j_id = JettyId_from_raw (jetty_jetty_id (l_read_jetty L raw (lib_state s2))),
        j_max_sge = opt_max_sge opts, j_cq = q\<rparr>"
      have I3: "inv ex (jetty_pair ?raw ?jfc jfr raw) (add_mset (VCq q) V) ?s3"
        by (rule inv_clone_cq [OF I2]) (simp add: cells_cong [OF cs2] q)
      have env: "raws ?s3 = raws s2" "cq_ctxs ?s3 = cq_ctxs s2" "jfcs ?s3 = jfcs s2"
        unfolding raws_def cq_ctxs_def jfcs_def clone_cq_def set_cq_strong_def
        by (simp_all add: map_update_same)
      have "cq_ctxs s ! cq_inner q = ctx_inner c"
        using same q by (simp add: same_ctx_def cq_ctxs_def qstrong_pos_iff)
      then have "val_objs (raws ?s3) (cq_ctxs ?s3) (jfcs ?s3) (VJetty j) = jetty_pair ?raw ?jfc jfr raw"
        using ctx_dep(1) [OF c] cq_dep(1) [OF q] by (simp add: env cells_cong [OF cs2] j_def)
      moreover have "counts_ok (add_mset (VJetty j) V) ?s3"
        using invD(1) [OF I3] by (simp add: counts_holder(1) j_def)
      ultimately have "inv ex {#} (add_mset (VJetty j) V) ?s3"
        using inv_swap [OF I3, of "{#VJetty j#}" "{#}"] by (simp add: objs_of_add ac_simps)
      then show ?thesis using assms(1) ok by (auto simp: eval j_def)
    qed
  qed
qed

section \<open>Buffers and segments\<close>

lemma inv_PageBuf_new:
  assumes "PageBuf_new L len s = (r, s')" and inv: "inv ex {#} V s"
  shows "inv ex {#} (res_val VBuf r + V) s'"
proof (cases "len = 0 \<or> \<not> layout_ok len PAGE_SIZE")
  case True
  then show ?thesis using assms by (auto simp: PageBuf_new_def split: if_splits)
next
  case False
  obtain p s1 where cr: "call_create (l_alloc_zeroed L len PAGE_SIZE) OMem [] s = (p, s1)" by force
  show ?thesis
  proof (cases "p = 0")
    case True
    then have "inv ex {#} V s1" using inv_create_fail [of _ _ _ _ s1, OF _ inv] cr by simp
    then show ?thesis using assms(1) False cr True by (auto simp: PageBuf_new_def)
  next
    case ok: False
    have I: "inv ex {#(OMem p, [])#} V s1" using inv_create_ok [OF cr ok inv] by simp
    let ?b = "VBuf \<lparr>pb_ptr = p, pb_size = len\<rparr>"
    have "inv ex {#} (add_mset ?b V) s1"
      using I by (simp add: inv_def objs_of_add buf_objs_def)
    then show ?thesis using assms(1) False cr ok by (auto simp: PageBuf_new_def)
  qed
qed

lemma inv_register_in:
  assumes "register_in L c p len token buf s = (r, s')" and inv: "inv ex {#} (buf_vals buf + V) s"
    and c: "0 < cstrong s (ctx_inner c)"
  shows "inv ex {#} (res_val VSeg r + V) s'"
proof -
  let ?raw = "ctx_raw c s" and ?V = "buf_vals buf + V"
  let ?deps = "OCtx ?raw # buf_deps buf"
  let ?cfg = "default_urma_seg_cfg_t\<lparr>sc_va := p, sc_len := len,
     sc_token_value := \<lparr>tok_token = token\<rparr>,
     sc_flag := with_reg_access \<lparr>reg_seg_value = 0\<rparr> rw_rights\<rparr>"
  have dep: "set ?deps \<subseteq> objs_in (objs_of ?V s + {#})"
    using ctx_dep(2) [OF c, of V] by (cases buf) (simp_all add: buf_deps_def buf_objs_def)
  obtain tseg s1 where cr: "call_create (l_register_seg L ?raw ?cfg) OSeg ?deps s = (tseg, s1)"
    by force
  show ?thesis
  proof (cases "tseg = 0")
    case True
    then have "inv ex {#} ?V s1" using inv_create_fail [of _ _ _ _ s1, OF _ inv dep] cr by simp
    then have "inv ex {#} V (drop_buf L buf s1)" by (rule inv_drop_buf)
    then show ?thesis using assms(1) cr True by (auto simp: register_in_def Let_def)
  next
    case False
    have I1: "inv ex {#(OSeg tseg, ?deps)#} ?V s1" using inv_create_ok [OF cr False inv dep] by simp
    have cs1: "cells s1 = cells s" by (rule cells_create(1) [OF cr])
    let ?s2 = "snd (clone_ctx c s1)"
    define g where "g = \<lparr>rs_tseg = tseg, rs_va = p, rs_len = len, rs_ctx = c, rs_buf = buf\<rparr>"
    have I2: "inv ex {#(OSeg tseg, ?deps)#} (add_mset (VCtx c) ?V) ?s2"
      by (rule inv_clone_ctx [OF I1]) (simp add: cells_cong [OF cs1] c)
    have raws: "raws ?s2 = raws s"
      unfolding raws_def [of ?s2] clone_ctx_def set_ctx_strong_def
      using cells_cong(7) [OF cs1] by (simp add: map_update_same raws_def)
    have "counts_ok (add_mset (VSeg g) V) ?s2"
      using invD(1) [OF I2] by (simp add: counts_holder(2) g_def)
    moreover have "objs_of (add_mset (VSeg g) V) ?s2 = objs_of (add_mset (VCtx c) ?V) ?s2 + {#(OSeg tseg, ?deps)#}"
      using ctx_dep(1) [OF c] raws by (simp add: objs_of_add g_def)
    ultimately have "inv ex {#} (add_mset (VSeg g) V) ?s2"
      using I2 by (simp add: inv_def)
    then show ?thesis using assms(1) cr False by (auto simp: register_in_def Let_def clone_ctx_def g_def)
  qed
qed

lemma inv_RegisteredBuf_new:
  assumes "RegisteredBuf_new L c len token s = (r, s')" and inv: "inv ex {#} V s"
    and v: "v \<in># V" "refs_ctx (ctx_inner c) v"
  shows "inv ex {#} (res_val VSeg r + V) s'"
proof -
  obtain r1 s1 where b: "PageBuf_new L len s = (r1, s1)" by force
  note I1 = inv_PageBuf_new [OF b inv]
  show ?thesis
  proof (cases r1)
    case (Inl e)
    then show ?thesis using assms(1) b I1 by (auto simp: RegisteredBuf_new_def)
  next
    case (Inr pb)
    then have I2: "inv ex {#} (buf_vals (Some pb) + V) s1" using I1 by (simp add: buf_vals_def)
    have "0 < cstrong s1 (ctx_inner c)" using counts_live(2) [OF invD(1) [OF I2], of v] v by simp
    then show ?thesis
      using inv_register_in [OF _ I2] assms(1) b Inr by (simp add: RegisteredBuf_new_def)
  qed
qed

section \<open>Peers and exports\<close>

lemma inv_import_both:
  assumes "import_both L c seg rj token s = (r, s')" and inv: "inv ex {#} V s"
    and c: "0 < cstrong s (ctx_inner c)"
  shows "inv ex {#} (res_val VPeer r + V) s'"
proof -
  let ?raw = "ctx_raw c s" and ?tok = "\<lparr>tok_token = token\<rparr>"
  note dep = ctx_dep(2) [OF c, of V]
  let ?flag = "with_import_access \<lparr>import_seg_value = 0\<rparr> rw_rights"
  obtain tseg s1 where c1: "call_create (l_import_seg L ?raw seg ?tok 0 ?flag) OImpSeg [OCtx ?raw] s = (tseg, s1)"
    by force
  show ?thesis
  proof (cases "tseg = 0")
    case True
    then have "inv ex {#} V s1" using inv_create_fail [of _ _ _ _ s1, OF _ inv] c1 dep by simp
    then show ?thesis using assms(1) c1 True by (auto simp: import_both_def Let_def)
  next
    case False
    let ?X = "{#(OImpSeg tseg, [OCtx ?raw])#}"
    have I1: "inv ex ?X V s1" using inv_create_ok [OF c1 False inv] dep by simp
    have cs1: "cells s1 = cells s" by (rule cells_create(1) [OF c1])
    obtain tj s2 where c2: "call_create (l_import_jetty L ?raw rj ?tok) OImpJetty [OCtx ?raw] s1 = (tj, s2)"
      by force
    have dep1: "set [OCtx ?raw] \<subseteq> objs_in (objs_of V s1 + ?X)" using dep by (simp add: cells_cong [OF cs1])
    show ?thesis
    proof (cases "tj = 0")
      case bad: True
      then have "inv ex ?X V s2" using inv_create_fail [of _ _ _ _ s2, OF _ I1 dep1] c2 by simp
      then have "inv ex {#} V (call_delete (\<lambda>l. snd (l_unimport_seg L tseg l)) (OImpSeg tseg) s2)"
        by (rule inv_free) simp
      then show ?thesis using assms(1) c1 False c2 bad by (auto simp: import_both_def Let_def)
    next
      case ok: False
      have I2: "inv ex (add_mset (OImpJetty tj, [OCtx ?raw]) ?X) V s2"
        using inv_create_ok [OF c2 ok I1 dep1] by simp
      have cs2: "cells s2 = cells s" using cells_create(1) [OF c2] cs1 by simp
      let ?s3 = "snd (clone_ctx c s2)"
      define p where "p = \<lparr>peer_tseg = tseg, peer_tjetty = tj, peer_ctx = c\<rparr>"
      have I3: "inv ex (add_mset (OImpJetty tj, [OCtx ?raw]) ?X) (add_mset (VCtx c) V) ?s3"
        by (rule inv_clone_ctx [OF I2]) (simp add: cells_cong [OF cs2] c)
      have raws: "raws ?s3 = raws s"
        unfolding raws_def [of ?s3] clone_ctx_def set_ctx_strong_def
        using cells_cong(7) [OF cs2] by (simp add: map_update_same raws_def)
      have "counts_ok (add_mset (VPeer p) V) ?s3"
        using invD(1) [OF I3] by (simp add: counts_holder(3) p_def)
      moreover have "objs_of (add_mset (VPeer p) V) ?s3 =
          objs_of (add_mset (VCtx c) V) ?s3 + add_mset (OImpJetty tj, [OCtx ?raw]) ?X"
        using ctx_dep(1) [OF c] raws by (simp add: objs_of_add p_def ac_simps)
      ultimately have "inv ex {#} (add_mset (VPeer p) V) ?s3" using I3 by (simp add: inv_def)
      then show ?thesis
        using assms(1) c1 False c2 ok by (auto simp: import_both_def Let_def clone_ctx_def p_def)
    qed
  qed
qed

lemma inv_peer_import_ctx:
  assumes "Peer_import_ctx L c seg rj tp token s = (r, s')" and inv: "inv ex {#} V s"
    and c: "0 < cstrong s (ctx_inner c)"
  shows "inv ex {#} (res_val VPeer r + V) s'"
  using assms inv_import_both [OF _ inv c]
  by (auto simp: Peer_import_ctx_def split: sum.splits)

lemma inv_export_blob:
  assumes "export_blob L get put mk obj what name least s = (r, s')" and inv: "inv ex {#} V s"
    and "obj \<in> objs_in (objs_of V s)" and "\<And>p. \<not> is_ctx (mk p)" and "\<And>p. mk p \<noteq> obj"
  shows "inv ex {#} V s'"
proof -
  obtain raw out s1 where cr': "call_create_out (get_blob get) mk [obj] s = (raw, out, s1)"
    by (metis prod_cases3)
  obtain st len where out: "out = (st, len)" by force
  note cr = cr' [unfolded out]
  have dep: "set [obj] \<subseteq> objs_in (objs_of V s + {#})" using assms(3) by simp
  obtain a b n l where "get (lib_state s) = (a, b, n, l)" by (metis prod_cases4)
  then have "st = a" "raw = (if a = URMA_SUCCESS then b else 0)"
    using cr by (auto simp: call_create_out_def get_blob_def)
  then have stat: "st = URMA_SUCCESS" if "raw \<noteq> 0" using that by (simp split: if_splits)
  show ?thesis
  proof (cases "raw = 0")
    case True
    then have "inv ex {#} V s1" using inv_create_out_fail [of _ _ _ _ _ s1, OF _ inv dep] cr by simp
    then show ?thesis
      using assms(1) cr True by (auto simp: export_blob_def check_status_def split: if_splits)
  next
    case False
    have "inv ex {#(mk raw, [obj])#} V s1"
      using inv_create_out_ok [OF cr False inv dep] assms(4) by simp
    then have "inv ex {#} V (call_delete (put raw) (mk raw) s1)"
      by (rule inv_free) (use assms(5) in simp)
    then show ?thesis
      using assms(1) cr False stat [OF False] by (auto simp: export_blob_def check_status_def Let_def split: if_splits)
  qed
qed

end
