(* ===== verification/Lifecycle.thy ===== *)
theory Lifecycle
  imports Creation Completion
begin

text \<open>
  A program over the crate: a sequence of operations on the values it owns, in any order the
  ownership rules of Rust allow (an operation uses owned values, a drop consumes one). The
  theorems say that every such program keeps the contract of the C library and that a program
  that gave everything up has leaked nothing, and show the two ways in which it can go wrong.
\<close>

section \<open>Programs\<close>

datatype op =
    OInit
  | OListDevices
  | OQuery string
  | OCreateCtx nat string
  | OCloneCtx nat
  | ONewCq nat u32
  | OCloneCq nat
  | ONewJetty nat nat JettyOpts
  | OPageBuf usize
  | ONewBuf nat usize u32
  | ORegister nat ptr usize u32
  | OImportCtx nat bytes bytes TpType u32
  | OImport nat SegDesc JettyId TransMode TpType u32
  | OExportJetty nat
  | OExportSeg nat
  | OPoll nat
  | ODrop nat
  | OThreadExit

record 'w prog =
  owned :: "val list"
  exited :: bool
  pheap :: "'w heap"

definition own :: "('a \<Rightarrow> val) \<Rightarrow> 'a result \<times> 'w heap \<Rightarrow> 'w prog \<Rightarrow> 'w prog" where
  "own mk rs p = (case rs of
       (Inl e, s) \<Rightarrow> p\<lparr>pheap := s\<rparr>
     | (Inr x, s) \<Rightarrow> p\<lparr>owned := owned p @ [mk x], pheap := s\<rparr>)"

definition value_at :: "'w prog \<Rightarrow> nat \<Rightarrow> val option" where
  "value_at p k = (if k < length (owned p) then Some (owned p ! k) else None)"

definition remove_at :: "nat \<Rightarrow> 'a list \<Rightarrow> 'a list" where
  "remove_at k xs = take k xs @ drop (Suc k) xs"

text \<open>
  An operation on a value of the wrong kind, or after the end of the thread where it needs the
  thread's slot, is not a program; it is given the meaning of no operation.
\<close>

fun exec_op :: "'w liburma \<Rightarrow> (bytes \<Rightarrow> string) \<Rightarrow> op \<Rightarrow> 'w prog \<Rightarrow> 'w prog" where
  "exec_op L lossy OInit p = (if exited p then p else own VUrma (Urma_init L (pheap p)) p)"
| "exec_op L lossy OListDevices p =
     (if exited p then p else p\<lparr>pheap := snd (list_devices L lossy (pheap p))\<rparr>)"
| "exec_op L lossy (OQuery dev) p =
     (if exited p then p else p\<lparr>pheap := snd (query_device L dev (pheap p))\<rparr>)"
| "exec_op L lossy (OCreateCtx k dev) p =
     (case value_at p k of Some (VUrma u) \<Rightarrow> own VCtx (Context_create L u dev (pheap p)) p | _ \<Rightarrow> p)"
| "exec_op L lossy (OCloneCtx k) p =
     (case value_at p k of
        Some (VCtx c) \<Rightarrow> (let (c, s) = clone_ctx c (pheap p) in own VCtx (Inr c, s) p) | _ \<Rightarrow> p)"
| "exec_op L lossy (ONewCq k depth) p =
     (case value_at p k of Some (VCtx c) \<Rightarrow> own VCq (CompletionQueue_new L c depth (pheap p)) p | _ \<Rightarrow> p)"
| "exec_op L lossy (OCloneCq k) p =
     (case value_at p k of
        Some (VCq q) \<Rightarrow> (let (q, s) = clone_cq q (pheap p) in own VCq (Inr q, s) p) | _ \<Rightarrow> p)"
| "exec_op L lossy (ONewJetty k m opts) p =
     (case (value_at p k, value_at p m) of
        (Some (VCtx c), Some (VCq q)) \<Rightarrow> own VJetty (Jetty_new L c q opts (pheap p)) p | _ \<Rightarrow> p)"
| "exec_op L lossy (OPageBuf len) p = own VBuf (PageBuf_new L len (pheap p)) p"
| "exec_op L lossy (ONewBuf k len token) p =
     (case value_at p k of
        Some (VCtx c) \<Rightarrow> own VSeg (RegisteredBuf_new L c len token (pheap p)) p | _ \<Rightarrow> p)"
| "exec_op L lossy (ORegister k a len token) p =
     (case value_at p k of
        Some (VCtx c) \<Rightarrow> own VSeg (RegisteredSeg_register L c a len token (pheap p)) p | _ \<Rightarrow> p)"
| "exec_op L lossy (OImportCtx k seg rj tp token) p =
     (case value_at p k of
        Some (VCtx c) \<Rightarrow> own VPeer (Peer_import_ctx L c seg rj tp token (pheap p)) p | _ \<Rightarrow> p)"
| "exec_op L lossy (OImport k seg j mode tp token) p =
     (case value_at p k of
        Some (VCtx c) \<Rightarrow> own VPeer (Peer_import L c seg j mode tp token (pheap p)) p | _ \<Rightarrow> p)"
| "exec_op L lossy (OExportJetty k) p =
     (case value_at p k of Some (VJetty j) \<Rightarrow> p\<lparr>pheap := snd (export_rjetty L j (pheap p))\<rparr> | _ \<Rightarrow> p)"
| "exec_op L lossy (OExportSeg k) p =
     (case value_at p k of Some (VSeg g) \<Rightarrow> p\<lparr>pheap := snd (export_seg_ctx L g (pheap p))\<rparr> | _ \<Rightarrow> p)"
| "exec_op L lossy (OPoll k) p =
     (case value_at p k of Some (VCq q) \<Rightarrow> p\<lparr>pheap := snd (poll L q (pheap p))\<rparr> | _ \<Rightarrow> p)"
| "exec_op L lossy (ODrop k) p =
     (case value_at p k of
        Some v \<Rightarrow> p\<lparr>owned := remove_at k (owned p), pheap := drop_val L v (pheap p)\<rparr> | None \<Rightarrow> p)"
| "exec_op L lossy OThreadExit p = p\<lparr>exited := True, pheap := thread_exit L (pheap p)\<rparr>"

fun exec :: "'w liburma \<Rightarrow> (bytes \<Rightarrow> string) \<Rightarrow> op list \<Rightarrow> 'w prog \<Rightarrow> 'w prog" where
  "exec L lossy [] p = p"
| "exec L lossy (x # xs) p = exec L lossy xs (exec_op L lossy x p)"

definition start :: "'w \<Rightarrow> 'w prog" where
  "start w = \<lparr>owned = [], exited = False, pheap =
     \<lparr>lib_state = w, event_log = [], urma_cells = [], init_slot = None, ctx_cells = [], cq_cells = []\<rparr>\<rparr>"

text \<open>
  The two obligations the types do not enforce: a jetty is created on the context its
  completion queue belongs to, with a priority slot in range.
\<close>

fun op_ok :: "'w prog \<Rightarrow> op \<Rightarrow> bool" where
  "op_ok p (ONewJetty k m opts) =
     (case (value_at p k, value_at p m) of
        (Some (VCtx c), Some (VCq q)) \<Rightarrow> same_ctx c q (pheap p) \<and> opt_priority opts \<le> URMA_MAX_PRIORITY
      | _ \<Rightarrow> True)"
| "op_ok p _ = True"

fun ops_ok :: "'w liburma \<Rightarrow> (bytes \<Rightarrow> string) \<Rightarrow> op list \<Rightarrow> 'w prog \<Rightarrow> bool" where
  "ops_ok L lossy [] p = True"
| "ops_ok L lossy (x # xs) p \<longleftrightarrow> op_ok p x \<and> ops_ok L lossy xs (exec_op L lossy x p)"

section \<open>Every operation keeps the invariant\<close>

definition prog_inv :: "'w prog \<Rightarrow> bool" where
  "prog_inv p \<longleftrightarrow> inv (exited p) {#} (mset (owned p)) (pheap p)"

lemma value_at_mem: "value_at p k = Some v \<Longrightarrow> v \<in># mset (owned p)"
  by (auto simp: value_at_def split: if_splits)

lemma mset_remove_at:
  "value_at p k = Some v \<Longrightarrow> mset (owned p) = add_mset v (mset (remove_at k (owned p)))"
proof -
  assume "value_at p k = Some v"
  then have k: "k < length (owned p)" and v: "owned p ! k = v" by (auto simp: value_at_def split: if_splits)
  have "owned p = take k (owned p) @ v # drop (Suc k) (owned p)"
    using id_take_nth_drop [OF k] v by simp
  then have "mset (owned p) = mset (take k (owned p) @ v # drop (Suc k) (owned p))" by simp
  then show ?thesis by (simp add: remove_at_def)
qed

lemma prog_inv_own:
  assumes "F = (r, s')" and "inv (exited p) {#} (res_val mk r + mset (owned p)) s'"
  shows "prog_inv (own mk F p)"
  using assms by (cases r) (simp_all add: own_def prog_inv_def)

lemma prog_inv_owned_live:
  assumes "prog_inv p" and "value_at p k = Some v"
  shows "refs_urma i v \<Longrightarrow> 0 < ustrong (pheap p) i" "refs_ctx i v \<Longrightarrow> 0 < cstrong (pheap p) i"
    "refs_cq i v \<Longrightarrow> 0 < qstrong (pheap p) i"
  using counts_live(1-3) [OF invD(1)] assms(1) value_at_mem [OF assms(2)] unfolding prog_inv_def by blast+

lemma inv_poll:
  assumes "inv ex {#} V s" and "0 < qstrong s (cq_inner q)"
  shows "inv ex {#} V (snd (poll L q s))"
proof -
  obtain r s1 where use: "call_use (\<lambda>l. let (n, crs, l) = l_poll_jfc L (cq_jfc q s) 1 l in ((n, crs), l))
      [OJfc (cq_jfc q s)] s = (r, s1)"
    by (meson surj_pair)
  have "inv ex {#} V s1"
    by (rule inv_use [OF use assms(1)]) (use cq_dep(2) [OF assms(2)] in simp)
  moreover have "snd (poll L q s) = s1"
    using use by (simp add: poll_def ffi_poll_jfc_def split: prod.splits)
  ultimately show ?thesis by simp
qed

lemma jetty_obj: "VJetty j \<in># V \<Longrightarrow> OJetty (j_raw j) \<in> objs_in (objs_of V s)"
  and seg_obj: "VSeg g \<in># V \<Longrightarrow> OSeg (rs_tseg g) \<in> objs_in (objs_of V s)"
  unfolding objs_in_objs_of by (force simp: jetty_pair_def)+

lemma prog_inv_set:
  "inv (exited p) {#} (mset (owned p)) s \<Longrightarrow> prog_inv (p\<lparr>pheap := s\<rparr>)"
  by (simp add: prog_inv_def)

lemma exec_op_inv:
  assumes inv: "prog_inv p" and ok: "op_ok p x"
  shows "prog_inv (exec_op L lossy x p)"
proof -
  let ?V = "mset (owned p)" and ?s = "pheap p"
  have I: "inv (exited p) {#} ?V ?s" using inv by (simp add: prog_inv_def)
  note live = prog_inv_owned_live [OF inv]
  show ?thesis
  proof (cases x)
    case OInit
    obtain r s' where "Urma_init L ?s = (r, s')" by force
    with inv_urma_init [OF this] I show ?thesis
      by (cases "exited p") (auto simp: OInit inv intro: prog_inv_own)
  next
    case OListDevices
    obtain r s' where "list_devices L lossy ?s = (r, s')" by force
    with inv_list_devices [OF this] I show ?thesis
      by (cases "exited p") (auto simp: OListDevices inv intro: prog_inv_set)
  next
    case (OQuery dev)
    obtain r s' where "query_device L dev ?s = (r, s')" by force
    with inv_query_device [OF this] I show ?thesis
      by (cases "exited p") (auto simp: OQuery inv intro: prog_inv_set)
  next
    case (OCreateCtx k dev)
    have "prog_inv (own VCtx (Context_create L u dev ?s) p)" if "value_at p k = Some (VUrma u)" for u
    proof -
      obtain r s' where F: "Context_create L u dev ?s = (r, s')" by force
      show ?thesis by (rule prog_inv_own [OF F]) (rule inv_context_create [OF F I value_at_mem [OF that]])
    qed
    then show ?thesis by (auto simp: OCreateCtx inv split: option.split val.split)
  next
    case (OCloneCtx k)
    have "prog_inv (own VCtx (Inr c, snd (clone_ctx c ?s)) p)" if "value_at p k = Some (VCtx c)" for c
    proof -
      have "0 < cstrong ?s (ctx_inner c)" using live(2) [OF that] by simp
      then show ?thesis using inv_clone_ctx [OF I] by (auto intro: prog_inv_own)
    qed
    then show ?thesis by (auto simp: OCloneCtx inv clone_ctx_def split: option.split val.split)
  next
    case (ONewCq k depth)
    have "prog_inv (own VCq (CompletionQueue_new L c depth ?s) p)" if "value_at p k = Some (VCtx c)" for c
    proof -
      obtain r s' where F: "CompletionQueue_new L c depth ?s = (r, s')" by force
      have "0 < cstrong ?s (ctx_inner c)" using live(2) [OF that] by simp
      then show ?thesis by (intro prog_inv_own [OF F] inv_cq_new [OF F I])
    qed
    then show ?thesis by (auto simp: ONewCq inv split: option.split val.split)
  next
    case (OCloneCq k)
    have "prog_inv (own VCq (Inr q, snd (clone_cq q ?s)) p)" if "value_at p k = Some (VCq q)" for q
    proof -
      have "0 < qstrong ?s (cq_inner q)" using live(3) [OF that] by simp
      then show ?thesis using inv_clone_cq [OF I] by (auto intro: prog_inv_own)
    qed
    then show ?thesis by (auto simp: OCloneCq inv clone_cq_def split: option.split val.split)
  next
    case (ONewJetty k m opts)
    have "prog_inv (own VJetty (Jetty_new L c q opts ?s) p)"
      if v: "value_at p k = Some (VCtx c)" "value_at p m = Some (VCq q)" for c q
    proof -
      obtain r s' where F: "Jetty_new L c q opts ?s = (r, s')" by force
      have "0 < cstrong ?s (ctx_inner c)" "0 < qstrong ?s (cq_inner q)"
        using live(2) [OF v(1)] live(3) [OF v(2)] by simp_all
      moreover have "same_ctx c q ?s" "opt_priority opts \<le> URMA_MAX_PRIORITY"
        using ok v by (simp_all add: ONewJetty)
      ultimately show ?thesis by (intro prog_inv_own [OF F] inv_jetty_new [OF F I])
    qed
    then show ?thesis by (auto simp: ONewJetty inv split: option.split val.split)
  next
    case (OPageBuf len)
    obtain r s' where F: "PageBuf_new L len ?s = (r, s')" by force
    show ?thesis unfolding OPageBuf exec_op.simps
      by (rule prog_inv_own [OF F]) (rule inv_PageBuf_new [OF F I])
  next
    case (ONewBuf k len token)
    have "prog_inv (own VSeg (RegisteredBuf_new L c len token ?s) p)" if v: "value_at p k = Some (VCtx c)" for c
    proof -
      obtain r s' where F: "RegisteredBuf_new L c len token ?s = (r, s')" by force
      show ?thesis
        by (rule prog_inv_own [OF F], rule inv_RegisteredBuf_new [OF F I value_at_mem [OF v]]) simp
    qed
    then show ?thesis by (auto simp: ONewBuf inv split: option.split val.split)
  next
    case (ORegister k a len token)
    have "prog_inv (own VSeg (RegisteredSeg_register L c a len token ?s) p)"
      if v: "value_at p k = Some (VCtx c)" for c
    proof -
      obtain r s' where F: "register_in L c a len token None ?s = (r, s')" by force
      have "0 < cstrong ?s (ctx_inner c)" using live(2) [OF v] by simp
      with inv_register_in [OF F] I have "inv (exited p) {#} (res_val VSeg r + ?V) s'"
        by (simp add: buf_vals_def)
      then show ?thesis unfolding RegisteredSeg_register_def by (rule prog_inv_own [OF F])
    qed
    then show ?thesis by (auto simp: ORegister inv split: option.split val.split)
  next
    case (OImportCtx k seg rj tp token)
    have "prog_inv (own VPeer (Peer_import_ctx L c seg rj tp token ?s) p)"
      if v: "value_at p k = Some (VCtx c)" for c
    proof -
      obtain r s' where F: "Peer_import_ctx L c seg rj tp token ?s = (r, s')" by force
      have "0 < cstrong ?s (ctx_inner c)" using live(2) [OF v] by simp
      then show ?thesis by (intro prog_inv_own [OF F] inv_peer_import_ctx [OF F I])
    qed
    then show ?thesis by (auto simp: OImportCtx inv split: option.split val.split)
  next
    case (OImport k seg j mode tp token)
    have "prog_inv (own VPeer (Peer_import L c seg j mode tp token ?s) p)"
      if v: "value_at p k = Some (VCtx c)" for c
    proof -
      obtain r s' where F: "import_both L c (InStruct (seg_of_desc seg)) (InStruct (rjetty_of_id j mode tp))
          token ?s = (r, s')" by force
      have "0 < cstrong ?s (ctx_inner c)" using live(2) [OF v] by simp
      then show ?thesis unfolding Peer_import_def
        by (intro prog_inv_own [OF F] inv_import_both [OF F I])
    qed
    then show ?thesis by (auto simp: OImport inv split: option.split val.split)
  next
    case (OExportJetty k)
    have "prog_inv (p\<lparr>pheap := snd (export_rjetty L j ?s)\<rparr>)" if v: "value_at p k = Some (VJetty j)" for j
    proof -
      obtain r s' where F: "export_rjetty L j ?s = (r, s')" by force
      have "inv (exited p) {#} ?V s'"
        using F unfolding export_rjetty_def
        by (rule inv_export_blob [OF _ I]) (simp_all add: jetty_obj [OF value_at_mem [OF v]])
      then show ?thesis by (simp add: F prog_inv_set)
    qed
    then show ?thesis by (auto simp: OExportJetty inv split: option.split val.split)
  next
    case (OExportSeg k)
    have "prog_inv (p\<lparr>pheap := snd (export_seg_ctx L g ?s)\<rparr>)" if v: "value_at p k = Some (VSeg g)" for g
    proof -
      obtain r s' where F: "export_seg_ctx L g ?s = (r, s')" by force
      have "inv (exited p) {#} ?V s'"
        using F unfolding export_seg_ctx_def
        by (rule inv_export_blob [OF _ I]) (simp_all add: seg_obj [OF value_at_mem [OF v]])
      then show ?thesis by (simp add: F prog_inv_set)
    qed
    then show ?thesis by (auto simp: OExportSeg inv split: option.split val.split)
  next
    case (OPoll k)
    have "prog_inv (p\<lparr>pheap := snd (poll L q ?s)\<rparr>)" if v: "value_at p k = Some (VCq q)" for q
      using inv_poll [OF I] live(3) [OF v] by (simp add: prog_inv_set)
    then show ?thesis by (auto simp: OPoll inv split: option.split val.split)
  next
    case (ODrop k)
    have "prog_inv (p\<lparr>owned := remove_at k (owned p), pheap := drop_val L v ?s\<rparr>)"
      if v: "value_at p k = Some v" for v
      using I inv_drop_val by (simp add: prog_inv_def mset_remove_at [OF v])
    then show ?thesis by (auto simp: ODrop inv split: option.split)
  next
    case OThreadExit
    show ?thesis using inv_thread_exit [OF I] by (simp add: OThreadExit prog_inv_def)
  qed
qed

lemma exec_inv: "prog_inv p \<Longrightarrow> ops_ok L lossy xs p \<Longrightarrow> prog_inv (exec L lossy xs p)"
  by (induction xs arbitrary: p) (auto intro: exec_op_inv)

lemma start_inv: "prog_inv (start w)"
  by (simp add: prog_inv_def start_def inv_def counts_ok_def slot_ok_def state_defs tracks_def
      proto_init_def)

section \<open>What is left when everything is given up\<close>

lemma nothing_left:
  assumes "inv True {#} {#} s"
  shows "objs_of {#} s = {#}" and "\<not> (\<exists>i. ustrong s i > 0)"
proof -
  have cnt: "counts_ok {#} s" and slot: "init_slot s = None" using invD(1,2) [OF assms] by (simp_all add: slot_ok_def)
  have q: "qc_strong q = 0" if "q \<in> set (cq_cells s)" for q
  proof -
    obtain i where i: "i < length (cq_cells s)" "cq_cells s ! i = q"
      using \<open>q \<in> set (cq_cells s)\<close> by (auto simp: in_set_conv_nth)
    then show ?thesis using strong_eq(3) [OF cnt i(1)] by (simp add: cq_refs_def)
  qed
  have c: "cc_strong c = 0" if "c \<in> set (ctx_cells s)" for c
  proof -
    obtain i where i: "i < length (ctx_cells s)" "ctx_cells s ! i = c"
      using \<open>c \<in> set (ctx_cells s)\<close> by (auto simp: in_set_conv_nth)
    have "(\<Sum>q\<leftarrow>cq_cells s. one_if (live_cq_of i q)) = 0"
      using q by (simp add: sum_list_map_zero_iff live_cq_of_def)
    then show ?thesis using strong_eq(2) [OF cnt i(1)] i(2) by (simp add: ctx_refs_def)
  qed
  have "(\<Sum>c\<leftarrow>ctx_cells s. ctx_objs c) = {#}" "(\<Sum>q\<leftarrow>cq_cells s. cq_objs (raws s) q) = {#}"
    using c q by (auto simp: set_mset_sum_list ctx_objs_def cq_objs_def
        simp flip: set_mset_eq_empty_iff)
  then show "objs_of {#} s = {#}" by (simp add: objs_of_def)
  have "(\<Sum>c\<leftarrow>ctx_cells s. one_if (live_ctx_of i c)) = 0" for i
    using c by (simp add: sum_list_map_zero_iff live_ctx_of_def)
  then show "\<not> (\<exists>i. ustrong s i > 0)"
    using cnt slot by (simp add: counts_ok_def urma_refs_def)
qed

text \<open>A program for the witnesses: every kind of resource, given up parents first.\<close>

definition demo_desc :: SegDesc where
  "demo_desc = \<lparr>sd_eid = replicate 16 0, sd_uasid = 1, sd_va = 4096, sd_len = 4096, sd_attr = 0,
     sd_token_id = 3\<rparr>"

definition demo_ops :: "op list" where
  "demo_ops = [OInit, OCreateCtx 0 ''d'', ONewCq 1 64, ONewJetty 1 2 default_JettyOpts,
     ONewBuf 1 4096 TOKEN_VALUE, OImport 1 demo_desc (JettyId_from_raw default_urma_jetty_id_t) Rm Ctp 7,
     OCloneCq 2, OPoll 2, OExportJetty 3,
     ODrop 0, ODrop 0, ODrop 0, OThreadExit, ODrop 3, ODrop 1, ODrop 0, ODrop 0]"

section \<open>Properties\<close>



text \<open>Evaluation of concrete programs on the concrete library.\<close>

lemmas exec_defs = start_def demo_start_def own_def value_at_def remove_at_def Urma_init_def
  ffi_init_def check_status_def clone_urma_def set_urma_strong_def Context_create_def
  device_by_name_def call_use_def call_create_def call_create_out_def call_delete_def
  demo_create_def record_event_def set_lib_def CompletionQueue_new_def clone_ctx_def
  set_ctx_strong_def ctx_raw_def cq_jfc_def Jetty_new_def clone_cq_def set_cq_strong_def
  RegisteredBuf_new_def PageBuf_new_def register_in_def layout_ok_def PAGE_SIZE_def buf_deps_def
  Peer_import_def import_both_def poll_def ffi_poll_jfc_def export_rjetty_def export_blob_def
  get_blob_def drop_urma_def drop_ctx_def drop_cq_def drop_jetty_def drop_seg_def drop_buf_def
  drop_PageBuf_def drop_peer_def thread_exit_def ffi_uninit_def default_JettyOpts_def
  demo_poll_def same_ctx_def Let_def

abbreviation demo_run :: "op list \<Rightarrow> demo prog" where
  "demo_run xs \<equiv> exec demo_lib (\<lambda>_. []) xs (start (demo_start [] []))"

lemma demo_ops_run:
  "ops_ok demo_lib (\<lambda>_. []) demo_ops (start (demo_start [] []))"
  "honest (event_log (pheap (demo_run demo_ops)))"
  "owned (demo_run demo_ops) = []" "exited (demo_run demo_ops)"
  unfolding demo_ops_def
  by (simp_all add: exec_defs ffi_const honest_def cong: let_weak_cong)



text \<open>
  C3 (strong counts). In every reachable state the strong count of a context is the number of
  owned contexts, segments and peers on it plus the completion queues on it that are still
  alive, and that of a completion queue the number of owned handles to it and jettys on it.
\<close>

theorem strong_counts_exact:
  assumes "ops_ok L lossy xs (start w)"
  shows "cstrong (pheap (exec L lossy xs (start w))) i =
      length (filter (refs_ctx i) (owned (exec L lossy xs (start w))))
      + length (filter (live_cq_of i) (cq_cells (pheap (exec L lossy xs (start w)))))
    \<and> qstrong (pheap (exec L lossy xs (start w))) i =
      length (filter (refs_cq i) (owned (exec L lossy xs (start w))))"
proof -
  have count: "(\<Sum>x\<in>#mset ys. one_if (P x)) = length (filter P ys)"
    "(\<Sum>x\<leftarrow>zs. one_if (Q x)) = length (filter Q zs)" for P Q and ys :: "val list" and zs :: "cq_cell list"
    by (induction ys; simp) (induction zs; simp)
  have "prog_inv (exec L lossy xs (start w))" using start_inv assms by (rule exec_inv)
  then have "counts_ok (mset (owned (exec L lossy xs (start w)))) (pheap (exec L lossy xs (start w)))"
    unfolding prog_inv_def by (rule invD(1))
  then show ?thesis unfolding counts_ok_def ctx_refs_def cq_refs_def count by blast
qed

theorem strong_counts_exact_witness:
  "qstrong (pheap (demo_run (take 7 demo_ops))) 0 = 3"
proof -
  have "ops_ok demo_lib (\<lambda>_. []) (take 7 demo_ops) (start (demo_start [] []))"
    and "length (filter (refs_cq 0) (owned (demo_run (take 7 demo_ops)))) = 3"
    unfolding demo_ops_def by (simp_all add: exec_defs ffi_const cong: let_weak_cong)
  with strong_counts_exact [of demo_lib "\<lambda>_. []" "take 7 demo_ops" "demo_start [] []" 0]
  show ?thesis by simp
qed

text \<open>
  C4 (priority out of range). With a priority above 15, creating a jetty fails only after its
  jfr exists, and the error path does not delete it.
\<close>

theorem jetty_new_bad_priority_leaks:
  assumes "opt_priority opts > URMA_MAX_PRIORITY"
    and "l_create_jfr L (ctx_raw c s) (jetty_jfr_cfg (cq_jfc q s) opts) (lib_state s) = (jfr, l)"
    and "jfr \<noteq> 0"
  shows "\<exists>msg s'. Jetty_new L c q opts s = (Inl (Invalid msg), s')
    \<and> event_log s' = event_log s @ [ECreate (OJfr jfr) [OCtx (ctx_raw c s), OJfc (cq_jfc q s)]]"
  using assms by (simp add: Jetty_new_def call_create_def)

theorem jetty_new_bad_priority_leaks_witness:
  "\<exists>msg s'. Jetty_new demo_lib \<lparr>ctx_inner = 0, ctx_eid = []\<rparr> \<lparr>cq_inner = 0\<rparr>
       (default_JettyOpts\<lparr>opt_priority := 16\<rparr>) (pheap (demo_run (take 3 demo_ops))) = (Inl (Invalid msg), s')"
proof -
  let ?s = "pheap (demo_run (take 3 demo_ops))" and ?opts = "default_JettyOpts\<lparr>opt_priority := 16\<rparr>"
  have jfr: "l_create_jfr demo_lib a b (lib_state ?s)
      = (5, \<lparr>d_next = 5, d_fails = [], d_errno = 0, d_polls = [], d_sent = []\<rparr>)" for a b
    unfolding demo_ops_def by (simp add: exec_defs ffi_const cong: let_weak_cong)
  have "opt_priority ?opts > URMA_MAX_PRIORITY" by (simp add: ffi_const)
  moreover have "(5 :: ptr) \<noteq> 0" by simp
  ultimately show ?thesis using jetty_new_bad_priority_leaks [OF _ jfr] by blast
qed



text \<open>
  On errno of a failed completion queue: When the jfc cannot be created, the error carries the
  errno left by the cleanup call that deletes the event object; a failed jetty, in contrast,
  carries the errno of the failed call itself.
\<close>

theorem null_err_errno:
  assumes "l_create_jfce L (ctx_raw c s) (lib_state s) = (jfce, l1)" and "jfce \<noteq> 0"
    and "l_create_jfc L (ctx_raw c s) (default_urma_jfc_cfg_t\<lparr>jfc_depth := depth, jfc_jfce := jfce\<rparr>) l1 = (0, l2)"
    and "l_create_jfr L (ctx_raw c s) (jetty_jfr_cfg (cq_jfc q s) opts) (lib_state s) = (jfr, k1)"
    and "jfr \<noteq> 0" and "opt_priority opts \<le> URMA_MAX_PRIORITY"
    and "l_create_jetty L (ctx_raw c s) (jetty_cfg jfr (cq_jfc q s) opts) k1 = (0, k2)"
  shows "fst (CompletionQueue_new L c depth s) =
      Inl (NullPtr ''urma_create_jfc'' (l_errno L (snd (l_delete_jfce L jfce l2))))
    \<and> fst (Jetty_new L c q opts s) = Inl (NullPtr ''urma_create_jetty'' (l_errno L k2))"
proof -
  have jfc: "cq_jfc q (record_event e (set_lib l s)) = cq_jfc q s" for e l
    by (simp add: cq_jfc_def record_event_def set_lib_def)
  show ?thesis
    using assms leD [OF assms(6)]
    by (simp add: CompletionQueue_new_def Jetty_new_def call_create_def call_delete_def null_err_def
        last_errno_def jfc Let_def)
qed

theorem null_err_errno_witness:
  "fst (CompletionQueue_new demo_lib \<lparr>ctx_inner = 0, ctx_eid = []\<rparr> 64 (demo_heap [1] []))
     = Inl (NullPtr ''urma_create_jfc'' 5)"
proof -
  let ?d = "\<lambda>n e. \<lparr>d_next = n, d_fails = [1], d_errno = e, d_polls = [], d_sent = []\<rparr>"
  have "demo_create (lib_state (demo_heap [1] [])) = (1, ?d 1 0)" "demo_create (?d 1 0) = (0, ?d 2 12)"
    by (simp_all add: demo_create_def demo_heap_def demo_start_def)
  then show ?thesis
    using null_err_errno [of demo_lib "\<lparr>ctx_inner = 0, ctx_eid = []\<rparr>" "demo_heap [1] []" 1 "?d 1 0" 64
        "?d 2 12" "\<lparr>cq_inner = 0\<rparr>" default_JettyOpts 1 "?d 1 0" "?d 2 12"]
    by (simp add: default_JettyOpts_def)
qed

end
