(* ===== verification/Common.thy ===== *)
theory Common
  imports Preflight Lifecycle
begin

text \<open>
  What the examples share (\<open>examples/common/mod.rs\<close>): fixed-size messages, the descriptor a
  peer announces, importing a peer with bounded retries, and the resource bundle \<open>UrmaRes\<close>.
  The HTTP helpers, the printing and the sleeps are left out. A Rust panic is the value \<open>None\<close>.
\<close>

section \<open>Messages\<close>

definition MSG_SIZE :: nat where "MSG_SIZE = 64"
definition BUF_SIZE :: usize where "BUF_SIZE = 4096"
definition SCRATCH_OFF :: nat where "SCRATCH_OFF = MSG_SIZE"

definition cstr_len :: "bytes \<Rightarrow> nat" where
  "cstr_len b = (case position (\<lambda>c. c = 0) b of None \<Rightarrow> length b | Some i \<Rightarrow> i)"

text \<open>A text is given by its UTF-8 bytes.\<close>

definition fill_msg :: "bytes \<Rightarrow> bytes" where
  "fill_msg txt =
     (let m = replicate MSG_SIZE 0;
          n = min (length txt) (MSG_SIZE - 1)
      in take n txt @ drop n m)"

section \<open>Peer descriptors\<close>

record PeerDesc =
  pd_eid :: bytes
  pd_uasid :: u32
  pd_seg_va :: u64
  pd_seg_len :: u64
  pd_seg_flag :: u32
  pd_seg_token_id :: u32
  pd_jetty_eid :: bytes
  pd_jetty_uasid :: u32
  pd_jetty_id :: u32
  pd_seg_ctx :: bytes
  pd_rjetty :: bytes

definition default_PeerDesc :: PeerDesc where
  "default_PeerDesc =
     \<lparr>pd_eid = replicate 16 0, pd_uasid = 0, pd_seg_va = 0, pd_seg_len = 0, pd_seg_flag = 0,
      pd_seg_token_id = 0, pd_jetty_eid = replicate 16 0, pd_jetty_uasid = 0, pd_jetty_id = 0,
      pd_seg_ctx = [], pd_rjetty = []\<rparr>"

definition PeerDesc_of :: "SegDesc \<Rightarrow> JettyId \<Rightarrow> bytes \<Rightarrow> bytes \<Rightarrow> PeerDesc" where
  "PeerDesc_of seg jetty seg_ctx rjetty =
     \<lparr>pd_eid = sd_eid seg, pd_uasid = sd_uasid seg, pd_seg_va = sd_va seg, pd_seg_len = sd_len seg,
      pd_seg_flag = sd_attr seg, pd_seg_token_id = sd_token_id seg,
      pd_jetty_eid = jetty_eid jetty, pd_jetty_uasid = jetty_uasid jetty,
      pd_jetty_id = jetty_num jetty, pd_seg_ctx = seg_ctx, pd_rjetty = rjetty\<rparr>"

definition to_pair :: "PeerDesc \<Rightarrow> SegDesc \<times> JettyId" where
  "to_pair d =
     (\<lparr>sd_eid = pd_eid d, sd_uasid = pd_uasid d, sd_va = pd_seg_va d, sd_len = pd_seg_len d,
       sd_attr = pd_seg_flag d, sd_token_id = pd_seg_token_id d\<rparr>,
      \<lparr>jetty_eid = pd_jetty_eid d, jetty_uasid = pd_jetty_uasid d, jetty_num = pd_jetty_id d\<rparr>)"

definition check_loopback :: "PeerDesc \<Rightarrow> PeerDesc \<Rightarrow> unit result" where
  "check_loopback my peer =
     (if pd_eid my = pd_eid peer
      then Inl (Invalid (''peer EID equals the local EID (single-machine loopback): this urma '' @
             ''library/driver build core-dumps on self-import; run the two nodes '' @
             ''on separate machines instead''))
      else Inr ())"

section \<open>Importing a peer\<close>

definition ENOEXEC :: i32 where "ENOEXEC = 8"
definition IMPORT_RETRIES :: u32 where "IMPORT_RETRIES = 30"

fun no_exec :: "error \<Rightarrow> bool" where
  "no_exec (NullPtr _ n) = (n = ENOEXEC)"
| "no_exec _ = False"

definition import_once :: "'w liburma \<Rightarrow> Context \<Rightarrow> PeerDesc \<Rightarrow> 'w heap \<Rightarrow> Peer result \<times> 'w heap" where
  "import_once L c desc s = Peer_import_ctx L c (pd_seg_ctx desc) (pd_rjetty desc) Ctp TOKEN_VALUE s"

function import_loop ::
  "'w liburma \<Rightarrow> Context \<Rightarrow> PeerDesc \<Rightarrow> u32 \<Rightarrow> 'w heap \<Rightarrow> Peer result \<times> 'w heap" where
  "import_loop L c desc attempt s =
     (case import_once L c desc s of
        (Inr p, s) \<Rightarrow> (Inr p, s)
      | (Inl e, s) \<Rightarrow>
          if no_exec e \<and> attempt < IMPORT_RETRIES then import_loop L c desc (attempt + 1) s
          else (Inl e, s))"
  by pat_completeness auto
termination
  by (relation "measure (\<lambda>(L, c, desc, attempt, s). 30 - unat attempt)")
    (auto simp: IMPORT_RETRIES_def word_less_nat_alt unat_word_ariths)

declare import_loop.simps [simp del]

definition import_peer :: "'w liburma \<Rightarrow> Context \<Rightarrow> PeerDesc \<Rightarrow> 'w heap \<Rightarrow> Peer result \<times> 'w heap" where
  "import_peer L c desc s = import_loop L c desc 0 s"

section \<open>The resource bundle\<close>

record UrmaRes =
  res_ctx :: Context
  res_cq :: CompletionQueue
  res_jetty :: Jetty
  res_buf :: RegisteredSeg
  res_seg_ctx :: bytes
  res_rjetty :: bytes
  res_urma :: Urma

text \<open>
  The operator \<open>?\<close> in a function that owns locals: on an error they are dropped, latest first,
  and the function returns it.
\<close>

fun unwind :: "'w liburma \<Rightarrow> val list \<Rightarrow> 'w heap \<Rightarrow> 'w heap" where
  "unwind L [] s = s"
| "unwind L (v # vs) s = unwind L vs (drop_val L v s)"

definition try_drop ::
  "'w liburma \<Rightarrow> val list \<Rightarrow> 'a result \<times> 'w heap \<Rightarrow> ('a \<Rightarrow> 'w heap \<Rightarrow> 'b result option \<times> 'w heap)
     \<Rightarrow> 'b result option \<times> 'w heap" where
  "try_drop L vs r k =
     (let (q, s) = r
      in case q of Inl e \<Rightarrow> (Some (Inl e), unwind L vs s) | Inr x \<Rightarrow> k x s)"

definition UrmaRes_create ::
  "'w liburma \<Rightarrow> string \<Rightarrow> bytes \<Rightarrow> 'w heap \<Rightarrow> UrmaRes result option \<times> 'w heap" where
  "UrmaRes_create L dev msg s =
     try_drop L [] (let (cap, s) = query_device L dev s in (check_mode_support (\<lambda>_. cap) dev, s)) (\<lambda>_ s.
     try_drop L [] (Urma_init L s) (\<lambda>urma s.
     try_drop L [VUrma urma] (Context_create L urma dev s) (\<lambda>ctx s.
     try_drop L [VCtx ctx, VUrma urma] (CompletionQueue_new L ctx DEFAULT_DEPTH s) (\<lambda>cq s.
     try_drop L [VCq cq, VCtx ctx, VUrma urma]
       (Jetty_new L ctx cq (default_JettyOpts\<lparr>opt_multi_path := starts_with dev ''bonding''\<rparr>) s) (\<lambda>jetty s.
     try_drop L [VJetty jetty, VCq cq, VCtx ctx, VUrma urma]
       (RegisteredBuf_new L ctx BUF_SIZE TOKEN_VALUE s) (\<lambda>buf s.
     try_drop L [VSeg buf, VJetty jetty, VCq cq, VCtx ctx, VUrma urma] (export_seg_ctx L buf s) (\<lambda>seg_ctx s.
     try_drop L [VSeg buf, VJetty jetty, VCq cq, VCtx ctx, VUrma urma] (export_rjetty L jetty s) (\<lambda>rjetty s.
       if length msg < MSG_SIZE
       then (None, unwind L [VSeg buf, VJetty jetty, VCq cq, VCtx ctx, VUrma urma] s)
       else (Some (Inr \<lparr>res_ctx = ctx, res_cq = cq, res_jetty = jetty, res_buf = buf,
                  res_seg_ctx = seg_ctx, res_rjetty = rjetty, res_urma = urma\<rparr>),
             set_lib (l_write_bytes L (rs_va buf) (take MSG_SIZE msg) (lib_state s)) s)))))))))"

text \<open>The fields of a bundle are dropped in declaration order.\<close>

definition drop_UrmaRes :: "'w liburma \<Rightarrow> UrmaRes \<Rightarrow> 'w heap \<Rightarrow> 'w heap" where
  "drop_UrmaRes L r s =
     unwind L [VCtx (res_ctx r), VCq (res_cq r), VJetty (res_jetty r), VSeg (res_buf r), VUrma (res_urma r)] s"

definition res_desc :: "'w liburma \<Rightarrow> UrmaRes \<Rightarrow> 'w heap \<Rightarrow> PeerDesc" where
  "res_desc L r s =
     PeerDesc_of (descriptor L (res_buf r) s) (j_id (res_jetty r)) (res_seg_ctx r) (res_rjetty r)"

definition res_opt ::
  "'w liburma \<Rightarrow> bool \<Rightarrow> string \<Rightarrow> bytes \<Rightarrow> 'w heap \<Rightarrow> UrmaRes option result option \<times> 'w heap" where
  "res_opt L tcp_hook dev msg s =
     (if tcp_hook then (Some (Inr None), s)
      else let (r, s) = UrmaRes_create L dev msg s
           in (map_option (\<lambda>x. rbind x (\<lambda>res. Inr (Some res))) r, s))"

section \<open>Lemmas\<close>

lemma inv_unwind: "inv ex {#} (mset vs + V) s \<Longrightarrow> inv ex {#} V (unwind L vs s)"
  by (induction vs arbitrary: s) (simp_all add: inv_drop_val)

fun new_vals :: "('a \<Rightarrow> val list) \<Rightarrow> 'a result \<Rightarrow> val multiset" where
  "new_vals mk (Inl e) = {#}"
| "new_vals mk (Inr x) = mset (mk x)"

lemma new_vals_eq: "new_vals (\<lambda>x. [f x]) r = res_val f r" "new_vals (\<lambda>_. []) q = {#}"
  by (cases r; simp) (cases q; simp)

lemma try_drop_rule:
  assumes "inv ex {#} (new_vals mk (fst r) + (mset vs + V)) (snd r)"
    and "\<forall>e s. inv ex {#} V s \<longrightarrow> P (Some (Inl e), s)"
    and "\<And>x s. fst r = Inr x \<Longrightarrow> s = snd r \<Longrightarrow> inv ex {#} (mset (mk x @ vs) + V) s \<Longrightarrow> P (k x s)"
  shows "P (try_drop L vs r k)"
proof (cases "fst r")
  case (Inl e)
  then have "inv ex {#} V (unwind L vs (snd r))" using assms(1) by (simp add: inv_unwind)
  then show ?thesis using assms(2) Inl by (simp add: try_drop_def split_beta)
next
  case (Inr x)
  then show ?thesis using assms(1,3) by (simp add: try_drop_def split_beta add.assoc)
qed

text \<open>For evaluation: the continuation is simplified only once the step's result is known.\<close>

lemma try_drop_simps:
  "try_drop L vs (Inl e, s) k = (Some (Inl e), unwind L vs s)"
  "try_drop L vs (Inr x, s) k = k x s"
  by (simp_all add: try_drop_def)

lemma try_drop_weak_cong: "r = r' \<Longrightarrow> try_drop L vs r k = try_drop L vs r' k"
  by simp

lemma inv_set_lib: "inv ex X V s \<Longrightarrow> inv ex X V (set_lib l s)"
  by (rule inv_transfer) (simp_all add: tracks_def)

lemma cq_new_same_ctx:
  "CompletionQueue_new L c depth s = (Inr q, s') \<Longrightarrow> same_ctx c q s'"
  by (auto simp: CompletionQueue_new_def same_ctx_def clone_ctx_def set_ctx_strong_def Let_def
      split: prod.splits if_splits)

fun bundle_vals :: "UrmaRes result option \<Rightarrow> val multiset" where
  "bundle_vals (Some (Inr r)) =
     mset [VCtx (res_ctx r), VCq (res_cq r), VJetty (res_jetty r), VSeg (res_buf r), VUrma (res_urma r)]"
| "bundle_vals _ = {#}"

lemma inv_exports:
  assumes "inv ex {#} V s"
  shows "VJetty j \<in># V \<Longrightarrow> inv ex {#} V (snd (export_rjetty L j s))"
    and "VSeg g \<in># V \<Longrightarrow> inv ex {#} V (snd (export_seg_ctx L g s))"
proof -
  show "inv ex {#} V (snd (export_rjetty L j s))" if j: "VJetty j \<in># V"
  proof -
    obtain r s' where F: "export_rjetty L j s = (r, s')" by force
    then show ?thesis
      unfolding export_rjetty_def using inv_export_blob [OF _ assms jetty_obj [OF j]] by force
  qed
  show "inv ex {#} V (snd (export_seg_ctx L g s))" if g: "VSeg g \<in># V"
  proof -
    obtain r s' where F: "export_seg_ctx L g s = (r, s')" by force
    then show ?thesis
      unfolding export_seg_ctx_def using inv_export_blob [OF _ assms seg_obj [OF g]] by force
  qed
qed

lemma inv_import_loop:
  assumes "inv ex {#} V s" and "VCtx c \<in># V"
  shows "inv ex {#} (res_val VPeer (fst (import_loop L c desc n s)) + V) (snd (import_loop L c desc n s))"
  using assms
proof (induction L c desc n s rule: import_loop.induct)
  case (1 L c desc n s)
  have live: "0 < cstrong s (ctx_inner c)" using counts_live(2) [OF invD(1) [OF 1(2)] 1(3)] by simp
  obtain r s' where F: "Peer_import_ctx L c (pd_seg_ctx desc) (pd_rjetty desc) Ctp TOKEN_VALUE s = (r, s')"
    by force
  note I = inv_peer_import_ctx [OF F 1(2) live]
  show ?case
    using I 1(1) [of r s'] 1(3) F
    by (cases r) (auto simp: import_once_def import_loop.simps [of L c desc n s])
qed

lemmas create_steps = inv_urma_init [OF prod.collapse [symmetric]]
  inv_context_create [OF prod.collapse [symmetric]] inv_cq_new [OF prod.collapse [symmetric]]
  inv_jetty_new [OF prod.collapse [symmetric]] inv_RegisteredBuf_new [OF prod.collapse [symmetric]]
  inv_query_device [OF prod.collapse [symmetric]]

lemma inv_UrmaRes_create:
  fixes s :: "'w heap"
  assumes inv: "inv False {#} V s"
  shows "case UrmaRes_create L dev msg s of (r, s') \<Rightarrow> inv False {#} (bundle_vals r + V) s'"
proof -
  define P where "P = (\<lambda>(r, s' :: 'w heap). inv False {#} (bundle_vals r + V) s')"
  have err: "\<forall>e s. inv False {#} V s \<longrightarrow> P (Some (Inl e), s)" by (simp add: P_def)
  have live: "0 < cstrong s (ctx_inner c)" if "inv False {#} W s" "VCtx c \<in># W" for c W s
    using counts_live(2) [OF invD(1) [OF that(1)] that(2)] by simp
  have liveq: "0 < qstrong s (cq_inner q)" if "inv False {#} W s" "VCq q \<in># W" for q W s
    using counts_live(3) [OF invD(1) [OF that(1)] that(2)] by simp
  have same: "same_ctx c q (snd (CompletionQueue_new L c n s))"
    if "fst (CompletionQueue_new L c n s) = Inr q" for c n q s
    using cq_new_same_ctx [of L c n s q] that by (metis prod.collapse)
  have newbuf: "inv False {#} (res_val VSeg (fst (RegisteredBuf_new L c n tok s)) + W) (snd (RegisteredBuf_new L c n tok s))"
    if "inv False {#} W s" "VCtx c \<in># W" for c n tok W s
    using create_steps(5) [OF that] by simp
  note rule = try_drop_rule [where P = P and ex = False and V = V, OF _ err]
  have "P (UrmaRes_create L dev msg s)"
    unfolding UrmaRes_create_def
    apply (rule rule [where mk = "\<lambda>_. []"])
    subgoal using create_steps(6) [OF inv] by (simp add: new_vals_eq split_beta)
    apply (rule rule [where mk = "\<lambda>u. [VUrma u]"])
    subgoal premises I using create_steps(1) I(3) by (simp add: new_vals_eq)
    apply (rule rule [where mk = "\<lambda>c. [VCtx c]"])
    subgoal premises I using create_steps(2) [OF I(6)] by (simp add: new_vals_eq)
    apply (rule rule [where mk = "\<lambda>q. [VCq q]"])
    subgoal premises I using create_steps(3) [OF I(9)] live [OF I(9)] by (simp add: new_vals_eq)
    apply (rule rule [where mk = "\<lambda>j. [VJetty j]"])
    subgoal premises I
      using create_steps(4) [OF I(12)] live [OF I(12)] liveq [OF I(12)] same [OF I(10)] I(11)
      by (simp add: new_vals_eq default_JettyOpts_def)
    apply (rule rule [where mk = "\<lambda>g. [VSeg g]"])
    subgoal premises I using newbuf [OF I(15)] by (simp add: new_vals_eq)
    apply (rule rule [where mk = "\<lambda>_. []"])
    subgoal premises I using inv_exports(2) [OF I(18)] by (simp add: new_vals_eq)
    apply (rule rule [where mk = "\<lambda>_. []"])
    subgoal premises I using inv_exports(1) [OF I(21)] by (simp add: new_vals_eq)
    subgoal premises I for _ _ urma _ ctx _ cq _ jetty _ buf _ seg_ctx _ rjetty s
      using inv_set_lib [OF I(24)] inv_unwind [OF I(24)] by (auto simp: P_def add_mset_commute)
    done
  then show ?thesis by (simp add: P_def)
qed

text \<open>The tries of an import, each from the state the one before left.\<close>

fun nth_import :: "'w liburma \<Rightarrow> Context \<Rightarrow> PeerDesc \<Rightarrow> 'w heap \<Rightarrow> nat \<Rightarrow> Peer result \<times> 'w heap" where
  "nth_import L c desc s 0 = import_once L c desc s"
| "nth_import L c desc s (Suc k) = nth_import L c desc (snd (import_once L c desc s)) k"

fun retryable :: "Peer result \<Rightarrow> bool" where
  "retryable (Inl e) = no_exec e"
| "retryable (Inr p) = False"

lemma import_loop_nth:
  "n \<le> 30 \<Longrightarrow> import_loop L c desc (of_nat n) s = nth_import L c desc s
     (length (takeWhile (\<lambda>k. retryable (fst (nth_import L c desc s k))) [0..<30 - n]))"
proof (induction "30 - n" arbitrary: n s)
  case 0
  then show ?case
    by (auto simp: import_loop.simps [of L c desc _ s] IMPORT_RETRIES_def split: prod.split sum.split)
next
  case (Suc m)
  have more: "of_nat n < IMPORT_RETRIES" "30 - n = Suc m" "30 - Suc n = m"
    using Suc by (simp_all add: IMPORT_RETRIES_def word_less_nat_alt unat_of_nat)
  have m: "m = 29 - n" "n \<le> 29" using Suc(2) by simp_all
  obtain r s' where F: "import_once L c desc s = (r, s')" by force
  have IH: "import_loop L c desc (of_nat (Suc n)) s' = nth_import L c desc s'
      (length (takeWhile (\<lambda>k. retryable (fst (nth_import L c desc s' k))) [0..<m]))"
    using Suc(1) [OF more(3) [symmetric], of s'] m by simp
  have shift: "takeWhile (\<lambda>k. retryable (fst (nth_import L c desc s k))) [0..<Suc m]
      = (if retryable r then 0 # map Suc (takeWhile (\<lambda>k. retryable (fst (nth_import L c desc s' k))) [0..<m]) else [])"
    by (simp add: upt_conv_Cons F map_Suc_upt [symmetric] takeWhile_map comp_def del: upt_Suc)
  show ?case
    using IH more(1)
    by (cases r) (auto simp: import_loop.simps [of L c desc _ s] more(2) shift F add.commute simp del: upt_Suc)
qed

text \<open>The final step of a thread: what is still owned is dropped, and the slot with it.\<close>

lemma inv_fresh: "inv False {#} {#} (pheap (start w))"
  using start_inv [of w] by (simp add: prog_inv_def start_def)

lemma inv_thread_exit_clean:
  assumes "inv False {#} {#} s" and "honest (event_log (thread_exit L s))"
  shows "prun proto_init (event_log (thread_exit L s)) = Some proto_init"
proof -
  have I: "inv True {#} {#} (thread_exit L s)" using assms(1) by (rule inv_thread_exit)
  then obtain p where p: "prun proto_init (event_log (thread_exit L s)) = Some p"
      "mset (p_live p) = {#}" "\<not> p_inited p"
    using invD(3) [OF I] assms(2) nothing_left [OF I] by (auto simp: tracks_def)
  then have "p = proto_init" by (cases p) (simp add: proto_init_def)
  with p show ?thesis by simp
qed

lemma cstr_len_eq: "cstr_len b = length (takeWhile (\<lambda>c. c \<noteq> 0) b)"
proof (induction b)
  case (Cons c b)
  then show ?case by (cases "position (\<lambda>c. c = 0) b") (auto simp: cstr_len_def)
qed (simp add: cstr_len_def)

lemma takeWhile_take: "takeWhile P (take n xs) = take n (takeWhile P xs)"
  by (induction xs arbitrary: n) (auto simp: take_Cons')

lemma takeWhile_append_replicate: "\<not> P x \<Longrightarrow> takeWhile P (xs @ replicate n x) = takeWhile P xs"
  by (induction xs) (cases n; simp)+

section \<open>Properties\<close>

fun drop_bundle :: "'w liburma \<Rightarrow> UrmaRes result option \<Rightarrow> 'w heap \<Rightarrow> 'w heap" where
  "drop_bundle L (Some (Inr res)) s = drop_UrmaRes L res s"
| "drop_bundle L _ s = s"

definition bundle_end :: "'w liburma \<Rightarrow> string \<Rightarrow> bytes \<Rightarrow> 'w heap \<Rightarrow> 'w heap" where
  "bundle_end L dev msg s =
     thread_exit L (case UrmaRes_create L dev msg s of (r, s) \<Rightarrow> drop_bundle L r s)"

text \<open>
  C7 (UrmaRes::create). Started on a fresh thread, the bundle is created completely or not at
  all: whichever of its steps fails (the mode check, any of the six resources, an export, the
  panic on a message shorter than 64 bytes), or when the finished bundle is dropped, the thread
  ends with every library object deleted in an allowed order and the library uninitialised.
\<close>

theorem UrmaRes_all_or_nothing:
  assumes "honest (event_log (bundle_end L dev msg (pheap (start w))))"
  shows "prun proto_init (event_log (bundle_end L dev msg (pheap (start w)))) = Some proto_init"
proof -
  obtain r s where F: "UrmaRes_create L dev msg (pheap (start w)) = (r, s)" by force
  have I: "inv False {#} (bundle_vals r) s"
    using inv_UrmaRes_create [OF inv_fresh, of L dev msg w] F by simp
  have "inv False {#} {#} (drop_bundle L r s)"
    using I inv_unwind [of False _ "{#}" s L]
    by (cases "(L, r, s)" rule: drop_bundle.cases) (auto simp: drop_UrmaRes_def simp del: unwind.simps)
  then show ?thesis
    using inv_thread_exit_clean [of _ L] assms by (simp add: bundle_end_def F)
qed

text \<open>A device with RM and CTP, on the concrete library.\<close>

definition rm_attr :: urma_device_attr_t where
  "rm_attr = default_urma_device_attr_t\<lparr>da_dev_cap := default_urma_device_cap_t\<lparr>
     dc_trans_mode := 1, dc_rm_tp_cap := \<lparr>tp_cap_value = 2\<rparr>, dc_feature := \<lparr>feature_value = 0x40000\<rparr>\<rparr>\<rparr>"

definition rm_lib :: "demo liburma" where
  "rm_lib = demo_lib\<lparr>l_query_device := \<lambda>_ d. (0, rm_attr, d)\<rparr>"

lemma rm_lib_mode: "check_mode_support (\<lambda>_. Inr (DeviceCap_from_raw (da_dev_cap rm_attr))) ''udma0'' = Inr ()"
proof -
  have "missing_fixed_mode (DeviceCap_from_raw (da_dev_cap rm_attr)) False = []"
    by (simp add: missing_fixed_mode_def supports_def supports_mode_def DeviceCap_from_raw_def rm_attr_def
      default_urma_device_cap_t_def tp_cap_of_def ffi_const cap_ctp_def ctp_en_def)
  then show ?thesis by (simp add: check_mode_support_def starts_with_def)
qed

lemma rm_lib_honest:
  "honest (event_log (bundle_end rm_lib ''udma0'' (replicate 64 7) (pheap (start (demo_start [] [])))))"
  by (simp add: exec_defs query_device_def rm_lib_mode try_drop_simps rm_lib_def ffi_const
      UrmaRes_create_def MSG_SIZE_def export_seg_ctx_def BUF_SIZE_def drop_UrmaRes_def bundle_end_def
      honest_def cong: let_weak_cong try_drop_weak_cong)

theorem UrmaRes_all_or_nothing_witness:
  "prun proto_init (event_log (bundle_end rm_lib ''udma0'' (replicate 64 7) (pheap (start (demo_start [] [])))))
     = Some proto_init"
  by (rule UrmaRes_all_or_nothing [OF rm_lib_honest])

text \<open>
  C8 (import_peer). The import is tried at most 31 times: the result, and the state, are those of
  the first try that does not fail with errno ENOEXEC, or of the 31st.
\<close>

theorem import_peer_bounded:
  "import_peer L c desc s =
     nth_import L c desc s
       (length (takeWhile (\<lambda>k. retryable (fst (nth_import L c desc s k))) [0..<30]))"
  using import_loop_nth [of 0 L c desc s] by (simp add: import_peer_def)

text \<open>
  On PeerDesc and messages: A descriptor gives back the segment and jetty it was made of and is
  determined by them and its blobs; a message is always 64 bytes ending in a zero, and its length
  as a C string is that of the text up to its first zero byte, at most 63.
\<close>

theorem PeerDesc_and_messages:
  "to_pair (PeerDesc_of seg jetty sc rj) = (seg, jetty)
   \<and> PeerDesc_of (fst (to_pair d)) (snd (to_pair d)) (pd_seg_ctx d) (pd_rjetty d) = d
   \<and> length (fill_msg txt) = MSG_SIZE \<and> last (fill_msg txt) = 0
   \<and> cstr_len (fill_msg txt) = min 63 (length (takeWhile (\<lambda>c. c \<noteq> 0) txt))"
proof -
  have msg: "fill_msg txt = take 63 txt @ replicate (64 - min (length txt) 63) 0"
    by (cases "length txt \<le> 63") (simp_all add: fill_msg_def MSG_SIZE_def Let_def min_def)
  have len: "length (fill_msg txt) = MSG_SIZE" by (simp add: msg MSG_SIZE_def)
  have "0 < 64 - min (length txt) 63" by simp
  then have last: "last (fill_msg txt) = 0" by (simp only: msg last_append) simp
  have "length (takeWhile (\<lambda>c. c \<noteq> 0) (fill_msg txt)) = min 63 (length (takeWhile (\<lambda>c. c \<noteq> 0) txt))"
    by (simp add: msg takeWhile_append_replicate takeWhile_take)
  with len last show ?thesis by (simp add: cstr_len_eq to_pair_def PeerDesc_of_def)
qed

end
