(* ===== verification/Uses.thy ===== *)
theory Uses
  imports Common Pipeline
begin

text \<open>
  What the data plane leaves alone. Posting, polling, storing into a buffer and a whole bandwidth
  pass make library calls that only use live objects: the cells of the heap stay as they are and
  the log grows by uses. So every such call keeps the ownership invariant, whatever it returns.
\<close>

section \<open>Calls that only use objects\<close>

definition uses :: "robj set \<Rightarrow> 'w heap \<Rightarrow> 'w heap \<Rightarrow> bool" where
  "uses objs s s' \<longleftrightarrow> cells s' = cells s
     \<and> (\<exists>us. event_log s' = event_log s @ map EUse us \<and> (\<forall>u \<in> set us. set u \<subseteq> objs))"

lemma uses_refl [simp]: "uses objs s s"
  by (simp add: uses_def)

lemma uses_trans: "uses objs s t \<Longrightarrow> uses objs t u \<Longrightarrow> uses objs s u"
proof -
  assume a: "uses objs s t" and b: "uses objs t u"
  from a obtain us where us: "cells t = cells s" "event_log t = event_log s @ map EUse us"
      "\<forall>u \<in> set us. set u \<subseteq> objs" unfolding uses_def by blast
  from b obtain vs where vs: "cells u = cells t" "event_log u = event_log t @ map EUse vs"
      "\<forall>u \<in> set vs. set u \<subseteq> objs" unfolding uses_def by blast
  have "event_log u = event_log s @ map EUse (us @ vs)" using us(2) vs(2) by simp
  moreover have "\<forall>u \<in> set (us @ vs). set u \<subseteq> objs" using us(3) vs(3) by auto
  ultimately show "uses objs s u" using us(1) vs(1) unfolding uses_def by metis
qed

lemma uses_cells: "uses objs s s' \<Longrightarrow> cells s' = cells s"
  by (simp add: uses_def)

lemma cells_call_use [simp]: "cells (snd (call_use f objs s)) = cells s"
  by (simp add: call_use_def split_beta record_event_def set_lib_def cells_def)

lemma uses_call_use: "set u \<subseteq> objs \<Longrightarrow> uses objs s (snd (call_use f u s))"
  unfolding uses_def
  by (intro conjI cells_call_use exI [of _ "[u]"])
    (simp_all add: call_use_def split_beta record_event_def set_lib_def)

lemma uses_set_lib [simp]: "uses objs s (set_lib l s)"
  unfolding uses_def by (intro conjI exI [of _ "[]"]) (simp_all add: set_lib_def cells_def)

text \<open>The invariant is kept when the objects used are live.\<close>

lemma objs_of_cells: "cells s' = cells s \<Longrightarrow> objs_of V s' = objs_of V s"
  by (simp add: objs_of_def cells_def raws_def cq_ctxs_def jfcs_def)

lemma tracks_log: "event_log s' = event_log s \<Longrightarrow> tracks s' X b = tracks s X b"
  by (simp add: tracks_def)

lemma tracks_uses:
  assumes "tracks s X b" and "\<forall>u \<in> set us. set u \<subseteq> objs_in X" and "event_log s' = event_log s @ map EUse us"
  shows "tracks s' X b"
  using assms(2,3)
proof (induction us arbitrary: s' rule: rev_induct)
  case Nil
  then show ?case using assms(1) by (simp add: tracks_def)
next
  case (snoc u us)
  let ?t = "s'\<lparr>event_log := event_log s @ map EUse us\<rparr>"
  have "tracks ?t X b" by (rule snoc.IH) (use snoc.prems in simp_all)
  moreover have "set u \<subseteq> objs_in X" using snoc.prems by simp
  ultimately have "tracks (snd (call_use (\<lambda>l. ((), l)) u ?t)) X b"
    using call_use_tracks [of "\<lambda>l. ((), l)" u ?t] by (metis surj_pair snd_conv)
  then show ?case
    using snoc.prems by (simp add: tracks_def call_use_def record_event_def set_lib_def)
qed

lemma inv_uses:
  assumes "inv ex {#} V s" and "uses objs s s'" and "objs \<subseteq> objs_in (objs_of V s)"
  shows "inv ex {#} V s'"
proof (rule inv_transfer [OF assms(1) uses_cells [OF assms(2)]])
  assume t: "tracks s (objs_of V s + {#}) (\<exists>i. 0 < ustrong s i)"
  obtain us where us: "event_log s' = event_log s @ map EUse us" "\<forall>u \<in> set us. set u \<subseteq> objs"
    using assms(2) unfolding uses_def by blast
  show "tracks s' (objs_of V s + {#}) (\<exists>i. 0 < ustrong s i)"
    by (rule tracks_uses [OF t _ us(1)]) (use us(2) assms(3) in auto)
qed

section \<open>The data plane\<close>

lemma uses_poll: "OJfc (cq_jfc q s) \<in> objs \<Longrightarrow> uses objs s (snd (poll L q s))"
proof -
  assume j: "OJfc (cq_jfc q s) \<in> objs"
  obtain r s1 where u: "call_use (\<lambda>l. let (n, crs, l) = l_poll_jfc L (cq_jfc q s) 1 l in ((n, crs), l))
      [OJfc (cq_jfc q s)] s = (r, s1)"
    by (meson surj_pair)
  have "uses objs s s1" using uses_call_use [of "[OJfc (cq_jfc q s)]" objs] j u by (metis snd_conv empty_set empty_subsetI insert_subset list.simps(15))
  moreover have "snd (poll L q s) = s1"
    using u by (simp add: poll_def ffi_poll_jfc_def split: prod.splits)
  ultimately show ?thesis by simp
qed

lemma uses_poll_batch: "OJfc (cq_jfc q s) \<in> objs \<Longrightarrow> uses objs s (snd (snd (poll_batch L q out s)))"
  by (auto simp: poll_batch_def ffi_poll_jfc_def Let_def split_beta intro!: uses_call_use)

lemma cq_jfc_uses: "uses objs s s' \<Longrightarrow> cq_jfc q s' = cq_jfc q s"
  by (simp add: uses_def cells_def cq_jfc_def)

lemma uses_post_send:
  "{OJetty (j_raw j), OImpJetty (wr_tjetty wr)} \<subseteq> objs \<Longrightarrow> uses objs s (snd (ffi_post_send L j wr sges wrs s))"
  unfolding ffi_post_send_def by (rule uses_call_use) simp

lemma uses_one_sided:
  assumes "{OJetty (j_raw j), OImpJetty (peer_tjetty peer)} \<subseteq> objs"
  shows "uses objs s (snd (post_read_signaled L j peer va local ctx sig s))"
    and "uses objs s (snd (post_write_signaled L j peer va local ctx sig s))"
  using assms
  by (auto simp: post_read_signaled_def post_write_signaled_def Let_def split_beta
      intro!: uses_post_send split: sum.split option.split)

lemma uses_two_sided:
  shows "{OJetty (j_raw j), OImpJetty (peer_tjetty peer)} \<subseteq> objs \<Longrightarrow> uses objs s (snd (post_send L j peer local ctx s))"
    and "OJfr (j_jfr j) \<in> objs \<Longrightarrow> uses objs s (snd (post_recv L j local ctx s))"
  by (auto simp: post_send_def post_recv_def Let_def split_beta
      intro!: uses_post_send uses_call_use split: sum.split)

text \<open>Every request of a list names the peer's jetty.\<close>

definition all_to :: "ptr \<Rightarrow> urma_jfs_wr_t list \<Rightarrow> bool" where
  "all_to tj wrs \<longleftrightarrow> list_all (\<lambda>w. wr_tjetty w = tj) wrs"

lemma all_to_update: "all_to tj wrs \<Longrightarrow> wr_tjetty w = tj \<Longrightarrow> all_to tj (wrs[i := w])"
  using set_update_subset_insert [of wrs i w] by (auto simp: all_to_def list_all_iff)

lemma all_to_nth: "all_to tj wrs \<Longrightarrow> i < length wrs \<Longrightarrow> wr_tjetty (wrs ! i) = tj"
  by (simp add: all_to_def list_all_length)

lemma all_to_wire:
  "all_to tj wrs \<Longrightarrow> all_to tj (wire_reads k i wrs) \<and> length (wire_reads k i wrs) = length wrs"
  "all_to tj wrs \<Longrightarrow> all_to tj (wire_writes k i wrs) \<and> length (wire_writes k i wrs) = length wrs"
proof -
  have step: "all_to tj (let wrs = wrs[i := (wrs ! i)\<lparr>wr_rw := rw\<rparr>]
      in if i + 1 < length wrs then wrs[i := (wrs ! i)\<lparr>wr_next := nx\<rparr>] else wrs)"
    if a: "all_to tj wrs" for wrs rw nx and i :: nat
  proof (cases "i < length wrs")
    case True
    have b: "all_to tj (wrs[i := (wrs ! i)\<lparr>wr_rw := rw\<rparr>])"
      by (rule all_to_update [OF a]) (simp add: all_to_nth [OF a True])
    then have "all_to tj (wrs[i := (wrs ! i)\<lparr>wr_rw := rw\<rparr>, i := ((wrs[i := (wrs ! i)\<lparr>wr_rw := rw\<rparr>]) ! i)\<lparr>wr_next := nx\<rparr>])"
      by (rule all_to_update) (simp add: True all_to_nth [OF a True])
    with b show ?thesis using True by (simp add: Let_def)
  next
    case False
    then show ?thesis using a by (simp add: Let_def list_update_beyond)
  qed
  show "all_to tj wrs \<Longrightarrow> all_to tj (wire_reads k i wrs) \<and> length (wire_reads k i wrs) = length wrs"
    using step by (induction k i wrs rule: wire_reads.induct) (simp_all add: Let_def)
  show "all_to tj wrs \<Longrightarrow> all_to tj (wire_writes k i wrs) \<and> length (wire_writes k i wrs) = length wrs"
    using step by (induction k i wrs rule: wire_writes.induct) (simp_all add: Let_def)
qed

lemma all_to_push:
  "all_to (peer_tjetty peer) (snd (snd vecs)) \<Longrightarrow> all_to (peer_tjetty peer) (snd (snd (push_reads peer rs vecs)))
     \<and> length (snd (snd (push_reads peer rs vecs))) = length (snd (snd vecs)) + length rs"
  "all_to (peer_tjetty peer) (snd (snd vecs)) \<Longrightarrow> all_to (peer_tjetty peer) (snd (snd (push_writes peer ws vecs)))
     \<and> length (snd (snd (push_writes peer ws vecs))) = length (snd (snd vecs)) + length ws"
proof -
  show "all_to (peer_tjetty peer) (snd (snd vecs)) \<Longrightarrow> all_to (peer_tjetty peer) (snd (snd (push_reads peer rs vecs)))
     \<and> length (snd (snd (push_reads peer rs vecs))) = length (snd (snd vecs)) + length rs"
    by (induction peer rs vecs rule: push_reads.induct) (simp_all add: all_to_def)
  show "all_to (peer_tjetty peer) (snd (snd vecs)) \<Longrightarrow> all_to (peer_tjetty peer) (snd (snd (push_writes peer ws vecs)))
     \<and> length (snd (snd (push_writes peer ws vecs))) = length (snd (snd vecs)) + length ws"
    by (induction peer ws vecs rule: push_writes.induct) (simp_all add: all_to_def)
qed

lemma uses_lists:
  assumes "{OJetty (j_raw j), OImpJetty (peer_tjetty peer)} \<subseteq> objs"
  shows "uses objs s (snd (post_read_list L j peer rs s))"
    and "uses objs s (snd (post_write_list L j peer ws s))"
proof -
  have nil: "all_to tj []" for tj by (simp add: all_to_def)
  have "wr_tjetty (wire_reads k 0 (snd (snd (push_reads peer rs ([], [], [])))) ! 0) = peer_tjetty peer"
    if "rs \<noteq> []" for k
    using that all_to_push(1) [of peer "([], [], [])" rs] nil
      all_to_wire(1) [of "peer_tjetty peer" "snd (snd (push_reads peer rs ([], [], [])))" k 0]
    by (intro all_to_nth) (auto simp flip: length_greater_0_conv)
  then show "uses objs s (snd (post_read_list L j peer rs s))"
    using assms by (auto simp: post_read_list_def Let_def split_beta intro!: uses_post_send)
  have "wr_tjetty (wire_writes k 0 (snd (snd (push_writes peer ws ([], [], [])))) ! 0) = peer_tjetty peer"
    if "ws \<noteq> []" for k
    using that all_to_push(2) [of peer "([], [], [])" ws] nil
      all_to_wire(2) [of "peer_tjetty peer" "snd (snd (push_writes peer ws ([], [], [])))" k 0]
    by (intro all_to_nth) (auto simp flip: length_greater_0_conv)
  then show "uses objs s (snd (post_write_list L j peer ws s))"
    using assms by (auto simp: post_write_list_def Let_def split_beta intro!: uses_post_send)
qed

section \<open>A bandwidth pass\<close>

text \<open>The objects a pass uses, and what it means for a step to use no others.\<close>

definition within :: "BwCtx \<Rightarrow> robj set \<Rightarrow> 'w heap \<Rightarrow> bool" where
  "within bw objs h \<longleftrightarrow> (\<forall>j \<in> set (bx_jetties bw). OJetty (j_raw j) \<in> objs)
     \<and> (\<forall>p \<in> set (bx_peers bw). OImpJetty (peer_tjetty p) \<in> objs) \<and> OJfc (cq_jfc (bx_cq bw) h) \<in> objs"

lemma within_uses: "uses objs' h h' \<Longrightarrow> within bw objs h' = within bw objs h"
  by (simp add: within_def cq_jfc_uses)

definition kept :: "robj set \<Rightarrow> 'w bw_state \<Rightarrow> ('a, 'w bw_state) step \<Rightarrow> bool" where
  "kept objs st r \<longleftrightarrow> uses objs (bs_heap st) (bs_heap (snd r))"

lemma kept_and_then:
  assumes "kept objs st r" and "\<And>x s. uses objs (bs_heap st) (bs_heap s) \<Longrightarrow> kept objs s (k x s)"
  shows "kept objs st (and_then r k)"
proof -
  obtain q s where r: "r = (q, s)" by force
  have "uses objs (bs_heap st) (bs_heap (snd (k x s)))" for x
    using uses_trans [of objs "bs_heap st" "bs_heap s"] assms by (auto simp: kept_def r)
  then show ?thesis
    using assms(1) by (auto simp: kept_def r and_then_def split: option.split sum.split)
qed

lemma heap_check_stop [simp]: "bs_heap (snd (check_stop clk stop st)) = bs_heap st"
  by (simp add: check_stop_def split_beta)

lemma heap_count_post [simp]: "bs_heap (count_post clk p j st) = bs_heap st"
  by (simp add: count_post_def read_clock_def)

lemma heap_credit [simp]: "bs_heap (credit j target st) = bs_heap st"
  by (simp add: credit_def)

lemma kept_fill_chunk: "kept objs st (fill_chunk clk p j k reqs st)"
proof (induction k arbitrary: reqs st)
  case (Suc k)
  obtain halt s where c: "check_stop clk (ba_stop p) st = (halt, s)" by force
  then have "bs_heap s = bs_heap st" using heap_check_stop [of clk "ba_stop p" st] by simp
  then show ?case
    using Suc.IH [where st = "count_post clk p j s"] by (auto simp: kept_def c split: option.split sum.split)
qed (simp add: kept_def)

lemma kept_post_chunk:
  assumes "within (ba_bw p) objs (bs_heap st)"
  shows "kept objs st (post_chunk L (ba_bw p) j reqs st)"
proof (cases "j < length (bx_jetties (ba_bw p)) \<and> j < length (bx_peers (ba_bw p))")
  case True
  then have "{OJetty (j_raw (bx_jetties (ba_bw p) ! j)), OImpJetty (peer_tjetty (bx_peers (ba_bw p) ! j))} \<subseteq> objs"
    using assms by (simp add: within_def)
  then show ?thesis
    using uses_lists [of "bx_jetties (ba_bw p) ! j" "bx_peers (ba_bw p) ! j" objs "bs_heap st" L]
    by (auto simp: kept_def post_chunk_def split_beta split: BwOp.split sum.split)
qed (auto simp: kept_def post_chunk_def)

lemma kept_post_step:
  assumes "within (ba_bw p) objs (bs_heap st)"
  shows "kept objs st (post_step L clk p st)"
proof -
  obtain halt s where c: "check_stop clk (ba_stop p) st = (halt, s)" by force
  then have h: "bs_heap s = bs_heap st" using heap_check_stop [of clk "ba_stop p" st] by simp
  have "kept objs s (and_then (fill_chunk clk p j k ([], []) s) (\<lambda>reqs st.
      and_then (post_chunk L (ba_bw p) j reqs st) (\<lambda>_ st. (Some (Inr True), st))))" for j k
    using assms
    by (intro kept_and_then kept_fill_chunk kept_post_chunk) (simp_all add: kept_def h within_uses)
  then show ?thesis
    by (auto simp: post_step_def c kept_def h Let_def split: option.split)
qed

lemma kept_post_phase: "within (ba_bw p) objs (bs_heap st) \<Longrightarrow> kept objs st (post_phase L clk p st)"
proof (induction "free_slots p st" arbitrary: st rule: less_induct)
  case less
  obtain r s where r: "post_step L clk p st = (r, s)" by force
  have k: "uses objs (bs_heap st) (bs_heap s)"
    using kept_post_step [OF less.prems, of L clk] by (simp add: r kept_def)
  show ?case
  proof (cases "r = Some (Inr True)")
    case True
    have "kept objs s (post_phase L clk p s)"
      by (rule less.hyps [OF post_step_progress]) (use r True less.prems k in \<open>simp_all add: within_uses\<close>)
    then show ?thesis
      using uses_trans [OF k] by (simp add: kept_def post_phase.simps [of L clk p st] r True)
  next
    case False
    then show ?thesis
      using k by (auto simp: kept_def post_phase.simps [of L clk p st] r split: option.splits sum.splits)
  qed
qed

lemma kept_post_fence:
  assumes "within (ba_bw p) objs (bs_heap st)" and "j < length (bx_jetties (ba_bw p))"
  shows "kept objs st (post_fence L p j st)"
proof (cases "j < length (bx_peers (ba_bw p))")
  case True
  then have "{OJetty (j_raw (bx_jetties (ba_bw p) ! j)), OImpJetty (peer_tjetty (bx_peers (ba_bw p) ! j))} \<subseteq> objs"
    using assms by (simp add: within_def)
  note u = uses_one_sided(1) [OF this, where s = "bs_heap st" and L = L]
  then show ?thesis
    using sndI [THEN u [THEN back_subst [of "uses objs (bs_heap st)"]]]
    by (auto simp: kept_def post_fence_def Let_def split: sum.split prod.split)
qed (auto simp: kept_def post_fence_def Let_def)

lemma kept_post_fences:
  "within (ba_bw p) objs (bs_heap st) \<Longrightarrow> list_all (\<lambda>j. j < length (bx_jetties (ba_bw p))) js
    \<Longrightarrow> kept objs st (post_fences L p js st)"
proof (induction js arbitrary: st)
  case (Cons j js)
  then show ?case
    by (auto intro!: kept_and_then kept_post_fence simp: within_uses)
qed (simp add: kept_def)

lemma kept_fence_phase:
  assumes "within (ba_bw p) objs (bs_heap st)"
  shows "kept objs st (fence_phase L clk p st)"
proof -
  obtain halt s where c: "check_stop clk (ba_stop p) st = (halt, s)" by force
  then have h: "bs_heap s = bs_heap st" using heap_check_stop [of clk "ba_stop p" st] by simp
  have "kept objs s (post_fences L p [0..<length (bx_jetties (ba_bw p))] s)"
    by (rule kept_post_fences) (use assms h in \<open>simp_all add: list_all_iff\<close>)
  then show ?thesis by (auto simp: kept_def fence_phase_def c h)
qed

lemma kept_poll_phase:
  assumes "within (ba_bw p) objs (bs_heap st)"
  shows "kept objs st (poll_phase L clk p st)"
proof -
  have "kept objs st (poll_records L p st)"
    using uses_poll_batch [of "bx_cq (ba_bw p)" "bs_heap st" objs L "bs_crs st"] assms
    by (auto simp: kept_def poll_records_def within_def Let_def split_beta split: sum.split)
  moreover have "kept objs s (reap_all clk p crs s)" for crs s
  proof (induction crs arbitrary: s)
    case (Cons cr crs)
    have "kept objs s (reap_one clk p cr s)"
      by (auto simp: kept_def reap_one_def read_clock_def split: option.split)
    then show ?case using Cons.IH by (auto intro: kept_and_then)
  qed (simp add: kept_def)
  ultimately show ?thesis
    unfolding poll_phase_def
    by (intro kept_and_then) (auto simp: kept_def read_clock_def)
qed

lemma kept_pass_step:
  fixes st :: "'w bw_state"
  assumes "within (ba_bw p) objs (bs_heap st)"
  shows "kept objs st (pass_step L clk p st)"
  unfolding pass_step_def
proof (intro kept_and_then kept_post_phase [OF assms])
  fix s1 :: "'w bw_state" assume "uses objs (bs_heap st) (bs_heap s1)"
  then have w: "within (ba_bw p) objs (bs_heap s1)" using assms by (simp add: within_uses)
  then show "kept objs s1 (fence_phase L clk p s1)" by (rule kept_fence_phase)
  fix s :: "'w bw_state" assume "uses objs (bs_heap s1) (bs_heap s)"
  then have w: "within (ba_bw p) objs (bs_heap s)" using w by (simp add: within_uses)
  obtain halt t where c: "(if bs_done_total s = bs_next s then check_stop clk (ba_stop p) s else (False, s)) = (halt, t)"
    by force
  have "bs_heap t = bs_heap (snd (if bs_done_total s = bs_next s then check_stop clk (ba_stop p) s else (False, s)))"
    unfolding c by simp
  then have h: "bs_heap t = bs_heap s" by (simp split: if_splits)
  have "kept objs t (and_then (poll_phase L clk p t) (\<lambda>_ st. (Some (Inr False), st)))"
    by (intro kept_and_then kept_poll_phase) (simp_all add: kept_def w h)
  then show "kept objs s (let (halt, st) = (if bs_done_total s = bs_next s then check_stop clk (ba_stop p) s else (False, s))
      in if halt then (Some (Inr True), st)
         else and_then (poll_phase L clk p st) (\<lambda>_ st. (Some (Inr False), st)))"
    unfolding c by (simp add: kept_def h)
qed

lemma kept_bw_loop:
  assumes "bw_loop L clk p st = Some r" and "within (ba_bw p) objs (bs_heap st)"
  shows "kept objs st r"
proof -
  let ?P = "\<lambda>L clk p st r. within (ba_bw p) objs (bs_heap st) \<longrightarrow> kept objs st r"
  have "?P L clk p st r"
  proof (rule bw_loop.raw_induct [of ?P, OF _ assms(1)], intro impI)
    fix loop L clk p st r
    assume IH: "\<And>L clk p st r. loop L clk p st = Some r \<Longrightarrow> ?P L clk p st r"
      and body: "(case pass_step L clk p st of (None, st) \<Rightarrow> Some (None, st)
        | (Some (Inl e), st) \<Rightarrow> Some (Some (Inl e), st)
        | (Some (Inr fin), st) \<Rightarrow> if fin then Some (Some (Inr ()), st) else loop L clk p st) = Some r"
      and w: "within (ba_bw p) objs (bs_heap st)"
    obtain q s where q: "pass_step L clk p st = (q, s)" by force
    have u: "uses objs (bs_heap st) (bs_heap s)"
      using kept_pass_step [OF w, of L clk] by (simp add: kept_def q)
    show "kept objs st r"
    proof (cases "q = Some (Inr False)")
      case True
      then have "kept objs s r" using IH [of L clk p s r] body w u by (simp add: q within_uses)
      then show ?thesis using uses_trans [OF u] by (simp add: kept_def)
    next
      case False
      then show ?thesis using body u by (auto simp: kept_def q split: option.splits sum.splits if_splits)
    qed
  qed
  then show ?thesis using assms(2) by simp
qed

lemma kept_bw_pass:
  assumes "bw_pass L clk p tick h = Some r" and "within (ba_bw p) objs h"
  shows "uses objs h (bs_heap (snd r))"
proof -
  have s: "bs_heap (pass_start clk p tick h) = h" by (simp add: pass_start_def Let_def)
  obtain q where q: "bw_loop L clk p (pass_start clk p tick h) = Some q"
      "r = and_then q (\<lambda>_ st. pass_result clk st)"
    using assms(1) by (auto simp: bw_pass_def)
  have "kept objs (pass_start clk p tick h) (and_then q (\<lambda>_ st. pass_result clk st))"
    by (intro kept_and_then kept_bw_loop [OF q(1)])
      (use assms(2) s in \<open>auto simp: kept_def pass_result_def read_clock_def split: option.split\<close>)
  then show ?thesis by (simp add: q kept_def s)
qed

text \<open>The two passes of a size.\<close>

lemma kept_run_bw_iters:
  assumes "run_bw_iters L clk bw sz depth m warmup iters duration tick h = Some r"
    and "within bw objs h"
  shows "uses objs h (snd (snd r))"
proof -
  define args where "args = (\<lambda>stop timed. \<lparr>ba_bw = bw, ba_size = sz, ba_depth = depth, ba_cq_mod = m,
                    ba_stop = stop, ba_timed = timed\<rparr>)"
  define timed where "timed = (\<lambda>stop tick h.
     map_option (\<lambda>(r, st). and_then (r, (bs_tick st, bs_heap st)) (\<lambda>rep s.
         case rep of None \<Rightarrow> (None, s) | Some x \<Rightarrow> (Some (Inr x), s)))
       (bw_pass L clk (args stop True) tick h))"
  have main: "uses objs h' (snd (snd r))"
    if run: "timed stop tick' h' = Some r" and w: "within bw objs h'" for stop tick' h' r
  proof -
    obtain q st where p: "bw_pass L clk (args stop True) tick' h' = Some (q, st)"
      and r: "r = and_then (q, (bs_tick st, bs_heap st)) (\<lambda>rep s.
         case rep of None \<Rightarrow> (None, s) | Some x \<Rightarrow> (Some (Inr x), s))"
      using run by (auto simp: timed_def)
    have "snd (snd r) = bs_heap st"
      by (auto simp: r and_then_def split: option.split sum.split)
    then show ?thesis using kept_bw_pass [OF p] w by (simp add: args_def)
  qed
  show ?thesis
  proof (cases duration)
    case (Some secs)
    then show ?thesis
      using assms main [of "Until (clk (Suc tick) + unat secs * 1000000000)" "Suc (Suc tick)" h r]
      by (simp add: run_bw_iters_def timed_def args_def Let_def)
  next
    case None
    show ?thesis
    proof (cases "0 < (ucast warmup :: u64)")
      case True
      have "bw_pass L clk (args (Ops (ucast warmup)) False) tick h \<noteq> None"
        by (rule notI) (use assms(1) None True in \<open>simp add: run_bw_iters_def args_def Let_def\<close>)
      then obtain q st where p: "bw_pass L clk (args (Ops (ucast warmup)) False) tick h = Some (q, st)" by auto
      then have r: "(case q of Some (Inr _) \<Rightarrow> timed (Ops (ucast iters)) (bs_tick st) (bs_heap st)
            | Some (Inl e) \<Rightarrow> Some (Some (Inl e), (bs_tick st, bs_heap st))
            | None \<Rightarrow> Some (None, (bs_tick st, bs_heap st))) = Some r"
        using assms(1) None True
        by (cases q) (auto simp: run_bw_iters_def timed_def args_def Let_def and_then_def split: sum.splits)
      have u: "uses objs h (bs_heap st)" using kept_bw_pass [OF p] assms(2) by (simp add: args_def)
      show ?thesis
        using r u main [of "Ops (ucast iters)" "bs_tick st" "bs_heap st" r] assms(2) uses_trans [OF u]
        by (auto simp: within_uses [OF u] split: option.splits sum.splits)
    next
      case False
      then show ?thesis
        using assms main [of "Ops (ucast iters)" tick h r] None
        by (simp add: run_bw_iters_def timed_def args_def Let_def)
    qed
  qed
qed

end
