(* ===== verification/Wire.thy ===== *)
theory Wire
  imports Endpoints Text
begin

text \<open>
  The descriptor line the two nodes of \<open>examples/urma_bench.rs\<close> and \<open>examples/urma_cli.rs\<close>
  exchange: a hexadecimal rendering of a little-endian record with length-prefixed blobs
  (\<open>pack_desc\<close>, \<open>unpack_desc\<close>, the reader \<open>Rd\<close> and the hex functions, which the two files
  share line by line). A text is the list of its bytes. Every reader is shown to accept exactly
  the encodings of its values, so a parser built from readers accepts exactly what the packer
  writes.
\<close>

section \<open>Hexadecimal\<close>

definition HEX :: string where "HEX = ''0123456789abcdef''"

fun hex_enc :: "bytes \<Rightarrow> string" where
  "hex_enc [] = []"
| "hex_enc (b # bs) = HEX ! unat (drop_bit 4 b) # HEX ! unat (b AND 0xf) # hex_enc bs"

text \<open>\<open>c as char\<close> and its display: the UTF-8 bytes of the character U+0000 to U+00FF.\<close>

definition latin1 :: "char \<Rightarrow> string" where
  "latin1 c = (let n = of_char c :: nat
     in if n < 128 then [c] else [char_of (0xC0 + n div 64), char_of (0x80 + n mod 64)])"

definition hex_val :: "char \<Rightarrow> u8 result" where
  "hex_val c = (let n = of_char c :: nat
     in if 48 \<le> n \<and> n \<le> 57 then Inr (of_nat (n - 48))
        else if 97 \<le> n \<and> n \<le> 102 then Inr (of_nat (n - 97 + 10))
        else if 65 \<le> n \<and> n \<le> 70 then Inr (of_nat (n - 65 + 10))
        else Inl (Invalid (''bad hex digit '' @ [CHR 0x27] @ latin1 c @ [CHR 0x27])))"

fun hex_pairs :: "string \<Rightarrow> bytes result" where
  "hex_pairs (a # b # cs) =
     rbind (hex_val a) (\<lambda>x. rbind (hex_val b) (\<lambda>y.
     rbind (hex_pairs cs) (\<lambda>out. Inr ((push_bit 4 x OR y) # out))))"
| "hex_pairs _ = Inr []"

definition hex_dec :: "string \<Rightarrow> bytes result" where
  "hex_dec s =
     (let s = trim s
      in if odd (length s) then Inl (Invalid ''odd-length hex descriptor'') else hex_pairs s)"

section \<open>The reader\<close>

definition rd_take :: "nat \<Rightarrow> string \<Rightarrow> bytes \<Rightarrow> (bytes \<times> bytes) result" where
  "rd_take n what b =
     (if n > length b then Inl (Invalid (''descriptor truncated at '' @ what))
      else Inr (take n b, drop n b))"

definition rd_u32 :: "string \<Rightarrow> bytes \<Rightarrow> (u32 \<times> bytes) result" where
  "rd_u32 what b = rbind (rd_take 4 what b) (\<lambda>(h, b). Inr (u32_from_le h, b))"

definition rd_u64 :: "string \<Rightarrow> bytes \<Rightarrow> (u64 \<times> bytes) result" where
  "rd_u64 what b = rbind (rd_take 8 what b) (\<lambda>(h, b). Inr (u64_from_le h, b))"

definition rd_seg :: "bytes \<Rightarrow> (SegDesc \<times> bytes) result" where
  "rd_seg b =
     rbind (rd_take 16 ''eid'' b) (\<lambda>(eid, b).
     rbind (rd_u32 ''uasid'' b) (\<lambda>(uasid, b).
     rbind (rd_u64 ''va'' b) (\<lambda>(va, b).
     rbind (rd_u64 ''len'' b) (\<lambda>(len, b).
     rbind (rd_u32 ''attr'' b) (\<lambda>(attr, b).
     rbind (rd_u32 ''token_id'' b) (\<lambda>(token_id, b).
       Inr (\<lparr>sd_eid = eid, sd_uasid = uasid, sd_va = va, sd_len = len, sd_attr = attr,
             sd_token_id = token_id\<rparr>, b)))))))"

definition put_seg :: "SegDesc \<Rightarrow> bytes" where
  "put_seg seg = sd_eid seg @ u32_to_le (sd_uasid seg) @ u64_to_le (sd_va seg) @ u64_to_le (sd_len seg)
     @ u32_to_le (sd_attr seg) @ u32_to_le (sd_token_id seg)"

definition put_len :: "'a list \<Rightarrow> bytes" where
  "put_len xs = u32_to_le (of_nat (length xs))"

definition no_trailing :: "('d \<times> bytes) result \<Rightarrow> 'd result" where
  "no_trailing r = rbind r (\<lambda>(d, b).
     if b \<noteq> [] then Inl (Invalid (show_nat (length b) @ '' trailing bytes in descriptor'')) else Inr d)"

section \<open>The bench's descriptor: one rjetty blob per jetty\<close>

record WireDesc =
  wd_seg :: SegDesc
  wd_seg_ctx :: bytes
  wd_rjetty :: "bytes list"

definition pack_bytes :: "WireDesc \<Rightarrow> bytes" where
  "pack_bytes d = put_seg (wd_seg d) @ put_len (wd_seg_ctx d) @ put_len (wd_rjetty d)
     @ concat (map put_len (wd_rjetty d)) @ wd_seg_ctx d @ concat (wd_rjetty d)"

definition pack_desc :: "WireDesc \<Rightarrow> string" where
  "pack_desc d = hex_enc (pack_bytes d)"

fun rd_lens :: "nat \<Rightarrow> nat \<Rightarrow> bytes \<Rightarrow> (u32 list \<times> bytes) result" where
  "rd_lens i 0 b = Inr ([], b)"
| "rd_lens i (Suc n) b =
     rbind (rd_u32 (''rjetty length #'' @ show_nat i) b) (\<lambda>(l, b).
     rbind (rd_lens (Suc i) n b) (\<lambda>(ls, b). Inr (l # ls, b)))"

fun rd_blobs :: "nat \<Rightarrow> u32 list \<Rightarrow> bytes \<Rightarrow> (bytes list \<times> bytes) result" where
  "rd_blobs i [] b = Inr ([], b)"
| "rd_blobs i (l # ls) b =
     rbind (rd_take (unat l) (''rjetty #'' @ show_nat i) b) (\<lambda>(x, b).
     rbind (rd_blobs (Suc i) ls b) (\<lambda>(xs, b). Inr (x # xs, b)))"

definition rd_desc :: "bytes \<Rightarrow> (WireDesc \<times> bytes) result" where
  "rd_desc b =
     rbind (rd_seg b) (\<lambda>(seg, b).
     rbind (rd_u32 ''seg ctx length'' b) (\<lambda>(seg_len, b).
     rbind (rd_u32 ''rjetty count'' b) (\<lambda>(rj_cnt, b).
     if unat rj_cnt = 0 then Inl (Invalid ''descriptor carries no rjetty blob'')
     else
       rbind (rd_lens 0 (unat rj_cnt) b) (\<lambda>(rj_lens, b).
       rbind (rd_take (unat seg_len) ''seg ctx'' b) (\<lambda>(seg_ctx, b).
       rbind (rd_blobs 0 rj_lens b) (\<lambda>(rjetty, b).
         Inr (\<lparr>wd_seg = seg, wd_seg_ctx = seg_ctx, wd_rjetty = rjetty\<rparr>, b)))))))"

definition unpack_desc :: "string \<Rightarrow> WireDesc result" where
  "unpack_desc s = rbind (hex_dec s) (\<lambda>b. no_trailing (rd_desc b))"

section \<open>The command line tool's descriptor: a single rjetty blob\<close>

record CliDesc =
  cd_seg :: SegDesc
  cd_seg_ctx :: bytes
  cd_rjetty :: bytes

definition cli_pack_bytes :: "CliDesc \<Rightarrow> bytes" where
  "cli_pack_bytes d = put_seg (cd_seg d) @ put_len (cd_seg_ctx d) @ put_len (cd_rjetty d)
     @ cd_seg_ctx d @ cd_rjetty d"

definition cli_pack_desc :: "CliDesc \<Rightarrow> string" where
  "cli_pack_desc d = hex_enc (cli_pack_bytes d)"

definition cli_rd_desc :: "bytes \<Rightarrow> (CliDesc \<times> bytes) result" where
  "cli_rd_desc b =
     rbind (rd_seg b) (\<lambda>(seg, b).
     rbind (rd_u32 ''seg ctx length'' b) (\<lambda>(seg_len, b).
     rbind (rd_u32 ''rjetty length'' b) (\<lambda>(rj_len, b).
     rbind (rd_take (unat seg_len) ''seg ctx'' b) (\<lambda>(seg_ctx, b).
     rbind (rd_take (unat rj_len) ''rjetty'' b) (\<lambda>(rjetty, b).
       Inr (\<lparr>cd_seg = seg, cd_seg_ctx = seg_ctx, cd_rjetty = rjetty\<rparr>, b))))))"

definition cli_unpack_desc :: "string \<Rightarrow> CliDesc result" where
  "cli_unpack_desc s = rbind (hex_dec s) (\<lambda>b. no_trailing (cli_rd_desc b))"

section \<open>Readers accept exactly the encodings\<close>

text \<open>
  The interface of a reader: it succeeds exactly on the encoding of an admissible value followed
  by anything, and returns the value and what follows.
\<close>

locale reader =
  fixes rd :: "bytes \<Rightarrow> ('v \<times> bytes) result"
    and enc :: "'v \<Rightarrow> bytes"
    and adm :: "'v \<Rightarrow> bool"
  assumes rd_iff: "rd b = Inr (v, t) \<longleftrightarrow> adm v \<and> b = enc v @ t"
begin

lemma rd_enc: "adm v \<Longrightarrow> rd (enc v @ t) = Inr (v, t)"
  by (simp add: rd_iff)

lemma prefix_free: "adm v \<Longrightarrow> adm w \<Longrightarrow> enc v @ t = enc w @ u \<Longrightarrow> v = w \<and> t = u"
proof -
  assume v: "adm v" and w: "adm w" and eq: "enc v @ t = enc w @ u"
  have "Inr (v, t) = rd (enc w @ u)" using rd_enc [OF v, of t] unfolding eq by (rule sym)
  then show ?thesis unfolding rd_enc [OF w] by simp
qed

lemma whole_iff: "no_trailing (rd b) = Inr v \<longleftrightarrow> adm v \<and> b = enc v"
  by (auto simp: no_trailing_def res_simps rd_iff)

lemma extended: "adm v \<Longrightarrow> t \<noteq> [] \<Longrightarrow> \<not> is_ok (no_trailing (rd (enc v @ t)))"
  by (simp add: no_trailing_def rd_enc)

lemma truncated: "adm v \<Longrightarrow> enc v = b @ t \<Longrightarrow> t \<noteq> [] \<Longrightarrow> \<not> is_ok (no_trailing (rd b))"
  using prefix_free [of v _ "[]" t] by (auto simp: res_simps whole_iff)

end

lemma rd_take_iff: "rd_take n what b = Inr (h, t) \<longleftrightarrow> length h = n \<and> b = h @ t"
  by (auto simp: rd_take_def)

interpretation rd_u32: reader "rd_u32 what" u32_to_le "\<lambda>_. True" for what
proof
  show "rd_u32 what b = Inr (v, t) \<longleftrightarrow> True \<and> b = u32_to_le v @ t" for b v t
    unfolding rd_u32_def rbind_Inr_iff rd_take_iff split_paired_Ex prod.case
    using u32le.dec_iff [of _ v] by blast
qed

interpretation rd_u64: reader "rd_u64 what" u64_to_le "\<lambda>_. True" for what
proof
  show "rd_u64 what b = Inr (v, t) \<longleftrightarrow> True \<and> b = u64_to_le v @ t" for b v t
    unfolding rd_u64_def rbind_Inr_iff rd_take_iff split_paired_Ex prod.case
    using u64le.dec_iff [of _ v] by blast
qed

interpretation rd_seg: reader rd_seg put_seg "\<lambda>seg. length (sd_eid seg) = 16"
proof
  show "rd_seg b = Inr (seg, t) \<longleftrightarrow> length (sd_eid seg) = 16 \<and> b = put_seg seg @ t" for b seg t
    by (cases seg)
      (auto simp: rd_seg_def put_seg_def res_simps rd_take_iff rd_u32.rd_iff rd_u64.rd_iff)
qed

lemma len_iff: "length xs = unat l \<longleftrightarrow> length xs < 2 ^ 32 \<and> l = of_nat (length xs)" for l :: u32
  using unat_bound [of l] by (auto simp: unat_of_nat)

lemma rd_lens_iff: "rd_lens i n b = Inr (ls, t) \<longleftrightarrow> length ls = n \<and> b = concat (map u32_to_le ls) @ t"
proof (induction n arbitrary: i b ls)
  case 0
  show ?case by auto
next
  case (Suc n)
  show ?case
    by (cases ls) (auto simp: res_simps rd_u32.rd_iff Suc.IH split_paired_Ex)
qed

lemma rd_blobs_iff:
  "rd_blobs i ls b = Inr (xs, t) \<longleftrightarrow> map length xs = map unat ls \<and> b = concat xs @ t"
proof (induction ls arbitrary: i b xs)
  case Nil
  show ?case by auto
next
  case (Cons l ls)
  show ?case
    by (cases xs) (auto simp: res_simps rd_take_iff Cons.IH split_paired_Ex)
qed

lemma lens_iff: "map length xs = map unat ls \<longleftrightarrow>
    (\<forall>x \<in> set xs. length x < 2 ^ 32) \<and> ls = map (\<lambda>x. of_nat (length x)) xs" for ls :: "u32 list"
proof (induction xs arbitrary: ls)
  case (Cons x xs)
  show ?case by (cases ls) (auto simp: len_iff Cons.IH)
qed auto

definition wire_ok :: "WireDesc \<Rightarrow> bool" where
  "wire_ok d \<longleftrightarrow> length (sd_eid (wd_seg d)) = 16 \<and> length (wd_seg_ctx d) < 2 ^ 32
     \<and> wd_rjetty d \<noteq> [] \<and> length (wd_rjetty d) < 2 ^ 32 \<and> (\<forall>x \<in> set (wd_rjetty d). length x < 2 ^ 32)"

definition cli_ok :: "CliDesc \<Rightarrow> bool" where
  "cli_ok d \<longleftrightarrow> length (sd_eid (cd_seg d)) = 16 \<and> length (cd_seg_ctx d) < 2 ^ 32
     \<and> length (cd_rjetty d) < 2 ^ 32"

interpretation cli_desc: reader cli_rd_desc cli_pack_bytes cli_ok
proof
  fix b d t
  obtain seg sc rj where d: "d = \<lparr>cd_seg = seg, cd_seg_ctx = sc, cd_rjetty = rj\<rparr>" by (cases d)
  show "cli_rd_desc b = Inr (d, t) \<longleftrightarrow> cli_ok d \<and> b = cli_pack_bytes d @ t"
    by (auto simp: d cli_rd_desc_def cli_pack_bytes_def cli_ok_def put_len_def res_simps
        rd_take_iff rd_seg.rd_iff rd_u32.rd_iff len_iff split_paired_Ex)
qed

interpretation bench_desc: reader rd_desc pack_bytes wire_ok
proof
  fix b d t
  obtain seg sc rj where d: "d = \<lparr>wd_seg = seg, wd_seg_ctx = sc, wd_rjetty = rj\<rparr>" by (cases d)
  have step: "rd_desc b = Inr (d, t) \<longleftrightarrow> (\<exists>l n ls. length (sd_eid seg) = 16 \<and> unat n \<noteq> 0
      \<and> length ls = unat n \<and> length sc = unat l \<and> map length rj = map unat ls
      \<and> b = put_seg seg @ u32_to_le l @ u32_to_le n @ concat (map u32_to_le ls) @ sc @ concat rj @ t)"
    (is "?L \<longleftrightarrow> ?R")
  proof
    assume ?L
    then show ?R
      by (auto simp: d rd_desc_def res_simps rd_take_iff rd_seg.rd_iff rd_u32.rd_iff rd_lens_iff
          rd_blobs_iff split: if_splits)
  next
    assume ?R
    then obtain l n ls where eid: "length (sd_eid seg) = 16" and n: "unat n \<noteq> 0" "length ls = unat n"
      and sc: "length sc = unat l" and rj: "map length rj = map unat ls"
      and b: "b = put_seg seg @ u32_to_le l @ u32_to_le n @ concat (map u32_to_le ls) @ sc @ concat rj @ t"
      by blast
    have "rd_lens 0 (unat n) (concat (map u32_to_le ls) @ u) = Inr (ls, u)" for u
      using n by (simp add: rd_lens_iff)
    moreover have "rd_take (unat l) what (sc @ u) = Inr (sc, u)" for what u
      using sc by (simp add: rd_take_iff)
    moreover have "rd_blobs 0 ls (concat rj @ u) = Inr (rj, u)" for u
      using rj by (simp add: rd_blobs_iff)
    ultimately show ?L
      using n by (simp add: b d rd_desc_def rd_seg.rd_enc [OF eid] rd_u32.rd_enc)
  qed
  have lens: "map put_len rj = map u32_to_le (map (\<lambda>x. of_nat (length x)) rj)"
    by (simp add: put_len_def)
  have n: "length ls = unat n \<and> map length rj = map unat ls \<longleftrightarrow>
      length rj < 2 ^ 32 \<and> n = of_nat (length rj) \<and> (\<forall>x \<in> set rj. length x < 2 ^ 32)
      \<and> ls = map (\<lambda>x. of_nat (length x)) rj" for n :: u32 and ls :: "u32 list"
    unfolding lens_iff using len_iff [of rj n] by auto
  have nz: "length rj < 2 ^ 32 \<Longrightarrow> unat (of_nat (length rj) :: u32) = length rj"
    by (simp add: unat_of_nat)
  have "(\<exists>l n ls. length (sd_eid seg) = 16 \<and> unat n \<noteq> 0
      \<and> length ls = unat n \<and> length sc = unat l \<and> map length rj = map unat ls
      \<and> b = put_seg seg @ u32_to_le l @ u32_to_le n @ concat (map u32_to_le ls) @ sc @ concat rj @ t)
    \<longleftrightarrow> (\<exists>l n ls. length (sd_eid seg) = 16 \<and> unat n \<noteq> 0
      \<and> (length rj < 2 ^ 32 \<and> n = of_nat (length rj) \<and> (\<forall>x \<in> set rj. length x < 2 ^ 32)
          \<and> ls = map (\<lambda>x. of_nat (length x)) rj)
      \<and> (length sc < 2 ^ 32 \<and> l = of_nat (length sc))
      \<and> b = put_seg seg @ u32_to_le l @ u32_to_le n @ concat (map u32_to_le ls) @ sc @ concat rj @ t)"
    unfolding n [symmetric] len_iff [of sc, symmetric] by blast
  also have "\<dots> \<longleftrightarrow> wire_ok d \<and> b = pack_bytes d @ t"
    using nz by (auto simp: d wire_ok_def pack_bytes_def put_len_def [of sc] put_len_def [of rj] lens)
  finally show "rd_desc b = Inr (d, t) \<longleftrightarrow> wire_ok d \<and> b = pack_bytes d @ t"
    unfolding step .
qed

section \<open>Hexadecimal text\<close>

text \<open>\<open>u8::to_ascii_lowercase\<close> on a text's bytes.\<close>

definition lower :: "char \<Rightarrow> char" where
  "lower c = (let n = of_char c :: nat in if 65 \<le> n \<and> n \<le> 90 then char_of (n + 32) else c)"

lemma HEX_eq: "HEX = map (\<lambda>k. char_of (if k < 10 then 48 + k else 87 + k)) [0..<16]"
  by (simp add: HEX_def upt_rec char_of_def bit_Suc_0_iff)

lemma HEX_nth: "k < 16 \<Longrightarrow> HEX ! k = char_of (if k < 10 then 48 + k else 87 + k)"
  by (simp add: HEX_eq)

lemma of_char_byte: "of_char c < (256 :: nat)"
  using of_char_mod_256 [of c] by (metis mod_less_divisor zero_less_numeral)

lemma of_char_HEX: "k < 16 \<Longrightarrow> of_char (HEX ! k) = (if k < 10 then 48 + k else 87 + k)"
  by (simp add: HEX_nth)

lemma of_char_lower: "of_char (lower c) = (let n = of_char c :: nat in if 65 \<le> n \<and> n \<le> 90 then n + 32 else n)"
  by (simp add: lower_def Let_def)

lemma char_eq_iff: "c = d \<longleftrightarrow> of_char c = (of_char d :: nat)"
  by simp

lemma HEX_visible: "k < 16 \<Longrightarrow> visible (HEX ! k) \<and> lower (HEX ! k) = HEX ! k"
  by (auto simp: visible_def char_eq_iff [of "lower _"] of_char_lower of_char_HEX)

lemma hex_val_iff: "hex_val c = Inr v \<longleftrightarrow> unat v < 16 \<and> lower c = HEX ! unat v"
proof -
  define n :: nat where "n = of_char c"
  define k where "k = unat v"
  have v: "of_nat m = v \<longleftrightarrow> m = k" if "m < 256" for m
    using that by (auto simp: k_def unat_of_nat)
  have "hex_val c = Inr v \<longleftrightarrow> (if 48 \<le> n \<and> n \<le> 57 then n - 48 = k
      else if 97 \<le> n \<and> n \<le> 102 then n - 97 + 10 = k else if 65 \<le> n \<and> n \<le> 70 then n - 65 + 10 = k else False)"
    using v [of "n - 48"] v [of "n - 97 + 10"] v [of "n - 65 + 10"]
    by (auto simp: hex_val_def Let_def n_def [symmetric] simp del: of_nat_diff of_nat_add)
  also have "\<dots> \<longleftrightarrow> k < 16 \<and> (if 65 \<le> n \<and> n \<le> 90 then n + 32 else n) = (if k < 10 then 48 + k else 87 + k)"
    by (cases "65 \<le> n \<and> n \<le> 90"; cases "k < 10") auto
  also have "\<dots> \<longleftrightarrow> k < 16 \<and> lower c = HEX ! k"
    unfolding char_eq_iff [of "lower c" "HEX ! k"] of_char_lower Let_def n_def [symmetric]
    by (rule conj_cong [OF refl]) (simp only: of_char_HEX)
  finally show ?thesis by (simp add: k_def)
qed

lemma low_nibble: "b AND 0xf = take_bit 4 b" for b :: u8
  by (simp add: take_bit_eq_mask mask_eq_exp_minus_1)

lemma nibble_iff: "unat x < 16 \<longleftrightarrow> take_bit 4 x = x" for x :: u8
  by (simp add: word_unat_eq_iff unsigned_take_bit_eq take_bit_nat_eq_self_iff)

lemma nibbles:
  fixes b x y :: u8
  shows "push_bit 4 (drop_bit 4 b) OR take_bit 4 b = b"
    and "take_bit 4 (drop_bit 4 b) = drop_bit 4 b"
    and "take_bit 4 y = y \<Longrightarrow> take_bit 4 (push_bit 4 x OR y) = y"
    and "take_bit 4 x = x \<Longrightarrow> take_bit 4 y = y \<Longrightarrow> drop_bit 4 (push_bit 4 x OR y) = x"
proof -
  show "push_bit 4 (drop_bit 4 b) OR take_bit 4 b = b"
    by (rule bit_word_eqI) (auto simp: bit_simps)
  show "take_bit 4 (drop_bit 4 b) = drop_bit 4 b"
    by (rule bit_word_eqI) (auto simp: bit_simps dest: bit_imp_le_length)
  show "take_bit 4 (push_bit 4 x OR y) = y" if "take_bit 4 y = y"
    using that by (simp add: take_bit_or take_bit_push_bit)
  show "drop_bit 4 (push_bit 4 x OR y) = x" if "take_bit 4 x = x" "take_bit 4 y = y"
  proof -
    have "drop_bit 4 y = 0" using that(2) by (metis drop_bit_take_bit take_bit_0 diff_self_eq_0)
    moreover have "bit x m \<longleftrightarrow> m < 4 \<and> bit x m" for m using that(1) by (metis bit_take_bit_iff)
    then have "drop_bit 4 (push_bit 4 x) = x" by (intro bit_word_eqI) (auto simp: bit_simps)
    ultimately show ?thesis by (simp add: drop_bit_or)
  qed
qed

lemma hex_enc_visible: "list_all visible (hex_enc bs) \<and> map lower (hex_enc bs) = hex_enc bs \<and> even (length (hex_enc bs))"
proof (induction bs)
  case (Cons b bs)
  have "unat (drop_bit 4 b) < 16" "unat (take_bit 4 b) < 16"
    using nibbles(2) [of b] by (simp_all add: nibble_iff)
  then show ?case using Cons HEX_visible by (simp add: low_nibble)
qed simp

lemma hex_pair_iff:
  "(\<exists>x y. hex_val a = Inr x \<and> hex_val b = Inr y \<and> push_bit 4 x OR y = v) \<longleftrightarrow>
     lower a = HEX ! unat (drop_bit 4 v) \<and> lower b = HEX ! unat (v AND 0xf)"
proof -
  have "(\<exists>x y. take_bit 4 x = x \<and> take_bit 4 y = y \<and> push_bit 4 x OR y = v
        \<and> lower a = HEX ! unat x \<and> lower b = HEX ! unat y) \<longleftrightarrow>
      lower a = HEX ! unat (drop_bit 4 v) \<and> lower b = HEX ! unat (take_bit 4 v)" (is "?L \<longleftrightarrow> ?R")
  proof
    assume ?L
    then show ?R using nibbles(3,4) by metis
  next
    assume ?R
    then show ?L using nibbles(1,2) [of v]
      by (intro exI [of _ "drop_bit 4 v"] exI [of _ "take_bit 4 v"]) simp
  qed
  then show ?thesis unfolding hex_val_iff nibble_iff low_nibble by blast
qed

lemma hex_pairs_iff: "hex_pairs cs = Inr bs \<and> even (length cs) \<longleftrightarrow> map lower cs = hex_enc bs"
proof (induction cs arbitrary: bs rule: induct_list012)
  case (3 a b cs)
  show ?case
  proof (cases bs)
    case (Cons v vs)
    have "hex_pairs (a # b # cs) = Inr (v # vs) \<longleftrightarrow>
        (lower a = HEX ! unat (drop_bit 4 v) \<and> lower b = HEX ! unat (v AND 0xf)) \<and> hex_pairs cs = Inr vs"
      unfolding hex_pair_iff [symmetric] by (auto simp: res_simps)
    then show ?thesis using 3(1) [of vs] unfolding Cons by (simp del: hex_pairs.simps)
  qed (auto simp: res_simps)
next
  case 1
  show ?case by (cases bs) auto
next
  case (2 a)
  show ?case by (cases bs) auto
qed

text \<open>A text is decoded exactly when it is, up to blanks around it and the case of its digits,
the encoding of the result.\<close>

lemma hex_dec_iff: "hex_dec s = Inr bs \<longleftrightarrow> map lower (trim s) = hex_enc bs"
  using hex_pairs_iff [of "trim s" bs] by (auto simp: hex_dec_def Let_def)

lemma hex_dec_enc: "hex_dec (hex_enc bs) = Inr bs"
  using hex_enc_visible [of bs] by (simp add: hex_dec_iff trim_visible)

lemma hex_enc_append: "hex_enc (a @ b) = hex_enc a @ hex_enc b"
  by (induction a) auto

lemma length_hex_enc: "length (hex_enc bs) = 2 * length bs"
  by (induction bs) auto

lemma hex_dec_take:
  "hex_dec (take k (hex_enc bs)) =
     (if odd (length (take k (hex_enc bs))) then Inl (Invalid ''odd-length hex descriptor'')
      else Inr (take (k div 2) bs))"
proof -
  have "list_all visible (take k (hex_enc bs))"
    using hex_enc_visible [of bs] by (auto simp: list_all_iff dest: in_set_takeD)
  then have trim: "trim (take k (hex_enc bs)) = take k (hex_enc bs)" by (rule trim_visible)
  show ?thesis
  proof (cases "odd (length (take k (hex_enc bs)))")
    case True
    then show ?thesis by (simp add: hex_dec_def trim)
  next
    case False
    have "take k (hex_enc bs) = hex_enc (take (k div 2) bs)"
    proof (cases "k \<le> 2 * length bs")
      case True
      then have "even k" using False by (simp add: length_hex_enc)
      then have k: "k = length (hex_enc (take (k div 2) bs))"
        using True by (auto simp: length_hex_enc elim: evenE)
      have "hex_enc bs = hex_enc (take (k div 2) bs) @ hex_enc (drop (k div 2) bs)"
        by (simp add: hex_enc_append [symmetric])
      then show ?thesis using k by (metis append_eq_conv_conj)
    next
      case False
      then show ?thesis by (simp add: length_hex_enc)
    qed
    then show ?thesis using False by (simp add: hex_dec_enc)
  qed
qed

section \<open>Properties\<close>

text \<open>
  C39 (unpack_desc of the bench). A line is accepted exactly when, after trimming and up to the case
  of its hex digits, it is the packed form of the result, with a 16-byte eid, at least one rjetty
  blob and all lengths below 2^32: nothing is lost in packing, and a line with a byte missing, added
  or changed is refused or is the packed form of another descriptor.
\<close>

theorem unpack_desc_iff:
  "unpack_desc s = Inr d \<longleftrightarrow> wire_ok d \<and> map lower (trim s) = pack_desc d"
  by (auto simp: unpack_desc_def pack_desc_def res_simps hex_dec_iff bench_desc.whole_iff)

text \<open>
  On unpack_desc of the command line tool: The same for the descriptor with a single blob, which
  may be empty.
\<close>

theorem cli_unpack_desc_iff:
  "cli_unpack_desc s = Inr d \<longleftrightarrow> cli_ok d \<and> map lower (trim s) = cli_pack_desc d"
  by (auto simp: cli_unpack_desc_def cli_pack_desc_def res_simps hex_dec_iff cli_desc.whole_iff)

text \<open>
  On cut and extended lines: Cutting any positive number of digits off a packed line, or adding
  whole bytes to it, makes it unacceptable to the reader that wrote it.
\<close>

theorem no_partial_lines:
  assumes "wire_ok d" and "k < length (pack_desc d)" and "extra \<noteq> []"
  shows "\<not> is_ok (unpack_desc (take k (pack_desc d))) \<and> \<not> is_ok (unpack_desc (pack_desc d @ hex_enc extra))"
proof
  let ?b = "pack_bytes d"
  have k: "k < 2 * length ?b" using assms(2) by (simp add: pack_desc_def length_hex_enc)
  have cut: "\<not> is_ok (no_trailing (rd_desc (take (k div 2) ?b)))"
    using k by (intro bench_desc.truncated [OF assms(1), of _ "drop (k div 2) ?b"]) auto
  show "\<not> is_ok (unpack_desc (take k (pack_desc d)))"
    using cut by (simp add: unpack_desc_def pack_desc_def hex_dec_take)
  show "\<not> is_ok (unpack_desc (pack_desc d @ hex_enc extra))"
    using bench_desc.extended [OF assms(1,3)]
    by (simp add: unpack_desc_def pack_desc_def hex_enc_append [symmetric] hex_dec_enc)
qed

definition demo_wire :: WireDesc where
  "demo_wire = \<lparr>wd_seg = \<lparr>sd_eid = replicate 16 0x11, sd_uasid = 0x2233, sd_va = 0x12345678,
     sd_len = 4096, sd_attr = 0x4001, sd_token_id = 7\<rparr>, wd_seg_ctx = replicate 48 0xaa,
     wd_rjetty = [replicate 55 0xbb, replicate 8 0xcc]\<rparr>"

theorem no_partial_lines_witness:
  "\<not> is_ok (unpack_desc (take 20 (pack_desc demo_wire))) \<and> \<not> is_ok (unpack_desc (pack_desc demo_wire @ ''00''))"
proof -
  have "wire_ok demo_wire" by (simp add: wire_ok_def demo_wire_def)
  moreover have "20 < length (pack_desc demo_wire)"
    by (simp add: pack_desc_def length_hex_enc pack_bytes_def put_seg_def demo_wire_def put_len_def
        u32le.enc_length u64le.enc_length)
  moreover have "hex_enc [0] = ''00''" by (simp add: HEX_def)
  ultimately show ?thesis using no_partial_lines [of demo_wire 20 "[0]"] by simp
qed

end
