(* ===== verification/Sizes.thy ===== *)
theory Sizes
  imports Text
begin

text \<open>
  The size arguments of \<open>examples/urma_bench.rs\<close>: \<open>--sizes\<close> (\<open>parse_sizes\<close>: a comma list or a
  doubling range), its tokens (\<open>parse_one_size\<close>) and the serving side's buffer length
  (\<open>resolve_buf_len\<close>). The doubling loop is a partial function: \<open>None\<close> is not returning.
\<close>

section \<open>One size\<close>

text \<open>The number and the multiplier of a token, by its last byte.\<close>

definition size_parts :: "string \<Rightarrow> string \<times> usize" where
  "size_parts tok =
     (if tok = [] then (tok, 1)
      else if last tok = CHR ''k'' \<or> last tok = CHR ''K'' then (butlast tok, 2 ^ 10)
      else if last tok = CHR ''m'' \<or> last tok = CHR ''M'' then (butlast tok, 2 ^ 20)
      else if last tok = CHR ''g'' \<or> last tok = CHR ''G'' then (butlast tok, 2 ^ 30)
      else (tok, 1))"

definition U32_MAX :: usize where "U32_MAX = 0xFFFFFFFF"

definition parse_one_size :: "string \<Rightarrow> string \<Rightarrow> usize result" where
  "parse_one_size tok what =
     (let tok = trim tok; (num, mult) = size_parts tok
      in case parse_usize num of
           None \<Rightarrow> Inl (Invalid (''bad size '' @ [CHR 0x27] @ tok @ [CHR 0x27] @ '' in '' @ what))
         | Some n \<Rightarrow>
             (case checked_mul n mult of
                None \<Rightarrow> Inl (Invalid (''size '' @ [CHR 0x27] @ tok @ [CHR 0x27] @ '' overflows''))
              | Some n \<Rightarrow>
                  if n = 0 then Inl (Invalid (what @ '' contains 0''))
                  else if n > U32_MAX
                  then Inl (Invalid (''size '' @ show_word n @ '' in '' @ what @
                         '' exceeds the u32 sge length limit''))
                  else Inr n))"

section \<open>A list of sizes\<close>

partial_function (option) double_from :: "usize \<Rightarrow> usize \<Rightarrow> usize list option" where
  "double_from cur lim =
     (case checked_mul cur 2 of None \<Rightarrow> Some []
      | Some next \<Rightarrow>
          if next > lim then Some []
          else Option.bind (double_from next lim) (\<lambda>xs. Some (next # xs)))"

fun parse_parts :: "string list \<Rightarrow> usize list result" where
  "parse_parts [] = Inr []"
| "parse_parts (p # ps) =
     (if trim p = [] then parse_parts ps
      else rbind (parse_one_size p ''--sizes'') (\<lambda>x. rbind (parse_parts ps) (\<lambda>xs. Inr (x # xs))))"

definition parse_sizes :: "string \<Rightarrow> usize list result option" where
  "parse_sizes spec =
     (let spec = trim spec
      in if spec = [] then Some (Inl (Invalid ''--sizes is empty''))
         else case split_once ''..'' spec of
           Some (f, l) \<Rightarrow>
             (case parse_one_size f ''--sizes'' of Inl e \<Rightarrow> Some (Inl e)
              | Inr first \<Rightarrow>
                  (case parse_one_size l ''--sizes'' of Inl e \<Rightarrow> Some (Inl e)
                   | Inr lim \<Rightarrow>
                       if lim < first
                       then Some (Inl (Invalid (''empty size range '' @ show_word first @ ''..'' @
                              show_word lim)))
                       else Option.bind (double_from first lim) (\<lambda>xs. Some (Inr (first # xs)))))
         | None \<Rightarrow>
             Some (rbind (parse_parts (split_on (CHR '','') spec)) (\<lambda>sizes.
               if sizes = [] then Inl (Invalid ''--sizes is empty'')
               else Inr (remdups_adj (sort sizes)))))"

definition bench_sizes :: "u32 \<Rightarrow> string \<Rightarrow> usize list result option" where
  "bench_sizes iters sizes =
     (if iters = 0 then Some (Inl (Invalid ''--iters must be at least 1'')) else parse_sizes sizes)"

section \<open>The serving side's buffer\<close>

definition DEFAULT_BUF_LEN :: usize where "DEFAULT_BUF_LEN = 1048576"

text \<open>The outer \<open>None\<close> is not returning, the inner one the panic of \<open>unwrap\<close> on an empty list.\<close>

definition resolve_buf_len :: "usize option \<Rightarrow> string option \<Rightarrow> usize result option option" where
  "resolve_buf_len buf_len sizes =
     (case buf_len of
        Some n \<Rightarrow> Some (Some (if n = 0 then Inl (Invalid ''--buf-len must be at least 1'') else Inr n))
      | None \<Rightarrow>
          (case sizes of
             Some spec \<Rightarrow>
               Option.bind (parse_sizes spec) (\<lambda>r.
                 Some (case r of Inl e \<Rightarrow> Some (Inl e)
                       | Inr xs \<Rightarrow> if xs = [] then None else Some (Inr (last xs))))
           | None \<Rightarrow> Some (Some (Inr DEFAULT_BUF_LEN))))"

section \<open>Lemmas\<close>

lemma size_parts_mult:
  "snd (size_parts tok) = 1 \<or> snd (size_parts tok) = 2 ^ 10 \<or> snd (size_parts tok) = 2 ^ 20 \<or> snd (size_parts tok) = 2 ^ 30"
  by (simp add: size_parts_def)

lemma parse_one_size_iff:
  "parse_one_size tok what = Inr n \<longleftrightarrow>
     (\<exists>m. parse_usize (fst (size_parts (trim tok))) = Some m
        \<and> unat n = unat m * unat (snd (size_parts (trim tok))) \<and> 0 < unat n \<and> unat n < 2 ^ 32)"
proof -
  obtain num mult where p: "size_parts (trim tok) = (num, mult)" by force
  have mul: "checked_mul m mult = Some n \<longleftrightarrow> unat n = unat m * unat mult" for m
    using unat_bound [of n] by (auto simp: checked_mul_def word_unat_eq_iff unat_times_no_overflow)
  have big: "\<not> U32_MAX < n \<longleftrightarrow> unat n < 2 ^ 32" "n = 0 \<longleftrightarrow> unat n = 0"
    by (auto simp: U32_MAX_def word_less_nat_alt word_unat_eq_iff)
  show ?thesis
    unfolding parse_one_size_def Let_def p prod.case fst_conv snd_conv mul [symmetric]
    using big by (auto split: option.splits if_splits)
qed

lemma double_from_eq:
  assumes "0 < unat a" and "unat a * 2 ^ k \<le> unat b" and "unat b < unat a * 2 ^ Suc k"
  shows "double_from a b = Some (map (\<lambda>i. a * 2 ^ Suc i) [0..<k])"
  using assms
proof (induction k arbitrary: a)
  case 0
  then have "checked_mul a 2 = None \<or> (\<exists>n. checked_mul a 2 = Some n \<and> b < n)"
    by (auto simp: checked_mul_def word_less_nat_alt unat_times_no_overflow)
  then show ?case by (auto simp: double_from.simps [of a b])
next
  case (Suc k)
  have bound: "unat a * 2 < 2 ^ 64"
  proof -
    have "unat a * 2 \<le> unat a * 2 ^ Suc k" by simp
    also have "\<dots> \<le> unat b" using Suc.prems(2) .
    also have "\<dots> < 2 ^ 64" using unat_bound [of b] by simp
    finally show ?thesis .
  qed
  then have mul: "checked_mul a 2 = Some (a * 2)" "unat (a * 2) = unat a * 2"
    by (simp_all add: checked_mul_def unat_times_no_overflow)
  have "unat a * 2 \<le> unat a * 2 ^ Suc k" by simp
  then have "unat a * 2 \<le> unat b" using Suc.prems(2) by (rule order_trans)
  then have le: "\<not> b < a * 2" by (simp add: word_less_nat_alt mul(2))
  have "double_from (a * 2) b = Some (map (\<lambda>i. a * 2 * 2 ^ Suc i) [0..<k])"
    using Suc.prems by (intro Suc.IH) (simp_all add: mul(2) mult.assoc)
  then have "double_from a b = Some (a * 2 # map (\<lambda>i. a * 2 * 2 ^ Suc i) [0..<k])"
    using mul(1) le by (simp add: double_from.simps [of a b])
  also have "a * 2 # map (\<lambda>i. a * 2 * 2 ^ Suc i) [0..<k] = map (\<lambda>i. a * 2 ^ Suc i) [0..<Suc k]"
    by (simp add: upt_conv_Cons map_Suc_upt [symmetric] mult.assoc del: upt_Suc)
  finally show ?case .
qed

text \<open>How often a positive number can be doubled within a bound.\<close>

lemma doublings:
  fixes a b :: nat
  assumes "0 < a" and "a \<le> b"
  obtains k :: nat where "a * 2 ^ k \<le> b" "b < a * 2 ^ Suc k"
proof -
  have "\<exists>k. b < a * 2 ^ Suc k"
  proof
    have "b < 2 ^ Suc b" by (induction b) auto
    also have "\<dots> \<le> a * 2 ^ Suc b" using assms(1) by simp
    finally show "b < a * 2 ^ Suc b" .
  qed
  then obtain k where k: "b < a * 2 ^ Suc k" "\<And>j. j < k \<Longrightarrow> \<not> b < a * 2 ^ Suc j"
    using exists_least_iff [of "\<lambda>k. b < a * 2 ^ Suc k"] by blast
  have "a * 2 ^ k \<le> b"
  proof (cases k)
    case (Suc j)
    then show ?thesis using k(2) [of j] by simp
  qed (use assms(2) in simp)
  with k(1) show thesis using that by blast
qed

definition size_ok :: "usize \<Rightarrow> bool" where
  "size_ok n \<longleftrightarrow> 0 < unat n \<and> unat n < 2 ^ 32"

lemma parse_one_size_ok: "parse_one_size tok what = Inr n \<Longrightarrow> size_ok n"
  by (auto simp: parse_one_size_iff size_ok_def)

lemma parse_parts_iff:
  "parse_parts ps = Inr xs \<longleftrightarrow>
     map (\<lambda>p. parse_one_size p ''--sizes'') (filter (\<lambda>p. trim p \<noteq> []) ps) = map Inr xs"
proof (induction ps arbitrary: xs)
  case (Cons p ps)
  then show ?case by (cases xs) (auto simp: res_simps)
qed auto

definition ascending :: "usize list \<Rightarrow> bool" where
  "ascending xs \<longleftrightarrow> sorted_wrt (<) xs"

lemma sorted_dedup: "sorted xs \<Longrightarrow> sorted_wrt (<) (remdups_adj xs)" for xs :: "usize list"
  by (induction xs rule: remdups_adj.induct) (auto simp: less_le)

lemma ascending_sort_dedup: "ascending (remdups_adj (sort xs))"
  unfolding ascending_def by (rule sorted_dedup) simp

lemma unat_doubling: "unat a * 2 ^ i < 2 ^ 64 \<Longrightarrow> unat (a * 2 ^ i) = unat a * 2 ^ i" for a :: usize
proof -
  assume "unat a * 2 ^ i < 2 ^ 64"
  then have "unat (of_nat (unat a * 2 ^ i) :: usize) = unat a * 2 ^ i" unfolding unat_of_nat by simp
  then show ?thesis by simp
qed

lemma ascending_doublings:
  assumes "\<And>i. i < n \<Longrightarrow> unat a * 2 ^ i < 2 ^ 64" and "0 < unat a"
  shows "ascending (map (\<lambda>i. a * 2 ^ i) [0..<n])"
  using assms
  by (auto simp: ascending_def sorted_wrt_iff_nth_less word_less_nat_alt unat_doubling)

text \<open>A range gives the doublings of its first end that do not pass its last.\<close>

lemma parse_sizes_range:
  assumes "trim spec \<noteq> []" and "split_once ''..'' (trim spec) = Some (f, l)"
    and "parse_one_size f ''--sizes'' = Inr a" and "parse_one_size l ''--sizes'' = Inr b"
    and "unat a * 2 ^ k \<le> unat b" and "unat b < unat a * 2 ^ Suc k"
  shows "parse_sizes spec = Some (Inr (map (\<lambda>i. a * 2 ^ i) [0..<Suc k]))"
proof -
  have a: "0 < unat a" using parse_one_size_ok [OF assms(3)] by (simp add: size_ok_def)
  have "unat a \<le> unat a * 2 ^ k" by simp
  then have "unat a \<le> unat b" using assms(5) by (rule order_trans)
  then have "\<not> b < a" by (simp add: word_less_nat_alt)
  moreover have "a # map (\<lambda>i. a * 2 ^ Suc i) [0..<k] = map (\<lambda>i. a * 2 ^ i) [0..<Suc k]"
    by (simp add: upt_conv_Cons map_Suc_upt [symmetric] del: upt_Suc)
  ultimately show ?thesis
    using assms double_from_eq [OF a assms(5,6)] by (simp add: parse_sizes_def Let_def)
qed

lemma parse_sizes_cases:
  "(\<exists>e. parse_sizes spec = Some (Inl e))
   \<or> (\<exists>a b k. size_ok a \<and> size_ok b \<and> unat a * 2 ^ k \<le> unat b \<and> unat b < unat a * 2 ^ Suc k
        \<and> parse_sizes spec = Some (Inr (map (\<lambda>i. a * 2 ^ i) [0..<Suc k])))
   \<or> (\<exists>xs. xs \<noteq> [] \<and> list_all size_ok xs \<and> parse_sizes spec = Some (Inr (remdups_adj (sort xs))))"
proof (cases "trim spec = []")
  case True
  then show ?thesis by (simp add: parse_sizes_def)
next
  case ne: False
  show ?thesis
  proof (cases "split_once ''..'' (trim spec)")
    case None
    show ?thesis
    proof (cases "parse_parts (split_on (CHR '','') (trim spec))")
      case (Inr xs)
      then have "list_all size_ok xs"
        by (auto simp: parse_parts_iff list_all_iff dest!: arg_cong [where f = set])
          (metis (no_types, lifting) imageE imageI parse_one_size_ok)
      then show ?thesis using ne None Inr by (cases "xs = []") (auto simp: parse_sizes_def Let_def)
    qed (use ne None in \<open>simp add: parse_sizes_def Let_def\<close>)
  next
    case (Some fl)
    obtain f l where fl: "fl = (f, l)" by force
    show ?thesis
    proof (cases "parse_one_size f ''--sizes''")
      case a: (Inr a)
      show ?thesis
      proof (cases "parse_one_size l ''--sizes''")
        case b: (Inr b)
        show ?thesis
        proof (cases "b < a")
          case False
          have ok: "size_ok a" "size_ok b" using a b by (auto dest: parse_one_size_ok)
          obtain k where k: "unat a * 2 ^ k \<le> unat b" "unat b < unat a * 2 ^ Suc k"
            using doublings [of "unat a" "unat b"] False ok
            by (auto simp: size_ok_def word_less_nat_alt not_less)
          show ?thesis
            using parse_sizes_range [OF ne Some [unfolded fl] a b k] ok k by blast
        qed (use ne Some fl a b in \<open>simp add: parse_sizes_def Let_def\<close>)
      qed (use ne Some fl a in \<open>simp add: parse_sizes_def Let_def\<close>)
    qed (use ne Some fl in \<open>simp add: parse_sizes_def Let_def\<close>)
  qed
qed

lemma parse_sizes_ok:
  "\<exists>r. parse_sizes spec = Some r \<and>
     (case r of Inl e \<Rightarrow> True | Inr xs \<Rightarrow> xs \<noteq> [] \<and> ascending xs \<and> list_all size_ok xs)"
proof -
  have dbl: "list_all size_ok (map (\<lambda>i. a * 2 ^ i) [0..<Suc k]) \<and> ascending (map (\<lambda>i. a * 2 ^ i) [0..<Suc k])"
    if ok: "size_ok a" "size_ok b" and le: "unat a * 2 ^ k \<le> unat b" for a b k
  proof -
    have le': "0 < unat a * 2 ^ i \<and> unat a * 2 ^ i < 2 ^ 32" if "i < Suc k" for i
    proof -
      have "unat a * 2 ^ i \<le> unat a * 2 ^ k" using that by (intro mult_left_mono power_increasing) auto
      then have "unat a * 2 ^ i < 2 ^ 32"
        using le ok(2) unfolding size_ok_def by linarith
      then show ?thesis using ok(1) by (simp add: size_ok_def)
    qed
    have fits: "unat a * 2 ^ i < 2 ^ 64" if "i < Suc k" for i
      using le' [OF that] by (auto intro: less_trans)
    have "ascending (map (\<lambda>i. a * 2 ^ i) [0..<Suc k])"
      using fits ok by (intro ascending_doublings) (simp_all add: size_ok_def)
    moreover have "list_all size_ok (map (\<lambda>i. a * 2 ^ i) [0..<Suc k])"
      using fits le' unat_doubling by (auto simp: list_all_iff size_ok_def simp del: upt_Suc)
    ultimately show ?thesis by blast
  qed
  have dedup: "remdups_adj (sort xs) \<noteq> [] \<and> list_all size_ok (remdups_adj (sort xs))"
    if "xs \<noteq> []" "list_all size_ok xs" for xs
    using that by (auto simp: list_all_iff dest: arg_cong [where f = length])
  show ?thesis
    using parse_sizes_cases [of spec] dbl dedup ascending_sort_dedup
    by (elim disjE exE conjE) (simp_all del: upt_Suc)
qed

section \<open>Properties\<close>

text \<open>
  On parse_one_size: A token is accepted exactly when, trimmed, it is a decimal number with an
  optional suffix whose product with the suffix's multiplier is between 1 and 2^32 - 1; the result
  is that product, computed without wrapping. In particular a number printed in decimal, with or
  without a suffix, reads back as itself times the multiplier.
\<close>

theorem parse_one_size_exact:
  "(parse_one_size tok what = Inr n \<longleftrightarrow>
      (\<exists>m. parse_usize (fst (size_parts (trim tok))) = Some m
         \<and> unat n = unat m * unat (snd (size_parts (trim tok))) \<and> 0 < unat n \<and> unat n < 2 ^ 32))
   \<and> (if 0 < k \<and> k < 2 ^ 32 then parse_one_size (show_nat k) what = Inr (of_nat k) else True)
   \<and> (if 0 < k \<and> k < 2 ^ 22 then parse_one_size (show_nat k @ ''k'') what = Inr (of_nat (k * 1024)) else True)"
proof -
  have digits: "list_all visible (show_nat k)" "show_nat k \<noteq> []" "is_digit (last (show_nat k))"
    using show_nat_digits [of k] is_digit_visible by (auto simp: list_all_iff)
  have plain: "trim (show_nat k) = show_nat k" "trim (show_nat k @ ''k'') = show_nat k @ ''k''"
    using digits by (simp_all add: trim_visible visible_def)
  have parts: "size_parts (show_nat k) = (show_nat k, 1)" "size_parts (show_nat k @ ''k'') = (show_nat k, 2 ^ 10)"
    using digits by (auto simp: size_parts_def is_digit_def)
  have kilo: "unat (of_nat k * 1024 :: usize) = k * 1024" if "k < 2 ^ 22"
  proof -
    have "unat (of_nat (k * 1024) :: usize) = k * 1024" unfolding unat_of_nat using that by simp
    then show ?thesis by simp
  qed
  show ?thesis
    using parse_show [of k]
    by (auto simp: parse_one_size_iff plain parts unat_of_nat kilo)
qed

text \<open>
  C40 (parse_sizes returns). Parsing the sizes always returns; what it accepts is a non-empty,
  strictly ascending list of sizes between 1 and 2^32 - 1, so the reader's maximum is the last one.
\<close>

theorem parse_sizes_total:
  "\<exists>r. parse_sizes spec = Some r \<and>
     (case r of Inl e \<Rightarrow> True | Inr xs \<Rightarrow> xs \<noteq> [] \<and> ascending xs \<and> list_all size_ok xs)"
  by (rule parse_sizes_ok)

text \<open>
  On the doubling range. "first..last" gives first, 2 first, 4 first and so on, as long as they do
  not pass last, and nothing else.
\<close>

theorem doubling_range:
  assumes "split_once ''..'' (trim spec) = Some (f, l)"
    and "parse_one_size f ''--sizes'' = Inr a" and "parse_one_size l ''--sizes'' = Inr b" and "a \<le> b"
  shows "\<exists>k. parse_sizes spec = Some (Inr (map (\<lambda>i. a * 2 ^ i) [0..<Suc k]))
    \<and> unat a * 2 ^ k \<le> unat b \<and> unat b < unat a * 2 ^ Suc k"
proof -
  have ne: "trim spec \<noteq> []" using assms(1) by (auto split: if_splits)
  have "0 < unat a" using parse_one_size_ok [OF assms(2)] by (simp add: size_ok_def)
  then obtain k where k: "unat a * 2 ^ k \<le> unat b" "unat b < unat a * 2 ^ Suc k"
    using doublings [of "unat a" "unat b"] assms(4) by (auto simp: word_le_nat_alt)
  then show ?thesis using parse_sizes_range [OF ne assms(1-3) k] by blast
qed

theorem doubling_range_witness:
  "\<exists>k. parse_sizes ''8..1k'' = Some (Inr (map (\<lambda>i. 8 * 2 ^ i) [0..<Suc k]))
    \<and> 8 * 2 ^ k \<le> (1024 :: nat) \<and> (1024 :: nat) < 8 * 2 ^ Suc k"
proof -
  have "split_once ''..'' (trim ''8..1k'') = Some (''8'', ''1k'')"
    by (simp add: trim_visible visible_def starts_with_def)
  moreover have "parse_one_size ''8'' ''--sizes'' = Inr 8" "parse_one_size ''1k'' ''--sizes'' = Inr 1024"
    by (simp_all add: parse_one_size_iff trim_visible visible_def size_parts_def parse_usize_digits is_digit_def)
  ultimately show ?thesis using doubling_range [of "''8..1k''" "''8''" "''1k''" 8 1024] by simp
qed

text \<open>
  On resolve_buf_len: The serving side's buffer length is resolved without panicking: an explicit
  length, or the maximum of the declared sizes, or 1 MiB; it is never zero.
\<close>

theorem resolve_buf_len_total:
  "\<exists>r. resolve_buf_len buf_len sizes = Some (Some r) \<and>
     (case r of Inl e \<Rightarrow> True
      | Inr n \<Rightarrow> n \<noteq> 0 \<and> n = (case (buf_len, sizes) of (Some k, _) \<Rightarrow> k
          | (None, Some spec) \<Rightarrow> (case parse_sizes spec of Some (Inr xs) \<Rightarrow> Max (set xs) | _ \<Rightarrow> 0)
          | (None, None) \<Rightarrow> 1048576))"
proof -
  have top: "last xs = Max (set xs) \<and> last xs \<noteq> 0"
    if "xs \<noteq> []" "ascending xs" "list_all size_ok xs" for xs
  proof -
    have "sorted xs" using that(2) by (simp add: ascending_def strict_sorted_iff)
    then have "sorted (butlast xs @ [last xs])" using that(1) by simp
    then have "\<forall>x \<in> set (butlast xs). x \<le> last xs" by (simp only: sorted_append) simp
    moreover have "set xs = insert (last xs) (set (butlast xs))"
      using that(1) by (metis append_butlast_last_id list.set(2) rotate1.simps(2) set_rotate1)
    ultimately have "Max (set xs) = last xs" by (intro Max_eqI) auto
    moreover have "size_ok (last xs)" using that by (simp add: list_all_iff)
    ultimately show ?thesis by (auto simp: size_ok_def)
  qed
  show ?thesis
  proof (cases "buf_len = None \<and> sizes \<noteq> None")
    case True
    then obtain spec where s: "sizes = Some spec" "buf_len = None" by blast
    obtain r where r: "parse_sizes spec = Some r"
      "case r of Inl e \<Rightarrow> True | Inr xs \<Rightarrow> xs \<noteq> [] \<and> ascending xs \<and> list_all size_ok xs"
      using parse_sizes_ok by blast
    show ?thesis
    proof (cases r)
      case (Inl e)
      then show ?thesis using r(1) by (simp add: resolve_buf_len_def s)
    next
      case (Inr xs)
      then have t: "last xs = Max (set xs)" "Max (set xs) \<noteq> 0" using top [of xs] r(2) by auto
      then show ?thesis using r Inr by (auto simp: resolve_buf_len_def s t(1))
    qed
  next
    case False
    then show ?thesis
      by (cases buf_len; cases sizes) (simp_all add: resolve_buf_len_def DEFAULT_BUF_LEN_def)
  qed
qed

end
