(* ===== verification/BenchRun.thy ===== *)
theory BenchRun
  imports Uses Wire Sizes
begin

text \<open>
  The URMA commands of the benchmark (\<open>serve_urma_run\<close> and \<open>one_sided_run\<close> of
  \<open>examples/urma_bench.rs\<close>): the argument checks, the limits a device and a peer set, the resources
  in the order they are created, the verify pass and the timed runs of every size, and the drop of
  everything on every way out. Command line values arrive parsed; printing is left out, except for
  the descriptor line a server prints, which is its result.
\<close>

section \<open>Runs that may not return\<close>

text \<open>A step that may not return: the outer \<open>None\<close>. The state is the number of clock readings made
and the heap.\<close>

type_synonym ('a, 'w) run = "('a, nat \<times> 'w heap) step option"

definition run_then :: "('a, 'w) run \<Rightarrow> ('a \<Rightarrow> nat \<times> 'w heap \<Rightarrow> ('b, 'w) run) \<Rightarrow> ('b, 'w) run" where
  "run_then r k =
     Option.bind r (\<lambda>(q, st). case q of
         None \<Rightarrow> Some (None, st)
       | Some (Inl e) \<Rightarrow> Some (Some (Inl e), st)
       | Some (Inr x) \<Rightarrow> k x st)"

text \<open>A value or error without effect, and a call on the heap.\<close>

definition pure_run :: "'a result option \<Rightarrow> nat \<times> 'w heap \<Rightarrow> ('a, 'w) run" where
  "pure_run q st = Some (q, st)"

definition heap_run :: "('w heap \<Rightarrow> 'a result \<times> 'w heap) \<Rightarrow> nat \<times> 'w heap \<Rightarrow> ('a, 'w) run" where
  "heap_run f st = (case f (snd st) of (r, h) \<Rightarrow> Some (Some r, (fst st, h)))"

text \<open>Filling a vector of handles: an error drops the ones it holds, first to last.\<close>

fun push_each ::
  "'w liburma \<Rightarrow> ('a \<Rightarrow> val) \<Rightarrow> ('b \<Rightarrow> 'w heap \<Rightarrow> 'a result \<times> 'w heap) \<Rightarrow> 'b list \<Rightarrow> 'a list \<Rightarrow> 'w heap
     \<Rightarrow> 'a list result \<times> 'w heap" where
  "push_each L mk f [] xs s = (Inr xs, s)"
| "push_each L mk f (b # bs) xs s =
     (case f b s of
        (Inl e, s) \<Rightarrow> (Inl e, unwind L (map mk xs) s)
      | (Inr x, s) \<Rightarrow> push_each L mk f bs (xs @ [x]) s)"

section \<open>Buffers\<close>

text \<open>The first \<open>n\<close> bytes of a registered buffer; slicing past its end panics.\<close>

definition read_prefix :: "'w liburma \<Rightarrow> RegisteredSeg \<Rightarrow> usize \<Rightarrow> 'w heap \<Rightarrow> bytes option" where
  "read_prefix L g n s =
     (if n > landing_len g then None else Some (l_read_bytes L (rs_va g) (unat n) (lib_state s)))"

definition write_prefix :: "'w liburma \<Rightarrow> RegisteredSeg \<Rightarrow> bytes \<Rightarrow> 'w heap \<Rightarrow> 'w heap" where
  "write_prefix L g bs s = set_lib (l_write_bytes L (rs_va g) bs (lib_state s)) s"

definition fill_prefix ::
  "'w liburma \<Rightarrow> RegisteredSeg \<Rightarrow> usize \<Rightarrow> (nat \<Rightarrow> bytes) \<Rightarrow> nat \<times> 'w heap \<Rightarrow> (unit, 'w) run" where
  "fill_prefix L g n mk st =
     (if n > landing_len g then Some (None, st)
      else Some (Some (Inr ()), (fst st, write_prefix L g (mk (unat n)) (snd st))))"

section \<open>Waiting for one completion\<close>

definition READ_CTX :: u64 where "READ_CTX = 0x1a7"

partial_function (option) spin_loop ::
  "'w liburma \<Rightarrow> clock \<Rightarrow> CompletionQueue \<Rightarrow> nat \<Rightarrow> nat \<times> 'w heap \<Rightarrow> (Completion, 'w) run" where
  "spin_loop L clk q deadline st =
     (case poll L q (snd st) of
        (Inl e, h) \<Rightarrow> Some (Some (Inl e), (fst st, h))
      | (Inr (Some cr), h) \<Rightarrow>
          Some (Some (if \<not> is_success cr \<or> c_user_ctx cr \<noteq> READ_CTX
                      then Inl (BadCompletion (c_status cr) (c_user_ctx cr)) else Inr cr), (fst st, h))
      | (Inr None, h) \<Rightarrow>
          (if clk (fst st) \<ge> deadline then Some (Some (Inl (PollTimeout READ_CTX)), (Suc (fst st), h))
           else spin_loop L clk q deadline (Suc (fst st), h)))"

definition wait_read_spin ::
  "'w liburma \<Rightarrow> clock \<Rightarrow> CompletionQueue \<Rightarrow> nat \<times> 'w heap \<Rightarrow> (Completion, 'w) run" where
  "wait_read_spin L clk q st =
     spin_loop L clk q (clk (fst st) + READ_TIMEOUT) (Suc (fst st), snd st)"

section \<open>Timed iterations\<close>

text \<open>\<open>run_iters\<close> up to its floating point statistics: the samples, in nanoseconds.\<close>

fun repeat_op :: "nat \<Rightarrow> (nat \<times> 'w heap \<Rightarrow> (unit, 'w) run) \<Rightarrow> nat \<times> 'w heap \<Rightarrow> (unit, 'w) run" where
  "repeat_op 0 f st = Some (Some (Inr ()), st)"
| "repeat_op (Suc n) f st = run_then (f st) (\<lambda>_ st. repeat_op n f st)"

fun sample_op ::
  "clock \<Rightarrow> nat \<Rightarrow> (nat \<times> 'w heap \<Rightarrow> (unit, 'w) run) \<Rightarrow> nat list \<Rightarrow> nat \<times> 'w heap \<Rightarrow> (nat list, 'w) run" where
  "sample_op clk 0 f xs st = Some (Some (Inr xs), st)"
| "sample_op clk (Suc n) f xs st =
     (let t0 = clk (fst st)
      in run_then (f (Suc (fst st), snd st)) (\<lambda>_ st.
           sample_op clk n f (xs @ [clk (fst st) - t0]) (Suc (fst st), snd st)))"

definition run_iters ::
  "clock \<Rightarrow> (nat \<times> 'w heap \<Rightarrow> (unit, 'w) run) \<Rightarrow> u32 \<Rightarrow> u32 \<Rightarrow> nat \<times> 'w heap \<Rightarrow> (nat list, 'w) run" where
  "run_iters clk f warmup iters st =
     run_then (repeat_op (unat warmup) f st) (\<lambda>_ st. sample_op clk (unat iters) f [] st)"

section \<open>Arguments and limits of a one-sided run\<close>

record BenchArgs =
  be_sizes :: string
  be_iters :: u32
  be_warmup :: u32

record OneSidedArgs =
  os_mode :: ModeArgs
  os_desc :: string
  os_bench :: BenchArgs
  os_depth :: u32
  os_jetties :: u32
  os_post_list :: u32
  os_cq_mod :: u64
  os_landing_cap :: "usize option"
  os_duration :: u64

definition check_args :: "OneSidedArgs \<Rightarrow> unit result" where
  "check_args a =
     (if os_depth a = 0 then Inl (Invalid ''--depth must be at least 1'')
      else if os_duration a > 0 \<and> os_depth a = 1
      then Inl (Invalid (''--duration needs bandwidth mode: pass --depth > 1 (latency mode counts iterations, '' @
             ''not seconds)''))
      else if os_cq_mod a > 0 \<and> os_depth a = 1
      then Inl (Invalid (''--cq-mod needs bandwidth mode: pass --depth > 1 (a serialized op cannot skip '' @
             ''completion records)''))
      else if (os_jetties a > 1 \<or> os_post_list a > 1) \<and> os_depth a = 1
      then Inl (Invalid (''--jetties/--post-list need bandwidth mode: pass --depth > 1 (latency mode is one '' @
             ''serialized op at a time)''))
      else if os_jetties a = 0 \<or> os_jetties a > BW_MAX_JETTIES
      then Inl (Invalid (''--jetties must be 1..='' @ show_word BW_MAX_JETTIES))
      else if os_post_list a = 0 \<or> os_post_list a > os_depth a
      then Inl (Invalid (''--post-list must be 1..=depth ('' @ show_word (os_depth a) @
             ''): a chained work-request list longer than the pipeline would overflow the send queue''))
      else Inr ())"

text \<open>The descriptor argument, or the line of standard input it stands for.\<close>

definition desc_line :: "string result \<Rightarrow> OneSidedArgs \<Rightarrow> string result" where
  "desc_line stdin a = (if os_desc a = ''-'' then stdin else Inr (os_desc a))"

definition one_sided_input :: "string result \<Rightarrow> OneSidedArgs \<Rightarrow> (usize list \<times> WireDesc) result option" where
  "one_sided_input stdin a =
     map_option (\<lambda>r.
       rbind r (\<lambda>sizes.
       rbind (check_args a) (\<lambda>_.
       rbind (desc_line stdin a) (\<lambda>line.
       rbind (unpack_desc line) (\<lambda>wire. Inr (sizes, wire))))))
     (bench_sizes (be_iters (os_bench a)) (be_sizes (os_bench a)))"

definition depth_limit :: "DeviceCap \<Rightarrow> u64" where
  "depth_limit cap =
     (case map ucast (filter (\<lambda>c. c > 0) [max_jfs_depth cap, max_jfc_depth cap, max_jfr_depth cap]) of
        [] \<Rightarrow> ucast DEFAULT_DEPTH | c # cs \<Rightarrow> fold min cs c)"

definition op_cap :: "DeviceCap \<Rightarrow> u64 \<Rightarrow> u64" where
  "op_cap cap v = (if v \<noteq> 0 then v else if max_msg_size cap \<noteq> 0 then max_msg_size cap else - 1)"

definition op_limit :: "BwOp \<Rightarrow> DeviceCap \<Rightarrow> u64 \<Rightarrow> u64" where
  "op_limit op cap peer_len =
     (case op of
        OpRead \<Rightarrow> min (op_cap cap (max_read_size cap)) peer_len
      | OpWrite \<Rightarrow> min (min (op_cap cap (max_read_size cap)) (op_cap cap (max_write_size cap))) peer_len)"

definition queue_depth :: "OneSidedArgs \<Rightarrow> u32" where
  "queue_depth a = max (os_depth a) DEFAULT_DEPTH + os_jetties a"

definition one_sided_limits :: "BwOp \<Rightarrow> OneSidedArgs \<Rightarrow> WireDesc \<Rightarrow> DeviceCap \<Rightarrow> usize list \<Rightarrow> usize list result" where
  "one_sided_limits op a wire cap sizes =
     (if ucast (os_depth a) > depth_limit cap
      then Inl (Invalid (''--depth '' @ show_word (os_depth a) @ '' exceeds the device'' @ [CHR 0x27] @
             ''s queue ceilings (jfs '' @ show_word (max_jfs_depth cap) @ '' / jfc '' @
             show_word (max_jfc_depth cap) @ '' / jfr '' @ show_word (max_jfr_depth cap) @
             ''); use at most '' @ show_word (depth_limit cap)))
      else
        let sizes = filter (\<lambda>n. n \<le> op_limit op cap (sd_len (wd_seg wire))) sizes
        in if sizes = [] then Inl (Invalid ''no size left after the device/segment limits'')
           else Inr sizes)"

definition saturating_mul :: "usize \<Rightarrow> usize \<Rightarrow> usize" where
  "saturating_mul a b = (case checked_mul a b of None \<Rightarrow> - 1 | Some c \<Rightarrow> c)"

definition BW_LANDING_CAP :: usize where "BW_LANDING_CAP = 2 ^ 30"

definition landing_bytes :: "OneSidedArgs \<Rightarrow> usize \<Rightarrow> usize" where
  "landing_bytes a max_len =
     (if os_depth a > 1
      then let want = saturating_mul max_len (ucast (os_depth a))
           in min want (case os_landing_cap a of None \<Rightarrow> BW_LANDING_CAP | Some c \<Rightarrow> c)
      else max_len)"

section \<open>The resources of a one-sided run\<close>

record rig =
  rg_urma :: Urma
  rg_ctx :: Context
  rg_cq :: CompletionQueue
  rg_jetties :: "Jetty list"
  rg_peers :: "Peer list"
  rg_landing :: RegisteredSeg

text \<open>Locals are dropped latest first, the handles of a vector first to last.\<close>

definition rig_vals :: "rig \<Rightarrow> val list" where
  "rig_vals r = VSeg (rg_landing r) # map VPeer (rg_peers r) @ map VJetty (rg_jetties r)
     @ [VCq (rg_cq r), VCtx (rg_ctx r), VUrma (rg_urma r)]"

definition bench_opts :: "u32 \<Rightarrow> TransMode \<Rightarrow> bool \<Rightarrow> u8 \<Rightarrow> JettyOpts" where
  "bench_opts depth mode multi priority =
     default_JettyOpts\<lparr>opt_depth := depth, opt_trans_mode := mode, opt_multi_path := multi,
       opt_priority := priority\<rparr>"

text \<open>The largest size, \<open>sizes.last().unwrap()\<close>, is \<open>max_len\<close>; the list is not empty here.\<close>

definition one_sided_setup ::
  "'w liburma \<Rightarrow> OneSidedArgs \<Rightarrow> WireDesc \<Rightarrow> TransMode \<times> TpType \<times> bool \<times> DeviceCap \<Rightarrow> usize
     \<Rightarrow> 'w heap \<Rightarrow> rig result option \<times> 'w heap" where
  "one_sided_setup L a wire m max_len s =
     (let (mode, tp, multi, cap) = m; dev = ma_dev (os_mode a); want = unat (os_jetties a) in
     try_drop L [] (Urma_init L s) (\<lambda>urma s.
     try_drop L [VUrma urma] (Context_create L urma dev s) (\<lambda>ctx s.
     if sd_eid (wd_seg wire) = ctx_eid ctx
     then (Some (Inl (Invalid (''peer eid equals this context'' @ [CHR 0x27] @ ''s eid: single-machine loopback crashes '' @
             ''inside liburma'' @ [CHR 0x27] @ ''s import path; run serve-urma on another node''))),
           unwind L [VCtx ctx, VUrma urma] s)
     else
     let opts = bench_opts (queue_depth a) mode multi (resolve_priority (os_mode a) cap tp) in
     try_drop L [VCtx ctx, VUrma urma] (CompletionQueue_new L ctx (queue_depth a) s) (\<lambda>cq s.
     try_drop L [VCq cq, VCtx ctx, VUrma urma]
       (push_each L VJetty (\<lambda>_. Jetty_new L ctx cq opts) [0..<want] [] s) (\<lambda>jetties s.
     if length (wd_rjetty wire) < want
     then (Some (Inl (Invalid (''--jetties '' @ show_nat want @ '' but the descriptor carries '' @
             show_nat (length (wd_rjetty wire)) @ '' rjetty blob(s): restart serve-urma with --jetties '' @
             show_nat want @ '' (it exports one blob per jetty)''))),
           unwind L (map VJetty jetties @ [VCq cq, VCtx ctx, VUrma urma]) s)
     else
     try_drop L (map VJetty jetties @ [VCq cq, VCtx ctx, VUrma urma])
       (push_each L VPeer (\<lambda>rj. Peer_import_ctx L ctx (wd_seg_ctx wire) rj tp TOKEN_VALUE)
         (take want (wd_rjetty wire)) [] s) (\<lambda>peers s.
     try_drop L (map VPeer peers @ map VJetty jetties @ [VCq cq, VCtx ctx, VUrma urma])
       (RegisteredBuf_new L ctx (landing_bytes a max_len) TOKEN_VALUE s) (\<lambda>landing s.
       (Some (Inr \<lparr>rg_urma = urma, rg_ctx = ctx, rg_cq = cq, rg_jetties = jetties, rg_peers = peers,
          rg_landing = landing\<rparr>), s))))))))"

section \<open>The sweep\<close>

text \<open>One serialized transfer of the first bytes of the landing buffer.\<close>

definition transfer_one ::
  "'w liburma \<Rightarrow> clock \<Rightarrow> BwOp \<Rightarrow> CompletionQueue \<Rightarrow> Jetty \<Rightarrow> Peer \<Rightarrow> u64 \<Rightarrow> LocalSge \<Rightarrow> nat \<times> 'w heap
     \<Rightarrow> (unit, 'w) run" where
  "transfer_one L clk op cq j peer va sge st =
     run_then (heap_run (case op of
         OpRead \<Rightarrow> post_read L j peer va [sge] READ_CTX
       | OpWrite \<Rightarrow> post_write L j peer va [sge] READ_CTX) st) (\<lambda>_ st.
     run_then (wait_read_spin L clk cq st) (\<lambda>_ st. Some (Some (Inr ()), st)))"

definition check_landing ::
  "'w liburma \<Rightarrow> string \<Rightarrow> RegisteredSeg \<Rightarrow> usize \<Rightarrow> nat \<times> 'w heap \<Rightarrow> (unit, 'w) run" where
  "check_landing L what landing n st =
     pure_run (map_option (check_pat what) (read_prefix L landing n (snd st))) st"

definition verify_size ::
  "'w liburma \<Rightarrow> clock \<Rightarrow> BwOp \<Rightarrow> CompletionQueue \<Rightarrow> Jetty \<Rightarrow> Peer \<Rightarrow> RegisteredSeg \<Rightarrow> u64 \<Rightarrow> usize
     \<Rightarrow> nat \<times> 'w heap \<Rightarrow> (unit, 'w) run" where
  "verify_size L clk op cq j peer landing va n st =
     (case op of
        OpRead \<Rightarrow>
          run_then (pure_run (Some (seg_sge landing 0 (ucast n))) st) (\<lambda>sge st.
          run_then (transfer_one L clk OpRead cq j peer va sge st) (\<lambda>_ st.
          check_landing L (''size '' @ show_word n @ '' verify read'') landing n st))
      | OpWrite \<Rightarrow>
          run_then (fill_prefix L landing n (\<lambda>k. fill_pat (replicate k 0)) st) (\<lambda>_ st.
          run_then (pure_run (Some (seg_sge landing 0 (ucast n))) st) (\<lambda>sge st.
          run_then (transfer_one L clk OpWrite cq j peer va sge st) (\<lambda>_ st.
          run_then (fill_prefix L landing n (\<lambda>k. replicate k 0) st) (\<lambda>_ st.
          run_then (pure_run (Some (seg_sge landing 0 (ucast n))) st) (\<lambda>sge st.
          run_then (transfer_one L clk OpRead cq j peer va sge st) (\<lambda>_ st.
          check_landing L (''size '' @ show_word n @ '' verify write read-back'') landing n st)))))))"

text \<open>A row of the report: the samples of latency mode, or moderation, window and operations.\<close>

datatype row = Latency usize "nat list" | Bandwidth usize u64 nat u64

definition measure_size ::
  "'w liburma \<Rightarrow> clock \<Rightarrow> BwOp \<Rightarrow> OneSidedArgs \<Rightarrow> WireDesc \<Rightarrow> rig \<Rightarrow> Jetty \<Rightarrow> Peer \<Rightarrow> usize
     \<Rightarrow> nat \<times> 'w heap \<Rightarrow> (row, 'w) run" where
  "measure_size L clk op a wire r j peer n st =
     (let va = sd_va (wd_seg wire) in
     if os_depth a = 1
     then run_then (pure_run (Some (seg_sge (rg_landing r) 0 (ucast n))) st) (\<lambda>sge st.
          run_then (run_iters clk (transfer_one L clk op (rg_cq r) j peer va sge)
                     (be_warmup (os_bench a)) (be_iters (os_bench a)) st) (\<lambda>xs st.
          Some (Some (Inr (Latency n xs)), st)))
     else run_then (pure_run (map_option Inr (resolve_cq_mod (os_cq_mod a) (os_depth a))) st) (\<lambda>m st.
          let bw = \<lparr>bx_jetties = rg_jetties r, bx_cq = rg_cq r, bx_peers = rg_peers r, bx_remote_va = va,
                    bx_seg_len = sd_len (wd_seg wire), bx_landing = rg_landing r,
                    bx_post_list = os_post_list a, bx_op = op\<rparr>;
              duration = (if os_duration a > 0 then Some (os_duration a) else None)
          in run_then (run_bw_iters L clk bw n (os_depth a) m (be_warmup (os_bench a))
                         (be_iters (os_bench a)) duration (fst st) (snd st)) (\<lambda>(window, ops) st.
             Some (Some (Inr (Bandwidth n m window ops)), st))))"

fun sweep ::
  "'w liburma \<Rightarrow> clock \<Rightarrow> BwOp \<Rightarrow> OneSidedArgs \<Rightarrow> WireDesc \<Rightarrow> rig \<Rightarrow> Jetty \<Rightarrow> Peer \<Rightarrow> usize list \<Rightarrow> row list
     \<Rightarrow> nat \<times> 'w heap \<Rightarrow> (row list, 'w) run" where
  "sweep L clk op a wire r j peer [] rows st = Some (Some (Inr rows), st)"
| "sweep L clk op a wire r j peer (n # ns) rows st =
     run_then (verify_size L clk op (rg_cq r) j peer (rg_landing r) (sd_va (wd_seg wire)) n st) (\<lambda>_ st.
     run_then (measure_size L clk op a wire r j peer n st) (\<lambda>x st.
     sweep L clk op a wire r j peer ns (rows @ [x]) st))"

text \<open>Serialized transfers use the first jetty and peer.\<close>

definition sweep_all ::
  "'w liburma \<Rightarrow> clock \<Rightarrow> BwOp \<Rightarrow> OneSidedArgs \<Rightarrow> WireDesc \<Rightarrow> rig \<Rightarrow> usize list \<Rightarrow> nat \<times> 'w heap
     \<Rightarrow> (row list, 'w) run" where
  "sweep_all L clk op a wire r sizes st =
     (case (rg_jetties r, rg_peers r) of
        (j # _, peer # _) \<Rightarrow> sweep L clk op a wire r j peer sizes [] st
      | _ \<Rightarrow> Some (None, st))"

text \<open>Dropping the locals at the end of a run, however it ends.\<close>

definition then_drop :: "'w liburma \<Rightarrow> val list \<Rightarrow> ('a, 'w) run \<Rightarrow> ('a, 'w) run" where
  "then_drop L vs r = map_option (\<lambda>(q, st). (q, (fst st, unwind L vs (snd st)))) r"

definition one_sided_run ::
  "'w liburma \<Rightarrow> clock \<Rightarrow> string result \<Rightarrow> OneSidedArgs \<Rightarrow> BwOp \<Rightarrow> nat \<times> 'w heap \<Rightarrow> (row list, 'w) run" where
  "one_sided_run L clk stdin a op st =
     Option.bind (one_sided_input stdin a) (\<lambda>input.
     run_then (pure_run (Some input) st) (\<lambda>(sizes, wire) st.
     run_then (heap_run (\<lambda>h. let (cap, h) = query_device L (ma_dev (os_mode a)) h
                             in (preflight (\<lambda>_. cap) (os_mode a), h)) st) (\<lambda>m st.
     run_then (pure_run (Some (one_sided_limits op a wire (snd (snd (snd m))) sizes)) st) (\<lambda>sizes st.
     case one_sided_setup L a wire m (last sizes) (snd st) of (q, h) \<Rightarrow>
     run_then (Some (q, (fst st, h))) (\<lambda>r st.
     then_drop L (rig_vals r) (sweep_all L clk op a wire r sizes st))))))"

section \<open>The server\<close>

record ServeUrmaArgs =
  su_mode :: ModeArgs
  su_jetties :: u32
  su_sizes :: "string option"
  su_buf_len :: "usize option"

definition serve_opts :: "TransMode \<Rightarrow> bool \<Rightarrow> u8 \<Rightarrow> JettyOpts" where
  "serve_opts mode multi priority =
     default_JettyOpts\<lparr>opt_trans_mode := mode, opt_multi_path := multi, opt_priority := priority\<rparr>"

text \<open>The exports of all jettys; an error keeps nothing, blobs are plain bytes.\<close>

fun export_all :: "'w liburma \<Rightarrow> Jetty list \<Rightarrow> 'w heap \<Rightarrow> bytes list result \<times> 'w heap" where
  "export_all L [] s = (Inr [], s)"
| "export_all L (j # js) s =
     (case export_rjetty L j s of
        (Inl e, s) \<Rightarrow> (Inl e, s)
      | (Inr b, s) \<Rightarrow>
          (case export_all L js s of (Inl e, s) \<Rightarrow> (Inl e, s) | (Inr bs, s) \<Rightarrow> (Inr (b # bs), s)))"

text \<open>Up to the descriptor line, with what the server then holds.\<close>

definition serve_urma_setup ::
  "'w liburma \<Rightarrow> ServeUrmaArgs \<Rightarrow> TransMode \<times> TpType \<times> bool \<times> DeviceCap \<Rightarrow> usize \<Rightarrow> 'w heap
     \<Rightarrow> (WireDesc \<times> val list) result option \<times> 'w heap" where
  "serve_urma_setup L a m buf_len s =
     (let (mode, tp, multi, cap) = m; dev = ma_dev (su_mode a);
          opts = serve_opts mode multi (resolve_priority (su_mode a) cap tp) in
     try_drop L [] (Urma_init L s) (\<lambda>urma s.
     try_drop L [VUrma urma] (Context_create L urma dev s) (\<lambda>ctx s.
     try_drop L [VCtx ctx, VUrma urma] (CompletionQueue_new L ctx DEFAULT_DEPTH s) (\<lambda>cq s.
     try_drop L [VCq cq, VCtx ctx, VUrma urma]
       (push_each L VJetty (\<lambda>_. Jetty_new L ctx cq opts) [0..<unat (su_jetties a)] [] s) (\<lambda>jetties s.
     try_drop L (map VJetty jetties @ [VCq cq, VCtx ctx, VUrma urma])
       (RegisteredBuf_new L ctx buf_len TOKEN_VALUE s) (\<lambda>buf s.
     let held = VSeg buf # map VJetty jetties @ [VCq cq, VCtx ctx, VUrma urma];
         s = write_prefix L buf (fill_pat (replicate (unat (landing_len buf)) 0)) s;
         seg = descriptor L buf s in
     try_drop L held (export_seg_ctx L buf s) (\<lambda>seg_ctx s.
     try_drop L held (export_all L jetties s) (\<lambda>rjetty s.
       (Some (Inr (\<lparr>wd_seg = seg, wd_seg_ctx = seg_ctx, wd_rjetty = rjetty\<rparr>, held)), s)))))))))"

text \<open>The result is the descriptor line; a server without a terminal never returns.\<close>

definition serve_urma_run ::
  "'w liburma \<Rightarrow> bool \<Rightarrow> ServeUrmaArgs \<Rightarrow> nat \<times> 'w heap \<Rightarrow> (string, 'w) run" where
  "serve_urma_run L tty a st =
     (if su_jetties a = 0 \<or> su_jetties a > BW_MAX_JETTIES
      then Some (Some (Inl (Invalid (''--jetties must be 1..='' @ show_word BW_MAX_JETTIES))), st)
      else
        run_then (heap_run (\<lambda>h. let (cap, h) = query_device L (ma_dev (su_mode a)) h
                                in (preflight (\<lambda>_. cap) (su_mode a), h)) st) (\<lambda>m st.
        Option.bind (resolve_buf_len (su_buf_len a) (su_sizes a)) (\<lambda>len.
        run_then (pure_run len st) (\<lambda>buf_len st.
        case serve_urma_setup L a m buf_len (snd st) of (q, h) \<Rightarrow>
        run_then (Some (q, (fst st, h))) (\<lambda>(wire, held) st.
          if tty then then_drop L held (Some (Some (Inr (pack_desc wire)), st)) else None)))))"

section \<open>The commands\<close>

text \<open>The three commands that use the library, and the end of the process's only thread.\<close>

datatype cmd = ServeUrma ServeUrmaArgs | ReadUrma OneSidedArgs | WriteUrma OneSidedArgs

datatype report = Served string | Swept "row list"

fun run_cmd ::
  "'w liburma \<Rightarrow> clock \<Rightarrow> string result \<Rightarrow> bool \<Rightarrow> cmd \<Rightarrow> nat \<times> 'w heap \<Rightarrow> (report, 'w) run" where
  "run_cmd L clk stdin tty (ServeUrma a) st =
     run_then (serve_urma_run L tty a st) (\<lambda>line st. Some (Some (Inr (Served line)), st))"
| "run_cmd L clk stdin tty (ReadUrma a) st =
     run_then (one_sided_run L clk stdin a OpRead st) (\<lambda>rows st. Some (Some (Inr (Swept rows)), st))"
| "run_cmd L clk stdin tty (WriteUrma a) st =
     run_then (one_sided_run L clk stdin a OpWrite st) (\<lambda>rows st. Some (Some (Inr (Swept rows)), st))"

fun cmd_mode :: "cmd \<Rightarrow> ModeArgs" where
  "cmd_mode (ServeUrma a) = su_mode a"
| "cmd_mode (ReadUrma a) = os_mode a"
| "cmd_mode (WriteUrma a) = os_mode a"

end
