(* ===== verification/Holding.thy ===== *)
theory Holding
  imports Uses
begin

text \<open>
  What a program may do with the values it holds: each call of the data plane on a jetty, peer or
  completion queue among them keeps the ownership invariant, whatever it returns.
\<close>

section \<open>Held values are live\<close>

lemma peer_obj: "VPeer p \<in># V \<Longrightarrow> OImpJetty (peer_tjetty p) \<in> objs_in (objs_of V s)"
  unfolding objs_in_objs_of by force

lemma live_handles:
  assumes "inv ex {#} V s"
  shows "VCtx c \<in># V \<Longrightarrow> 0 < cstrong s (ctx_inner c)" and "VCq q \<in># V \<Longrightarrow> 0 < qstrong s (cq_inner q)"
  using counts_live(2,3) [OF invD(1) [OF assms]] by fastforce+

lemma jfc_obj: "inv ex {#} V s \<Longrightarrow> VCq q \<in># V \<Longrightarrow> OJfc (cq_jfc q s) \<in> objs_in (objs_of V s)"
  using live_handles(2) cq_dep(2) by blast

lemma jfr_obj: "VJetty j \<in># V \<Longrightarrow> OJfr (j_jfr j) \<in> objs_in (objs_of V s)"
  unfolding objs_in_objs_of by (force simp: jetty_pair_def)

lemma same_ctx_new:
  "fst (CompletionQueue_new L c n s) = Inr q \<Longrightarrow> same_ctx c q (snd (CompletionQueue_new L c n s))"
  using cq_new_same_ctx [of L c n s q] by (metis prod.collapse)

section \<open>Calls on held values\<close>

lemma inv_buf_new:
  assumes "inv ex {#} V s" and "VCtx c \<in># V"
  shows "inv ex {#} (res_val VSeg (fst (RegisteredBuf_new L c n tok s)) + V) (snd (RegisteredBuf_new L c n tok s))"
  using create_steps(5) [OF assms] by simp

lemma inv_cq_held:
  assumes "inv False {#} V s" and "VCtx c \<in># V"
  shows "inv False {#} (res_val VCq (fst (CompletionQueue_new L c n s)) + V) (snd (CompletionQueue_new L c n s))"
  using create_steps(3) [OF assms(1) live_handles(1) [OF assms]] by simp

text \<open>A jetty on the completion queue made last.\<close>

lemma inv_jetty_held:
  assumes "inv False {#} V s" and "VCtx c \<in># V" and "VCq q \<in># V"
    and "fst (CompletionQueue_new L c n s0) = Inr q" and "s = snd (CompletionQueue_new L c n s0)"
    and "opt_priority opts \<le> URMA_MAX_PRIORITY"
  shows "inv False {#} (res_val VJetty (fst (Jetty_new L c q opts s)) + V) (snd (Jetty_new L c q opts s))"
  by (rule create_steps(4) [OF assms(1) live_handles(1) [OF assms(1,2)] live_handles(2) [OF assms(1,3)] _ assms(6)])
    (use same_ctx_new [OF assms(4)] assms(5) in simp)

lemma inv_one_sided:
  assumes "inv ex {#} V s" and "VJetty j \<in># V" and "VPeer p \<in># V"
  shows "inv ex {#} V (snd (post_read L j p va local ctx s))"
    and "inv ex {#} V (snd (post_write L j p va local ctx s))"
  unfolding post_read_def post_write_def
  by (rule inv_uses [OF assms(1) uses_one_sided(1) order_refl] inv_uses [OF assms(1) uses_one_sided(2) order_refl];
      use assms jetty_obj peer_obj in blast)+

lemma inv_post_send:
  assumes "inv ex {#} V s" and "VJetty j \<in># V" and "VPeer p \<in># V"
  shows "inv ex {#} V (snd (post_send L j p local ctx s))"
  by (rule inv_uses [OF assms(1) uses_two_sided(1) order_refl]) (use assms jetty_obj peer_obj in blast)

lemma inv_post_recv:
  assumes "inv ex {#} V s" and "VJetty j \<in># V"
  shows "inv ex {#} V (snd (post_recv L j local ctx s))"
  by (rule inv_uses [OF assms(1) uses_two_sided(2) order_refl]) (use assms jfr_obj in blast)

lemma inv_poll_held:
  assumes "inv ex {#} V s" and "VCq q \<in># V"
  shows "inv ex {#} V (snd (poll L q s))"
  by (rule inv_uses [OF assms(1) uses_poll order_refl]) (rule jfc_obj [OF assms])

lemma inv_wait_read:
  assumes "inv ex {#} V s" and "VCq q \<in># V"
  shows "inv ex {#} V (snd (wait_read L q expected s))"
proof -
  have "inv ex {#} V (snd (wait_read_loop L q expected k s))" if "inv ex {#} V s" for k
    using that
  proof (induction k arbitrary: s)
    case (Suc k)
    obtain r s' where p: "poll L q s = (r, s')" by force
    have "inv ex {#} V s'" using inv_poll_held [OF Suc.prems assms(2), of L] by (simp add: p)
    then show ?case using Suc.IH by (auto simp: p split: sum.split option.split)
  qed simp
  then show ?thesis using assms(1) by (simp add: wait_read_def)
qed

lemma inv_import_ctx:
  assumes "inv ex {#} V s" and "VCtx c \<in># V"
  shows "inv ex {#} (res_val VPeer (fst (Peer_import_ctx L c seg rj tp tok s)) + V)
    (snd (Peer_import_ctx L c seg rj tp tok s))"
  by (rule inv_peer_import_ctx [OF prod.collapse [symmetric] assms(1) live_handles(1) [OF assms]])

lemma inv_import_peer:
  assumes "inv ex {#} V s" and "VCtx c \<in># V"
  shows "inv ex {#} (res_val VPeer (fst (import_peer L c desc s)) + V) (snd (import_peer L c desc s))"
  unfolding import_peer_def by (rule inv_import_loop [OF assms])

lemma inv_queried:
  assumes "inv False {#} V s"
  shows "inv False {#} V (snd (let (cap, s) = query_device L dev s in (f cap, s)))"
  using create_steps(6) [OF assms] by (simp add: split_beta)

section \<open>Steps that went well\<close>

lemma registered_len:
  "RegisteredBuf_new L c n tok s = (Inr g, s') \<Longrightarrow> landing_len g = n \<and> rs_len g = n"
  by (auto simp: RegisteredBuf_new_def PageBuf_new_def register_in_def landing_len_def Let_def clone_ctx_def
      split: prod.splits sum.splits if_splits)

lemma try_drop_Inr:
  "try_drop L vs r k = (Some (Inr y), s') \<longleftrightarrow> (\<exists>x s. r = (Inr x, s) \<and> k x s = (Some (Inr y), s'))"
  by (cases r) (auto simp: try_drop_def split: sum.splits)

lemma try_drop_safe:
  "(\<And>x s. r = (Inr x, s) \<Longrightarrow> fst (k x s) \<noteq> None) \<Longrightarrow> fst (try_drop L vs r k) \<noteq> None"
  by (cases r) (auto simp: try_drop_def split: sum.splits)

end
