(* ===== verification/BenchSafety.thy ===== *)
theory BenchSafety
  imports BenchRun Holding
begin

text \<open>
  The benchmark's URMA commands release what they create: on every way out, error, panic or end,
  every library object is deleted in an allowed order, and no object is used after its deletion.
\<close>

section \<open>Runs that only use objects\<close>

definition run_uses :: "robj set \<Rightarrow> nat \<times> 'w heap \<Rightarrow> ('a, 'w) run \<Rightarrow> bool" where
  "run_uses objs st r \<longleftrightarrow> (case r of None \<Rightarrow> True | Some (q, st') \<Rightarrow> uses objs (snd st) (snd st'))"

lemma run_uses_simps [simp]:
  "run_uses objs st None"
  "run_uses objs st (Some (q, st')) \<longleftrightarrow> uses objs (snd st) (snd st')"
  "run_uses objs st (pure_run x st)"
  by (simp_all add: run_uses_def pure_run_def)

lemma run_uses_tick [simp]: "run_uses objs (m, snd st) r = run_uses objs st r"
  by (cases r) (auto simp: run_uses_def)

lemma run_uses_then:
  assumes "run_uses objs st r" and "\<And>x st'. uses objs (snd st) (snd st') \<Longrightarrow> run_uses objs st' (k x st')"
  shows "run_uses objs st (run_then r k)"
proof (cases r)
  case (Some p)
  obtain q st' where p: "p = (q, st')" by (cases p)
  have u: "uses objs (snd st) (snd st')" using assms(1) by (simp add: Some p)
  have "run_uses objs st (k x st')" for x
    using assms(2) [OF u, of x] uses_trans [OF u] by (auto simp: run_uses_def split: option.splits)
  then show ?thesis
    using u by (auto simp: run_then_def Some p split: option.split sum.split)
qed (simp add: run_then_def)

lemma run_uses_heap:
  "uses objs (snd st) (snd (f (snd st))) \<Longrightarrow> run_uses objs st (heap_run f st)"
  by (simp add: heap_run_def split_beta)

lemma run_uses_fill: "run_uses objs st (fill_prefix L g n mk st)"
  by (simp add: fill_prefix_def write_prefix_def)

lemma run_uses_spin_loop:
  assumes "OJfc (cq_jfc q (snd st)) \<in> objs"
  shows "run_uses objs st (spin_loop L clk q deadline st)"
proof (cases "spin_loop L clk q deadline st")
  case (Some r)
  let ?P = "\<lambda>L clk q deadline st r. OJfc (cq_jfc q (snd st)) \<in> objs \<longrightarrow> uses objs (snd st) (snd (snd r))"
  have "?P L clk q deadline st r"
  proof (rule spin_loop.raw_induct [of ?P, OF _ Some], intro impI)
    fix loop L clk q deadline st r
    assume IH: "\<And>L clk q deadline st r. loop L clk q deadline st = Some r \<Longrightarrow> ?P L clk q deadline st r"
      and body: "(case poll L q (snd st) of
          (Inl e, h) \<Rightarrow> Some (Some (Inl e), (fst st, h))
        | (Inr (Some cr), h) \<Rightarrow>
            Some (Some (if \<not> is_success cr \<or> c_user_ctx cr \<noteq> READ_CTX
                        then Inl (BadCompletion (c_status cr) (c_user_ctx cr)) else Inr cr), (fst st, h))
        | (Inr None, h) \<Rightarrow>
            (if clk (fst st) \<ge> deadline then Some (Some (Inl (PollTimeout READ_CTX)), (Suc (fst st), h))
             else loop L clk q deadline (Suc (fst st), h))) = Some r"
      and j: "OJfc (cq_jfc q (snd st)) \<in> objs"
    obtain v h where v: "poll L q (snd st) = (v, h)" by force
    have u: "uses objs (snd st) h" using uses_poll [OF j, of L] by (simp add: v)
    then have "uses objs h (snd (snd r))" if "loop L clk q deadline (Suc (fst st), h) = Some r"
      using IH [OF that] j by (simp add: cq_jfc_uses [OF u])
    then show "uses objs (snd st) (snd (snd r))"
      using body u uses_trans [OF u] by (auto simp: v split: sum.splits option.splits if_splits)
  qed
  then show ?thesis using assms Some by (auto simp: run_uses_def)
qed simp

lemma run_uses_repeat:
  assumes "\<And>st'. uses objs (snd st) (snd st') \<Longrightarrow> run_uses objs st' (f st')"
  shows "run_uses objs st (repeat_op n f st)"
  using assms
proof (induction n arbitrary: st)
  case (Suc n)
  have "run_uses objs st' (repeat_op n f st')" if u: "uses objs (snd st) (snd st')" for st'
    by (rule Suc.IH) (use Suc.prems uses_trans [OF u] in blast)
  then show ?case using Suc.prems [of st] by (auto intro: run_uses_then)
qed simp

lemma run_uses_sample:
  assumes "\<And>st'. uses objs (snd st) (snd st') \<Longrightarrow> run_uses objs st' (f st')"
  shows "run_uses objs st (sample_op clk n f xs st)"
  using assms
proof (induction n arbitrary: st xs)
  case (Suc n)
  let ?st = "(Suc (fst st), snd st)"
  have f: "run_uses objs ?st (f ?st)" by (rule Suc.prems) simp
  have "run_uses objs st' (sample_op clk n f ys (Suc (fst st'), snd st'))"
    if u: "uses objs (snd st) (snd st')" for st' ys
  proof -
    have "run_uses objs (Suc (fst st'), snd st') (sample_op clk n f ys (Suc (fst st'), snd st'))"
      by (rule Suc.IH) (use Suc.prems uses_trans [OF u] in auto)
    then show ?thesis by simp
  qed
  then have "run_uses objs ?st (sample_op clk (Suc n) f xs st)"
    using f by (auto simp: Let_def intro!: run_uses_then)
  then show ?case by simp
qed simp

text \<open>The objects the sweep uses.\<close>

definition sweeping :: "robj set \<Rightarrow> Jetty \<Rightarrow> Peer \<Rightarrow> CompletionQueue \<Rightarrow> 'w heap \<Rightarrow> bool" where
  "sweeping objs j peer cq h \<longleftrightarrow>
     OJetty (j_raw j) \<in> objs \<and> OImpJetty (peer_tjetty peer) \<in> objs \<and> OJfc (cq_jfc cq h) \<in> objs"

lemma sweeping_uses: "uses objs' h h' \<Longrightarrow> sweeping objs j peer cq h' = sweeping objs j peer cq h"
  by (simp add: sweeping_def cq_jfc_uses)

lemma run_uses_transfer:
  fixes st :: "nat \<times> 'w heap"
  assumes "sweeping objs j peer cq (snd st)"
  shows "run_uses objs st (transfer_one L clk op cq j peer va sge st)"
  unfolding transfer_one_def
proof (intro run_uses_then run_uses_heap)
  show "uses objs (snd st) (snd ((case op of OpRead \<Rightarrow> post_read L j peer va [sge] READ_CTX
      | OpWrite \<Rightarrow> post_write L j peer va [sge] READ_CTX) (snd st)))"
    using assms uses_one_sided [of j peer objs]
    by (auto simp: sweeping_def post_read_def post_write_def split: BwOp.split)
  fix st' :: "nat \<times> 'w heap" assume "uses objs (snd st) (snd st')"
  then have "sweeping objs j peer cq (snd st')" using assms by (simp add: sweeping_uses)
  then show "run_uses objs st' (wait_read_spin L clk cq st')"
    using run_uses_spin_loop [of cq "(Suc (fst st'), snd st')" objs L clk]
    by (simp add: wait_read_spin_def sweeping_def)
qed simp

lemma run_uses_check: "run_uses objs st (check_landing L what g n st)"
  by (simp add: check_landing_def)

lemma run_uses_verify:
  assumes "sweeping objs j peer cq (snd st)"
  shows "run_uses objs st (verify_size L clk op cq j peer landing va n st)"
  using assms
  by (auto simp: verify_size_def sweeping_uses
      intro!: run_uses_then run_uses_transfer run_uses_check run_uses_fill split: BwOp.split)

lemma run_uses_measure:
  assumes "sweeping objs j peer (rg_cq r) (snd st)"
    and "\<forall>j \<in> set (rg_jetties r). OJetty (j_raw j) \<in> objs"
    and "\<forall>p \<in> set (rg_peers r). OImpJetty (peer_tjetty p) \<in> objs"
  shows "run_uses objs st (measure_size L clk op a wire r j peer n st)"
proof -
  define bw where "bw = \<lparr>bx_jetties = rg_jetties r, bx_cq = rg_cq r, bx_peers = rg_peers r,
      bx_remote_va = sd_va (wd_seg wire), bx_seg_len = sd_len (wd_seg wire), bx_landing = rg_landing r,
      bx_post_list = os_post_list a, bx_op = op\<rparr>"
  have bw: "run_uses objs st' (run_bw_iters L clk bw n (os_depth a) m wu it dur (fst st') (snd st'))"
    if "uses objs (snd st) (snd st')" for st' m wu it dur
  proof (cases "run_bw_iters L clk bw n (os_depth a) m wu it dur (fst st') (snd st')")
    case (Some q)
    have "within bw objs (snd st')"
      using assms that by (auto simp: within_def bw_def sweeping_def cq_jfc_uses)
    then show ?thesis using kept_run_bw_iters [OF Some] by (cases q) (simp add: Some)
  qed simp
  have "run_uses objs st' (run_iters clk (transfer_one L clk op (rg_cq r) j peer va sge) wu it st')"
    if u: "uses objs (snd st) (snd st')" for st' sge va wu it
  proof -
    have "sweeping objs j peer (rg_cq r) (snd st'')" if "uses objs (snd st') (snd st'')" for st''
      using assms(1) uses_trans [OF u that] by (simp add: sweeping_uses)
    moreover have "sweeping objs j peer (rg_cq r) (snd st3)"
      if "uses objs (snd st') (snd st'')" "uses objs (snd st'') (snd st3)" for st'' st3
      using calculation uses_trans [OF that] by blast
    ultimately show ?thesis
      unfolding run_iters_def
      by (intro run_uses_then run_uses_repeat run_uses_sample run_uses_transfer) blast+
  qed
  then show ?thesis
    using bw by (auto simp: measure_size_def Let_def bw_def [symmetric] split_beta intro!: run_uses_then)
qed

lemma run_uses_sweep:
  assumes "sweeping objs j peer (rg_cq r) (snd st)"
    and "\<forall>j \<in> set (rg_jetties r). OJetty (j_raw j) \<in> objs"
    and "\<forall>p \<in> set (rg_peers r). OImpJetty (peer_tjetty p) \<in> objs"
  shows "run_uses objs st (sweep L clk op a wire r j peer ns rows st)"
  using assms(1)
proof (induction ns arbitrary: rows st)
  case (Cons n ns)
  have measure: "run_uses objs st' (measure_size L clk op a wire r j peer n st')"
    if "uses objs (snd st) (snd st')" for st'
    by (rule run_uses_measure [OF _ assms(2,3)]) (use Cons.prems that in \<open>simp add: sweeping_uses\<close>)
  have "run_uses objs st'' (sweep L clk op a wire r j peer ns rows' st'')"
    if "uses objs (snd st) (snd st')" "uses objs (snd st') (snd st'')" for st' st'' rows'
    by (rule Cons.IH) (use Cons.prems uses_trans [OF that] in \<open>simp add: sweeping_uses\<close>)
  then show ?case
    using measure run_uses_verify [OF Cons.prems] by (auto intro!: run_uses_then)
qed simp

section \<open>Vectors of handles\<close>

lemma inv_push_each:
  assumes "inv ex {#} (mset (map mk xs) + V) s" and "Q s"
    and step: "\<And>b ys s. b \<in> set bs \<Longrightarrow> inv ex {#} (mset (map mk ys) + V) s \<Longrightarrow> Q s \<Longrightarrow>
      inv ex {#} (res_val mk (fst (f b s)) + (mset (map mk ys) + V)) (snd (f b s)) \<and> Q (snd (f b s))"
  shows "inv ex {#} (new_vals (map mk) (fst (push_each L mk f bs xs s)) + V) (snd (push_each L mk f bs xs s))"
  using assms
proof (induction bs arbitrary: xs s)
  case (Cons b bs)
  obtain r s' where f: "f b s = (r, s')" by force
  have I: "inv ex {#} (res_val mk r + (mset (map mk xs) + V)) s'" "Q s'"
    using Cons.prems(3) [of b xs s] Cons.prems(1,2) f by simp_all
  show ?case
  proof (cases r)
    case (Inl e)
    then show ?thesis using inv_unwind [of ex "map mk xs" V s' L] I(1) by (simp add: f)
  next
    case (Inr x)
    have "inv ex {#} (new_vals (map mk) (fst (push_each L mk f bs (xs @ [x]) s')) + V)
        (snd (push_each L mk f bs (xs @ [x]) s'))"
      by (rule Cons.IH [OF _ I(2)]) (use I(1) Cons.prems(3) in \<open>auto simp: Inr add.assoc\<close>)
    then show ?thesis by (simp add: f Inr)
  qed
qed simp

lemma length_push_each:
  "fst (push_each L mk f bs xs s) = Inr ys \<Longrightarrow> length ys = length xs + length bs"
proof (induction bs arbitrary: xs s)
  case (Cons b bs)
  obtain r s' where f: "f b s = (r, s')" by force
  show ?case using Cons by (cases r) (auto simp: f)
qed simp

text \<open>Creating a jetty does not touch the context of a completion queue.\<close>

lemma call_cq_cells [simp]:
  "call_create f mk deps s = (p, s') \<Longrightarrow> cq_cells s' = cq_cells s"
  "cq_cells (call_delete g obj s) = cq_cells s"
  for s s' :: "'w heap"
  by (auto simp: call_create_def call_delete_def record_event_def set_lib_def split: prod.splits)

lemma same_ctx_jetty_new:
  assumes "Jetty_new L c q opts s = (r, s')" and "same_ctx c' q' s"
  shows "same_ctx c' q' s'"
proof -
  have eq: "same_ctx c' q' t" if "cq_cells t = cq_cells s" for t
    using assms(2) that by (simp add: same_ctx_def)
  have clone: "same_ctx c' q' t'" if "clone_cq q t = (q2, t')" "cq_cells t = cq_cells s" for q2 t t'
    using assms(2) that
    by (cases "cq_inner q' = cq_inner q"; cases "cq_inner q < length (cq_cells s)")
      (auto simp: same_ctx_def clone_cq_def set_cq_strong_def list_update_beyond)
  show ?thesis
    using assms(1)
    by (auto simp: Jetty_new_def Let_def split: prod.splits if_splits intro: eq clone)
qed

text \<open>The jettys of a run: all on one completion queue, with a priority in range.\<close>

lemma inv_push_jetties:
  fixes s :: "'w heap"
  assumes "inv False {#} V s" and "VCtx c \<in># V" and "VCq q \<in># V" and "same_ctx c q s"
    and "opt_priority opts \<le> URMA_MAX_PRIORITY"
  shows "inv False {#} (new_vals (map VJetty) (fst (push_each L VJetty (\<lambda>_. Jetty_new L c q opts) bs [] s)) + V)
    (snd (push_each L VJetty (\<lambda>_. Jetty_new L c q opts) bs [] s))"
proof (rule inv_push_each [where Q = "same_ctx c q"])
  fix b ys and s :: "'w heap" assume I: "inv False {#} (mset (map VJetty ys) + V) s" and same: "same_ctx c q s"
  obtain r s' where j: "Jetty_new L c q opts s = (r, s')" by force
  have "0 < cstrong s (ctx_inner c)" "0 < qstrong s (cq_inner q)"
    using counts_live(2,3) [OF invD(1) [OF I]] assms(2,3) by fastforce+
  then show "inv False {#} (res_val VJetty (fst (Jetty_new L c q opts s)) + (mset (map VJetty ys) + V))
        (snd (Jetty_new L c q opts s)) \<and> same_ctx c q (snd (Jetty_new L c q opts s))"
    using inv_jetty_new [OF j I _ _ same assms(5)] same_ctx_jetty_new [OF j same] by (simp add: j)
qed (use assms in simp_all)

lemma inv_push_peers:
  fixes s :: "'w heap"
  assumes "inv False {#} V s" and "VCtx c \<in># V"
  shows "inv False {#} (new_vals (map VPeer)
      (fst (push_each L VPeer (\<lambda>rj. Peer_import_ctx L c seg rj tp tok) bs [] s)) + V)
    (snd (push_each L VPeer (\<lambda>rj. Peer_import_ctx L c seg rj tp tok) bs [] s))"
proof (rule inv_push_each [where Q = "\<lambda>_. True"])
  fix b ys and s :: "'w heap" assume I: "inv False {#} (mset (map VPeer ys) + V) s"
  obtain r s' where j: "Peer_import_ctx L c seg b tp tok s = (r, s')" by force
  have "0 < cstrong s (ctx_inner c)"
    using counts_live(2) [OF invD(1) [OF I]] assms(2) by fastforce
  then show "inv False {#} (res_val VPeer (fst (Peer_import_ctx L c seg b tp tok s)) + (mset (map VPeer ys) + V))
        (snd (Peer_import_ctx L c seg b tp tok s)) \<and> True"
    using inv_peer_import_ctx [OF j I] by (simp add: j)
qed (use assms in simp_all)

section \<open>The resources of a run\<close>

definition rig_mset :: "rig result option \<Rightarrow> val multiset" where
  "rig_mset r = (case r of Some (Inr x) \<Rightarrow> mset (rig_vals x) | _ \<Rightarrow> {#})"

lemma rig_mset_simps [simp]:
  "rig_mset None = {#}" "rig_mset (Some (Inl e)) = {#}" "rig_mset (Some (Inr x)) = mset (rig_vals x)"
  by (simp_all add: rig_mset_def)

lemma inv_one_sided_setup:
  fixes s :: "'w heap"
  assumes inv: "inv False {#} V s"
    and prio: "resolve_priority (os_mode a) (snd (snd (snd m))) (fst (snd m)) \<le> URMA_MAX_PRIORITY"
  shows "case one_sided_setup L a wire m n s of (r, s') \<Rightarrow> inv False {#} (rig_mset r + V) s'"
proof -
  obtain mode tp multi cap where m: "m = (mode, tp, multi, cap)" by (cases m)
  define P where "P = (\<lambda>(r, s' :: 'w heap). inv False {#} (rig_mset r + V) s')"
  have err: "\<forall>e s. inv False {#} V s \<longrightarrow> P (Some (Inl e), s)" by (simp add: P_def)
  have errI: "P (Some (Inl e), unwind L vs s)" if "inv False {#} (mset vs + V) s" for e vs s
    using inv_unwind [OF that] by (simp add: P_def)
  note rule = try_drop_rule [where P = P and ex = False and V = V, OF _ err]
  have opts: "opt_priority (bench_opts d mode multi (resolve_priority (os_mode a) cap tp)) \<le> URMA_MAX_PRIORITY" for d
    using prio by (simp add: bench_opts_def m)
  have "P (one_sided_setup L a wire m n s)"
    unfolding one_sided_setup_def m Let_def prod.case
    apply (rule rule [where mk = "\<lambda>u. [VUrma u]"])
    subgoal using create_steps(1) inv by (simp add: new_vals_eq)
    apply (rule rule [where mk = "\<lambda>c. [VCtx c]"])
    subgoal premises I using create_steps(2) [OF I(3)] by (simp add: new_vals_eq)
    apply (rule if_split [THEN iffD2], intro conjI impI)
    subgoal premises I by (rule errI) (use I(6) in simp)
    apply (rule rule [where mk = "\<lambda>q. [VCq q]"])
    subgoal premises I using create_steps(3) [OF I(6)] live_handles(1) [OF I(6)] by (simp add: new_vals_eq)
    apply (rule rule [where mk = "map VJetty"])
    subgoal premises I
      by (rule inv_push_jetties [OF _ _ _ _ opts]) (use I(9,10) same_ctx_new [OF I(8)] in simp_all)
    apply (rule if_split [THEN iffD2], intro conjI impI)
    subgoal premises I by (rule errI) (use I(13) in \<open>simp add: add.assoc\<close>)
    apply (rule rule [where mk = "map VPeer"])
    subgoal premises I by (rule inv_push_peers) (use I(13) in \<open>simp_all add: add.assoc\<close>)
    apply (rule rule [where mk = "\<lambda>g. [VSeg g]"])
    subgoal premises I using inv_buf_new [OF I(17)] by (simp add: new_vals_eq)
    subgoal premises I using I(20) by (simp add: P_def rig_vals_def add.assoc)
    done
  then show ?thesis by (simp add: P_def)
qed

section \<open>A whole run\<close>

text \<open>
  What the command line parser checks of a priority, and what the C type of the capability fixes:
  its priority table has 16 slots.
\<close>

definition slot_in_range :: "ModeArgs \<Rightarrow> bool" where
  "slot_in_range m \<longleftrightarrow> (case ma_priority m of None \<Rightarrow> True | Some p \<Rightarrow> p \<le> URMA_MAX_PRIORITY)"

definition sixteen_slots :: "'w liburma \<Rightarrow> bool" where
  "sixteen_slots L \<longleftrightarrow> (\<forall>p w. case l_query_device L p w of
     (_, attr, _) \<Rightarrow> length (dc_priority_info (da_dev_cap attr)) = unat URMA_MAX_PRIORITY_CNT)"

lemma query_slots:
  assumes "sixteen_slots L" and "query_device L dev s = (Inr cap, s')"
  shows "length (priority_tp cap) = unat URMA_MAX_PRIORITY_CNT"
proof -
  obtain p w where "cap = DeviceCap_from_raw (da_dev_cap (fst (snd (l_query_device L p w))))"
    using assms(2)
    by (auto simp: query_device_def call_use_def check_status_def split_beta Let_def
        split: sum.splits if_splits prod.splits)
  then show ?thesis
    using assms(1) by (auto simp: sixteen_slots_def DeviceCap_from_raw_def split_beta)
qed

lemma preflight_slot:
  assumes "sixteen_slots L" and "slot_in_range m" and "query_device L dev s = (q, s')"
    and "preflight (\<lambda>_. q) m = Inr (mode, tp, multi, cap)"
  shows "resolve_priority m cap tp' \<le> URMA_MAX_PRIORITY"
proof -
  have "q = Inr cap" using assms(4) by (cases q) (auto simp: preflight_def Let_def split: if_splits)
  then have "length (priority_tp cap) = unat URMA_MAX_PRIORITY_CNT"
    using query_slots [OF assms(1)] assms(3) by simp
  then show ?thesis
    using assms(2) by (intro resolve_priority_in_range) (simp_all add: slot_in_range_def)
qed

text \<open>The objects of a run's resources are live.\<close>

lemma rig_objs:
  assumes "inv False {#} (mset (rig_vals r) + V) s"
  shows "\<forall>j \<in> set (rg_jetties r). OJetty (j_raw j) \<in> objs_in (objs_of (mset (rig_vals r) + V) s)"
    and "\<forall>p \<in> set (rg_peers r). OImpJetty (peer_tjetty p) \<in> objs_in (objs_of (mset (rig_vals r) + V) s)"
    and "OJfc (cq_jfc (rg_cq r) s) \<in> objs_in (objs_of (mset (rig_vals r) + V) s)"
proof -
  show "\<forall>j \<in> set (rg_jetties r). OJetty (j_raw j) \<in> objs_in (objs_of (mset (rig_vals r) + V) s)"
    by (auto intro!: jetty_obj simp: rig_vals_def)
  show "\<forall>p \<in> set (rg_peers r). OImpJetty (peer_tjetty p) \<in> objs_in (objs_of (mset (rig_vals r) + V) s)"
    by (auto simp: rig_vals_def intro!: peer_obj)
  have "VCq (rg_cq r) \<in># mset (rig_vals r) + V" by (simp add: rig_vals_def)
  then show "OJfc (cq_jfc (rg_cq r) s) \<in> objs_in (objs_of (mset (rig_vals r) + V) s)"
    using live_handles(2) [OF assms] cq_dep(2) by blast
qed

text \<open>Every way a run ends keeps the invariant.\<close>

definition run_inv :: "val multiset \<Rightarrow> ('a, 'w) run \<Rightarrow> bool" where
  "run_inv V r \<longleftrightarrow> (case r of None \<Rightarrow> True | Some (q, st) \<Rightarrow> inv False {#} V (snd st))"

lemma run_inv_simps [simp]:
  "run_inv V None" "run_inv V (Some (q, st)) \<longleftrightarrow> inv False {#} V (snd st)"
  "run_inv V (pure_run x st) \<longleftrightarrow> inv False {#} V (snd st)"
  by (simp_all add: run_inv_def pure_run_def)

lemma run_inv_then:
  assumes "run_inv V r" and "\<And>x st. r = Some (Some (Inr x), st) \<Longrightarrow> inv False {#} V (snd st) \<Longrightarrow> run_inv V (k x st)"
  shows "run_inv V (run_then r k)"
proof (cases r)
  case (Some p)
  obtain q st where p: "p = (q, st)" by (cases p)
  show ?thesis
    using assms by (auto simp: run_then_def Some p split: option.split sum.split)
qed (simp add: run_then_def)

lemma run_inv_drop:
  assumes "run_uses objs st r" and "inv False {#} (mset vs + V) (snd st)"
    and "objs \<subseteq> objs_in (objs_of (mset vs + V) (snd st))"
  shows "run_inv V (then_drop L vs r)"
proof (cases r)
  case (Some p)
  obtain q st' where p: "p = (q, st')" by (cases p)
  have "inv False {#} (mset vs + V) (snd st')"
    by (rule inv_uses [OF assms(2) _ assms(3)]) (use assms(1) in \<open>simp add: Some p\<close>)
  then show ?thesis by (simp add: then_drop_def Some p inv_unwind)
qed (simp add: then_drop_def)

lemma inv_preflight:
  assumes "inv False {#} V s"
  shows "inv False {#} V (snd (let (cap, h) = query_device L dev s in (preflight (\<lambda>_. cap) m, h)))"
  using create_steps(6) [OF assms] by (simp add: split_beta)

lemma run_inv_swept:
  fixes st :: "nat \<times> 'w heap"
  assumes I: "inv False {#} (mset (rig_vals r) + V) (snd st)"
  shows "run_inv V (then_drop L (rig_vals r) (sweep_all L clk op a wire r sizes st))"
proof (rule run_inv_drop [OF _ I order_refl])
  have "sweeping (objs_in (objs_of (mset (rig_vals r) + V) (snd st))) j peer (rg_cq r) (snd st)"
    if "rg_jetties r = j # js" "rg_peers r = peer # ps" for j js peer ps
    using rig_objs [OF I] that by (simp add: sweeping_def)
  then show "run_uses (objs_in (objs_of (mset (rig_vals r) + V) (snd st))) st (sweep_all L clk op a wire r sizes st)"
    using rig_objs [OF I] by (auto simp: sweep_all_def intro!: run_uses_sweep split: list.split)
qed

lemma run_inv_one_sided:
  fixes st :: "nat \<times> 'w heap"
  assumes "inv False {#} V (snd st)" and "sixteen_slots L" and "slot_in_range (os_mode a)"
  shows "run_inv V (one_sided_run L clk stdin a op st)"
proof (cases "one_sided_input stdin a")
  case (Some input)
  have main: "run_inv V (case one_sided_setup L a wire m n (snd st) of (q, h) \<Rightarrow>
     run_then (Some (q, (fst st, h))) (\<lambda>r st. then_drop L (rig_vals r) (sweep_all L clk op a wire r sizes st)))"
    if I: "inv False {#} V (snd st)"
      and p: "resolve_priority (os_mode a) (snd (snd (snd m))) (fst (snd m)) \<le> URMA_MAX_PRIORITY"
    for wire m n sizes and st :: "nat \<times> 'w heap"
  proof -
    obtain q h where q: "one_sided_setup L a wire m n (snd st) = (q, h)" by force
    have "inv False {#} (rig_mset q + V) h" using inv_one_sided_setup [OF I p, of L wire n] by (simp add: q)
    then show ?thesis
      using run_inv_swept [where st = "(fst st, h)" and V = V]
      by (auto simp: q run_then_def split: option.split sum.split)
  qed
  have slot: "resolve_priority (os_mode a) (snd (snd (snd m))) (fst (snd m)) \<le> URMA_MAX_PRIORITY"
    if "heap_run (\<lambda>h. let (cap, h) = query_device L dev h in (preflight (\<lambda>_. cap) (os_mode a), h)) st
      = Some (Some (Inr m), st')" for dev m and st st' :: "nat \<times> 'w heap"
  proof -
    obtain q s' where q: "query_device L dev (snd st) = (q, s')" by force
    then have "preflight (\<lambda>_. q) (os_mode a) = Inr m" using that by (simp add: heap_run_def)
    then show ?thesis using preflight_slot [OF assms(2,3) q] by (cases m) auto
  qed
  show ?thesis
    unfolding one_sided_run_def Some bind.bind_lunit
    apply (rule run_inv_then, simp add: assms(1))
    apply (clarify, rule run_inv_then)
    subgoal using inv_preflight by (simp add: heap_run_def split_beta)
    apply (rule run_inv_then, simp)
    apply (rule main, assumption)
    apply (erule slot)
    done
qed (simp add: one_sided_run_def)

section \<open>The server\<close>

lemma inv_export_all:
  assumes "inv False {#} V s" and "\<forall>j \<in> set js. VJetty j \<in># V"
  shows "inv False {#} V (snd (export_all L js s))"
  using assms
proof (induction js arbitrary: s)
  case (Cons j js)
  obtain r s' where e: "export_rjetty L j s = (r, s')" by force
  have I: "inv False {#} V s'" using inv_exports(1) [OF Cons.prems(1), of j L] Cons.prems(2) by (simp add: e)
  show ?case
    using Cons.IH [OF I] Cons.prems(2) I by (auto simp: e split: sum.split prod.split)
qed simp

definition held_mset :: "(WireDesc \<times> val list) result option \<Rightarrow> val multiset" where
  "held_mset r = (case r of Some (Inr (w, held)) \<Rightarrow> mset held | _ \<Rightarrow> {#})"

lemma held_mset_simps [simp]:
  "held_mset None = {#}" "held_mset (Some (Inl e)) = {#}" "held_mset (Some (Inr (w, held))) = mset held"
  by (simp_all add: held_mset_def)

lemma inv_serve_setup:
  fixes s :: "'w heap"
  assumes inv: "inv False {#} V s"
    and prio: "resolve_priority (su_mode a) (snd (snd (snd m))) (fst (snd m)) \<le> URMA_MAX_PRIORITY"
  shows "case serve_urma_setup L a m n s of (r, s') \<Rightarrow> inv False {#} (held_mset r + V) s'"
proof -
  obtain mode tp multi cap where m: "m = (mode, tp, multi, cap)" by (cases m)
  define P where "P = (\<lambda>(r, s' :: 'w heap). inv False {#} (held_mset r + V) s')"
  have err: "\<forall>e s. inv False {#} V s \<longrightarrow> P (Some (Inl e), s)" by (simp add: P_def)
  note rule = try_drop_rule [where P = P and ex = False and V = V, OF _ err]
  have opts: "opt_priority (serve_opts mode multi (resolve_priority (su_mode a) cap tp)) \<le> URMA_MAX_PRIORITY"
    using prio by (simp add: serve_opts_def m)
  have "P (serve_urma_setup L a m n s)"
    unfolding serve_urma_setup_def m Let_def prod.case
    apply (rule rule [where mk = "\<lambda>u. [VUrma u]"])
    subgoal using create_steps(1) inv by (simp add: new_vals_eq)
    apply (rule rule [where mk = "\<lambda>c. [VCtx c]"])
    subgoal premises I using create_steps(2) [OF I(3)] by (simp add: new_vals_eq)
    apply (rule rule [where mk = "\<lambda>q. [VCq q]"])
    subgoal premises I using create_steps(3) [OF I(6)] live_handles(1) [OF I(6)] by (simp add: new_vals_eq)
    apply (rule rule [where mk = "map VJetty"])
    subgoal premises I
      by (rule inv_push_jetties [OF _ _ _ _ opts]) (use I(8,9) same_ctx_new [OF I(7)] in simp_all)
    apply (rule rule [where mk = "\<lambda>g. [VSeg g]"])
    subgoal premises I using inv_buf_new [OF I(12)] by (simp add: new_vals_eq add.assoc)
    apply (rule rule [where mk = "\<lambda>_. []"])
    subgoal premises I
      using inv_exports(2) [OF inv_set_lib [OF I(15)]] by (simp add: new_vals_eq write_prefix_def add.assoc)
    apply (rule rule [where mk = "\<lambda>_. []"])
    subgoal premises I using inv_export_all [OF I(18)] by (simp add: new_vals_eq add.assoc)
    subgoal premises I using I(21) by (simp add: P_def add.assoc)
    done
  then show ?thesis by (simp add: P_def)
qed

lemma run_inv_serve:
  fixes st :: "nat \<times> 'w heap"
  assumes "inv False {#} V (snd st)" and "sixteen_slots L" and "slot_in_range (su_mode a)"
  shows "run_inv V (serve_urma_run L tty a st)"
proof -
  have main: "run_inv V (case serve_urma_setup L a m n (snd st) of (q, h) \<Rightarrow>
      run_then (Some (q, (fst st, h))) (\<lambda>(wire, held) st.
        if tty then then_drop L held (Some (Some (Inr (pack_desc wire)), st)) else None))"
    if I: "inv False {#} V (snd st)"
      and p: "resolve_priority (su_mode a) (snd (snd (snd m))) (fst (snd m)) \<le> URMA_MAX_PRIORITY"
    for m n and st :: "nat \<times> 'w heap"
  proof -
    obtain q h where q: "serve_urma_setup L a m n (snd st) = (q, h)" by force
    have "inv False {#} (held_mset q + V) h" using inv_serve_setup [OF I p, of L n] by (simp add: q)
    then show ?thesis
      by (auto simp: q run_then_def then_drop_def inv_unwind split: option.split sum.split)
  qed
  have slot: "resolve_priority (su_mode a) (snd (snd (snd m))) (fst (snd m)) \<le> URMA_MAX_PRIORITY"
    if "heap_run (\<lambda>h. let (cap, h) = query_device L dev h in (preflight (\<lambda>_. cap) (su_mode a), h)) st
      = Some (Some (Inr m), st')" for dev m and st st' :: "nat \<times> 'w heap"
  proof -
    obtain q s' where q: "query_device L dev (snd st) = (q, s')" by force
    then have "preflight (\<lambda>_. q) (su_mode a) = Inr m" using that by (simp add: heap_run_def)
    then show ?thesis using preflight_slot [OF assms(2,3) q] by (cases m) auto
  qed
  show ?thesis
    unfolding serve_urma_run_def
    apply (rule if_split [THEN iffD2], intro conjI impI, simp add: assms(1))
    apply (rule run_inv_then)
    subgoal using inv_preflight assms(1) by (simp add: heap_run_def split_beta)
    apply (cases "resolve_buf_len (su_buf_len a) (su_sizes a)", simp)
    apply (simp only: bind.bind_lunit)
    apply (rule run_inv_then, simp)
    apply (rule main, assumption)
    apply (erule slot)
    done
qed

lemma run_inv_cmd:
  assumes "inv False {#} V (snd st)" and "sixteen_slots L" and "slot_in_range (cmd_mode cmd)"
  shows "run_inv V (run_cmd L clk stdin tty cmd st)"
  using assms by (cases cmd) (auto intro!: run_inv_then run_inv_one_sided run_inv_serve)

section \<open>What a sweep reports\<close>

lemma run_then_Inr:
  "run_then r k = Some (Some (Inr y), st') \<longleftrightarrow>
     (\<exists>x st. r = Some (Some (Inr x), st) \<and> k x st = Some (Some (Inr y), st'))"
  by (cases r) (auto simp: run_then_def split: option.splits sum.splits)

lemma sample_op_length:
  "sample_op clk n f xs st = Some (Some (Inr ys), st') \<Longrightarrow> length ys = length xs + n"
  by (induction n arbitrary: xs st) (auto simp: Let_def run_then_Inr)

text \<open>The operations of a bandwidth row: the iterations asked for, or at least one.\<close>

lemma run_bw_iters_ops:
  assumes "run_bw_iters L clk bw sz depth m warmup iters duration tick h = Some (Some (Inr (w, ops)), st)"
  shows "case duration of None \<Rightarrow> ops = ucast iters | Some _ \<Rightarrow> ops \<noteq> 0"
proof -
  define args where "args = (\<lambda>stop timed. \<lparr>ba_bw = bw, ba_size = sz, ba_depth = depth, ba_cq_mod = m,
                    ba_stop = stop, ba_timed = timed\<rparr>)"
  have timed: "case stop of Ops n \<Rightarrow> ops = n | Until _ \<Rightarrow> ops \<noteq> 0"
    if pass: "map_option (\<lambda>(r, st). and_then (r, (bs_tick st, bs_heap st)) (\<lambda>rep s.
         case rep of None \<Rightarrow> (None, s) | Some x \<Rightarrow> (Some (Inr x), s)))
       (bw_pass L clk (args stop True) tick' h') = Some (Some (Inr (w, ops)), st)" for stop tick' h'
  proof -
    obtain q st1 where q: "bw_pass L clk (args stop True) tick' h' = Some (q, st1)"
      using pass by auto
    then have "q = Some (Inr (Some (w, ops)))"
      using pass by (auto simp: and_then_Inr_iff split: option.splits)
    then have "bw_pass L clk (args stop True) tick' h' = Some (Some (Inr (Some (w, ops))), st1)" using q by simp
    then show ?thesis
      using pass_reports [where L = L and clk = clk and p = "args stop True" and tick = tick' and h = h']
      by (auto simp: args_def split: BwStop.splits if_splits)
  qed
  show ?thesis
  proof (cases duration)
    case (Some secs)
    then show ?thesis
      using assms timed [of "Until (clk (Suc tick) + unat secs * 1000000000)" "Suc (Suc tick)" h]
      by (simp add: run_bw_iters_def args_def Let_def)
  next
    case None
    define warm where "warm = bw_pass L clk (args (Ops (ucast warmup)) False) tick h"
    have "\<exists>tick' h'. map_option (\<lambda>(r, st). and_then (r, (bs_tick st, bs_heap st)) (\<lambda>rep s.
         case rep of None \<Rightarrow> (None, s) | Some x \<Rightarrow> (Some (Inr x), s)))
       (bw_pass L clk (args (Ops (ucast iters)) True) tick' h') = Some (Some (Inr (w, ops)), st)"
    proof (cases "0 < (ucast warmup :: u64)")
      case True
      then have run: "Option.bind (map_option (\<lambda>(r, st). and_then (r, (bs_tick st, bs_heap st)) (\<lambda>_ s. (Some (Inr ()), s))) warm)
          (\<lambda>v. case v of
             (Some (Inr _), (tick, h)) \<Rightarrow>
               map_option (\<lambda>(r, st). and_then (r, (bs_tick st, bs_heap st)) (\<lambda>rep s.
                   case rep of None \<Rightarrow> (None, s) | Some x \<Rightarrow> (Some (Inr x), s)))
                 (bw_pass L clk (args (Ops (ucast iters)) True) tick h)
           | (Some (Inl e), s) \<Rightarrow> Some (Some (Inl e), s)
           | (None, s) \<Rightarrow> Some (None, s)) = Some (Some (Inr (w, ops)), st)"
        using assms None unfolding args_def warm_def by (simp add: run_bw_iters_def Let_def)
      show ?thesis
      proof (cases warm)
        case (Some v)
        then show ?thesis
          using run by (cases v; cases "fst v") (auto simp: and_then_def split: sum.splits)
      qed (use run in simp)
    next
      case False
      then show ?thesis
        using assms None by (auto simp: run_bw_iters_def args_def Let_def)
    qed
    then show ?thesis using timed None by fastforce
  qed
qed

text \<open>A row of the right shape for a size of the sweep.\<close>

fun row_for :: "OneSidedArgs \<Rightarrow> usize \<Rightarrow> row \<Rightarrow> bool" where
  "row_for a n (Latency k xs) \<longleftrightarrow> os_depth a = 1 \<and> k = n \<and> length xs = unat (be_iters (os_bench a))"
| "row_for a n (Bandwidth k m w ops) \<longleftrightarrow> os_depth a \<noteq> 1 \<and> k = n \<and> resolve_cq_mod (os_cq_mod a) (os_depth a) = Some m
     \<and> (if os_duration a = 0 then ops = ucast (be_iters (os_bench a)) else ops \<noteq> 0)"

lemma measure_row:
  assumes "measure_size L clk op a wire r j peer n st = Some (Some (Inr x), st')"
  shows "row_for a n x"
proof (cases "os_depth a = 1")
  case True
  then show ?thesis
    using assms by (auto simp: measure_size_def run_then_Inr run_iters_def pure_run_def Let_def dest!: sample_op_length)
next
  case False
  have pos: "0 < os_duration a \<longleftrightarrow> os_duration a \<noteq> 0" by (simp add: word_gt_0)
  show ?thesis
    using assms False
    by (auto simp: measure_size_def run_then_Inr pure_run_def Let_def pos split: if_splits dest!: run_bw_iters_ops)
qed

lemma sweep_rows:
  "sweep L clk op a wire r j peer ns rows st = Some (Some (Inr ys), st') \<Longrightarrow>
     \<exists>xs. ys = rows @ xs \<and> list_all2 (row_for a) ns xs"
proof (induction ns arbitrary: rows st)
  case (Cons n ns)
  obtain x st1 where x: "row_for a n x" "sweep L clk op a wire r j peer ns (rows @ [x]) st1 = Some (Some (Inr ys), st')"
    using Cons.prems by (auto simp: run_then_Inr dest!: measure_row)
  from Cons.IH [OF x(2)] obtain xs where "ys = (rows @ [x]) @ xs" "list_all2 (row_for a) ns xs" by blast
  then have "ys = rows @ (x # xs)" "list_all2 (row_for a) (n # ns) (x # xs)" using x(1) by simp_all
  then show ?case by blast
qed simp

end
