(* ===== verification/BenchCommands.thy ===== *)
theory BenchCommands
  imports BenchSafety
begin

text \<open>
  A concrete run of \<open>read-urma\<close>, evaluated from the descriptor line to the report, and the
  properties of the benchmark's commands.
\<close>

section \<open>A concrete run\<close>

definition bench_lib :: "demo liburma" where
  "bench_lib = rm_lib\<lparr>l_read_bytes := \<lambda>_ n _. fill_pat (replicate n 0)\<rparr>"

definition read_cr :: urma_cr_t where
  "read_cr = default_urma_cr_t\<lparr>cr_user_ctx := READ_CTX\<rparr>"

definition demo_read :: OneSidedArgs where
  "demo_read = \<lparr>os_mode = \<lparr>ma_dev = ''udma0'', ma_mode = Rm, ma_tp = Ctp, ma_multi_path = False, ma_priority = Some 3\<rparr>,
     os_desc = pack_desc demo_wire, os_bench = \<lparr>be_sizes = ''4'', be_iters = 1, be_warmup = 0\<rparr>,
     os_depth = 1, os_jetties = 1, os_post_list = 1, os_cq_mod = 0, os_landing_cap = None, os_duration = 0\<rparr>"

lemma demo_sizes: "bench_sizes 1 ''4'' = Some (Inr [4])"
proof -
  have "trim ''4'' = ''4''" by (rule trim_visible) (simp add: visible_def)
  then show ?thesis
    by (simp add: bench_sizes_def parse_sizes_def Let_def starts_with_def parse_one_size_def size_parts_def
        U32_MAX_def checked_mul_def checked_add_def parse_usize_def is_digit_def)
qed

lemma demo_unpack: "unpack_desc (pack_desc demo_wire) = Inr demo_wire"
proof -
  have "wire_ok demo_wire" by (simp add: wire_ok_def demo_wire_def)
  then show ?thesis by (simp add: unpack_desc_def pack_desc_def hex_dec_enc bench_desc.whole_iff)
qed

lemma demo_mode: "preflight (\<lambda>_. Inr (DeviceCap_from_raw (da_dev_cap rm_attr))) (os_mode demo_read)
    = Inr (Rm, Ctp, False, DeviceCap_from_raw (da_dev_cap rm_attr))"
proof -
  have "missing_combo (DeviceCap_from_raw (da_dev_cap rm_attr)) Rm Ctp = []"
    unfolding missing_combo_empty
    by (simp add: supports_def supports_mode_def DeviceCap_from_raw_def rm_attr_def
      default_urma_device_cap_t_def tp_cap_of_def ffi_const cap_ctp_def ctp_en_def)
  then show ?thesis by (simp add: preflight_def demo_read_def Let_def starts_with_def)
qed

lemma demo_limits: "one_sided_limits OpRead demo_read demo_wire (DeviceCap_from_raw (da_dev_cap rm_attr)) [4] = Inr [4]"
  by (simp add: one_sided_limits_def depth_limit_def op_limit_def op_cap_def demo_read_def demo_wire_def
      DeviceCap_from_raw_def rm_attr_def default_urma_device_cap_t_def ffi_const)

lemma demo_input: "one_sided_input (Inl (Io [])) demo_read = Some (Inr ([4], demo_wire))"
proof -
  have "pack_desc demo_wire \<noteq> ''-''"
  proof
    assume "pack_desc demo_wire = ''-''"
    then have "length (pack_desc demo_wire) = 1" by simp
    then show False by (simp add: pack_desc_def length_hex_enc)
  qed
  then show ?thesis
    using demo_sizes demo_unpack
    by (simp add: one_sided_input_def desc_line_def check_args_def demo_read_def BW_MAX_JETTIES_def)
qed

definition demo_read_run :: "(row list, demo) run" where
  "demo_read_run = one_sided_run bench_lib (\<lambda>i. i) (Inl (Io [])) demo_read OpRead
     (0, pheap (start (demo_start [] [[read_cr], [read_cr]])))"

lemma demo_eid: "replicate 16 0x11 \<noteq> eid_raw (ei_eid default_urma_eid_info_t)"
  by (simp add: default_urma_eid_info_t_def default_urma_eid_t_def)

lemma demo_read_simps [simp]:
  "os_mode demo_read = \<lparr>ma_dev = ''udma0'', ma_mode = Rm, ma_tp = Ctp, ma_multi_path = False, ma_priority = Some 3\<rparr>"
  "os_depth demo_read = 1" "os_jetties demo_read = 1" "os_bench demo_read = \<lparr>be_sizes = ''4'', be_iters = 1, be_warmup = 0\<rparr>"
  "os_cq_mod demo_read = 0" "os_duration demo_read = 0"
  by (simp_all add: demo_read_def)

lemmas demo_read_mode = demo_mode [unfolded demo_read_simps]

lemma demo_wire_simps [simp]:
  "sd_eid (wd_seg demo_wire) = replicate 16 0x11" "sd_va (wd_seg demo_wire) = 0x12345678"
  "sd_len (wd_seg demo_wire) = 4096" "wd_seg_ctx demo_wire = replicate 48 0xaa"
  "wd_rjetty demo_wire = [replicate 55 0xbb, replicate 8 0xcc]"
  by (simp_all add: demo_wire_def)

lemma bench_lib_eq: "bench_lib = demo_lib\<lparr>l_query_device := \<lambda>_ d. (0, rm_attr, d), l_read_bytes := \<lambda>_ n _. fill_pat (replicate n 0)\<rparr>"
  by (simp add: bench_lib_def rm_lib_def)

text \<open>The states of the run: fresh, after the capability query, with all resources.\<close>

definition demo_s0 :: "demo heap" where
  "demo_s0 = pheap (start (demo_start [] [[read_cr], [read_cr]]))"

definition demo_s1 :: "demo heap" where
  "demo_s1 = \<lparr>lib_state = demo_start [] [[read_cr], [read_cr]], event_log = [EInit, EUse [], EUse []],
     urma_cells = [1], init_slot = Some 0, ctx_cells = [], cq_cells = []\<rparr>"

definition demo_ctx :: Context where
  "demo_ctx = \<lparr>ctx_inner = 0, ctx_eid = eid_raw (ei_eid default_urma_eid_info_t)\<rparr>"

definition demo_rig :: rig where
  "demo_rig = \<lparr>rg_urma = \<lparr>urma_inner = 0\<rparr>, rg_ctx = demo_ctx, rg_cq = \<lparr>cq_inner = 0\<rparr>,
     rg_jetties = [\<lparr>j_jfr = 5, j_raw = 6, j_id = JettyId_from_raw default_urma_jetty_id_t, j_max_sge = 1,
                   j_cq = \<lparr>cq_inner = 0\<rparr>\<rparr>],
     rg_peers = [\<lparr>peer_tseg = 7, peer_tjetty = 8, peer_ctx = demo_ctx\<rparr>],
     rg_landing = \<lparr>rs_tseg = 10, rs_va = 9, rs_len = 4, rs_ctx = demo_ctx, rs_buf = Some \<lparr>pb_ptr = 9, pb_size = 4\<rparr>\<rparr>\<rparr>"

definition demo_s2 :: "urma_jfs_wr_t list \<Rightarrow> urma_cr_t list list \<Rightarrow> event list \<Rightarrow> demo heap" where
  "demo_s2 sent polls es = \<lparr>lib_state = (demo_start [] polls)\<lparr>d_next := 10, d_sent := sent\<rparr>,
     event_log =
       [EInit, EUse [], EUse [], EUse [], ECreate (OEidList 1) [], EDelete (OEidList 1), ECreate (OCtx 2) [],
        ECreate (OJfce 3) [OCtx 2], ECreate (OJfc 4) [OCtx 2, OJfce 3], ECreate (OJfr 5) [OCtx 2, OJfc 4],
        ECreate (OJetty 6) [OCtx 2, OJfr 5, OJfc 4], ECreate (OImpSeg 7) [OCtx 2],
        ECreate (OImpJetty 8) [OCtx 2], ECreate (OMem 9) [], ECreate (OSeg 10) [OCtx 2, OMem 9]] @ es,
     urma_cells = [3], init_slot = Some 0, ctx_cells = [\<lparr>cc_raw = 2, cc_urma = 0, cc_strong = 4\<rparr>],
     cq_cells = [\<lparr>qc_jfce = 3, qc_jfc = 4, qc_ctx = demo_ctx, qc_strong = 2\<rparr>]\<rparr>"

lemma demo_query: "query_device bench_lib ''udma0'' demo_s0 = (Inr (DeviceCap_from_raw (da_dev_cap rm_attr)), demo_s1)"
  by (simp add: query_device_def exec_defs bench_lib_eq demo_s0_def demo_s1_def ffi_const cong: let_weak_cong)

lemma demo_import: "Peer_import_ctx bench_lib c (replicate 48 0xaa) (replicate 55 0xbb) tp tok s =
    (let b = 0xaa; r = 0xbb in import_both bench_lib c (InBytes (replicate 48 b))
       (InBytes (write_u32 TP_TYPE_OFFSET (tp_raw tp) (replicate 55 r @ [0]))) tok s)"
  by (simp add: Peer_import_ctx_def aligned_blob_def)

lemma demo_setup: "one_sided_setup bench_lib demo_read demo_wire (Rm, Ctp, False, cap) 4 demo_s1
    = (Some (Inr demo_rig), demo_s2 [] [[read_cr], [read_cr]] [])"
  unfolding one_sided_setup_def
  using demo_eid
  by (simp add: exec_defs bench_lib_eq ffi_const try_drop_simps landing_bytes_def queue_depth_def
    bench_opts_def resolve_priority_def demo_import [unfolded bench_lib_eq] demo_s1_def demo_s2_def demo_rig_def demo_ctx_def
     cong: let_weak_cong try_drop_weak_cong)

text \<open>One transfer: the request is sent, the next record taken.\<close>

lemma demo_transfer:
  "\<exists>wr. transfer_one bench_lib clk OpRead (rg_cq demo_rig) (hd (rg_jetties demo_rig)) (hd (rg_peers demo_rig)) va sge
      (n, demo_s2 sent ([read_cr] # polls) es)
    = Some (Some (Inr ()), (Suc n, demo_s2 (sent @ [wr]) polls (es @ [EUse [OJetty 6, OImpJetty 8], EUse [OJfc 4]])))"
  using unat_bound [of "ls_len sge"]
  by (simp add: transfer_one_def run_then_def heap_run_def post_read_def post_read_signaled_def check_local_def
      ffi_post_send_def demo_rig_def demo_s2_def bench_lib_eq exec_defs wait_read_spin_def spin_loop.simps
      read_cr_def default_urma_cr_t_def completion_of_def is_success_def written_def ffi_const checked_add_def
      cong: let_weak_cong)

lemma demo_read_run_eq: "\<exists>sent. demo_read_run = Some (Some (Inr [Latency 4 [2]]),
    (4, unwind bench_lib (rig_vals demo_rig) (demo_s2 sent [] [EUse [OJetty 6, OImpJetty 8], EUse [OJfc 4],
      EUse [OJetty 6, OImpJetty 8], EUse [OJfc 4]])))"
proof -
  obtain sge where sge: "seg_sge (rg_landing demo_rig) 0 4 = Inr sge"
    by (simp add: seg_sge_def LocalSge_new_def demo_rig_def checked_add_def)
  obtain wr1 where t1: "transfer_one bench_lib (\<lambda>i. i) OpRead (rg_cq demo_rig) (hd (rg_jetties demo_rig))
      (hd (rg_peers demo_rig)) 0x12345678 sge (0, demo_s2 [] ([read_cr] # [[read_cr]]) [])
      = Some (Some (Inr ()), (Suc 0, demo_s2 ([] @ [wr1]) [[read_cr]] ([] @ [EUse [OJetty 6, OImpJetty 8], EUse [OJfc 4]])))"
    using demo_transfer by blast
  obtain wr2 where t2: "transfer_one bench_lib (\<lambda>i. i) OpRead (rg_cq demo_rig) (hd (rg_jetties demo_rig))
      (hd (rg_peers demo_rig)) 0x12345678 sge
      (Suc (Suc 0), demo_s2 ([] @ [wr1]) ([read_cr] # []) ([] @ [EUse [OJetty 6, OImpJetty 8], EUse [OJfc 4]]))
      = Some (Some (Inr ()), (Suc (Suc (Suc 0)), demo_s2 (([] @ [wr1]) @ [wr2]) []
          (([] @ [EUse [OJetty 6, OImpJetty 8], EUse [OJfc 4]]) @ [EUse [OJetty 6, OImpJetty 8], EUse [OJfc 4]])))"
    using demo_transfer by blast
  have rig: "sweep_all L clk op a wire demo_rig sizes st
      = sweep L clk op a wire demo_rig (hd (rg_jetties demo_rig)) (hd (rg_peers demo_rig)) sizes [] st"
    for L clk op a wire sizes and st :: "nat \<times> demo heap"
    by (simp add: sweep_all_def demo_rig_def)
  have read: "read_prefix bench_lib (rg_landing demo_rig) 4 s = Some (fill_pat (replicate 4 0))" for s
    by (simp add: read_prefix_def demo_rig_def landing_len_def bench_lib_eq)
  have "check_pat what (fill_pat (replicate 4 0)) = Inr ()" for what
    by (simp add: check_pat_iff fill_pat_def)
  then show ?thesis
    by (intro exI [of _ "[wr1, wr2]"])
      (unfold demo_read_run_def one_sided_run_def demo_input demo_s0_def [symmetric],
       simp add: rig run_then_def pure_run_def heap_run_def demo_query demo_read_mode demo_limits demo_setup
      verify_size_def sge t1 [simplified] t2 [simplified] check_landing_def read measure_size_def run_iters_def then_drop_def)
qed

lemma demo_read_honest:
  "honest (event_log (thread_exit bench_lib (unwind bench_lib (rig_vals demo_rig)
     (demo_s2 sent [] [EUse [OJetty 6, OImpJetty 8], EUse [OJfc 4], EUse [OJetty 6, OImpJetty 8], EUse [OJfc 4]]))))"
  by (simp add: exec_defs bench_lib_eq rig_vals_def demo_rig_def demo_s2_def demo_ctx_def ffi_const honest_def
      cong: let_weak_cong)

section \<open>Lemmas\<close>

lemma setup_landing:
  assumes "one_sided_setup L a wire m n s = (Some (Inr r), s')"
  shows "landing_len (rg_landing r) = landing_bytes a n \<and> rs_len (rg_landing r) = landing_bytes a n"
  using assms
  by (auto simp: one_sided_setup_def try_drop_Inr Let_def split: prod.splits if_splits dest!: registered_len)

section \<open>Properties\<close>

text \<open>
  C9 (the URMA commands of the benchmark). Whatever the arguments, the library's answers and the
  clock, a command that returns, with a report, an error or a panic, has by the end of its thread
  deleted every library object it created, none before an object that depends on it and none while
  still used, and left the library uninitialised. The hypotheses are what the argument parser checks
  of an explicit priority and the 16 slots the C type gives the device's priority table.
\<close>

theorem bench_commands_clean:
  assumes "sixteen_slots L" and "slot_in_range (cmd_mode cmd)"
    and "run_cmd L clk stdin tty cmd (tick, pheap (start w)) = Some (q, (t, s))"
    and "honest (event_log (thread_exit L s))"
  shows "prun proto_init (event_log (thread_exit L s)) = Some proto_init"
proof -
  have "run_inv {#} (run_cmd L clk stdin tty cmd (tick, pheap (start w)))"
    using run_inv_cmd [OF _ assms(1,2), of "{#}" "(tick, pheap (start w))"] inv_fresh [of w] by simp
  then have "inv False {#} {#} s" by (simp add: assms(3))
  then show ?thesis using assms(4) by (rule inv_thread_exit_clean)
qed

theorem bench_commands_clean_witness:
  "\<exists>t s. run_cmd bench_lib (\<lambda>i. i) (Inl (Io [])) True (ReadUrma demo_read) (0, pheap (start (demo_start [] [[read_cr], [read_cr]])))
      = Some (Some (Inr (Swept [Latency 4 [2]])), (t, s))
    \<and> prun proto_init (event_log (thread_exit bench_lib s)) = Some proto_init"
proof -
  obtain sent where run: "demo_read_run = Some (Some (Inr [Latency 4 [2]]),
      (4, unwind bench_lib (rig_vals demo_rig) (demo_s2 sent [] [EUse [OJetty 6, OImpJetty 8], EUse [OJfc 4],
        EUse [OJetty 6, OImpJetty 8], EUse [OJfc 4]])))"
    using demo_read_run_eq by blast
  define s where "s = unwind bench_lib (rig_vals demo_rig) (demo_s2 sent [] [EUse [OJetty 6, OImpJetty 8], EUse [OJfc 4],
        EUse [OJetty 6, OImpJetty 8], EUse [OJfc 4]])"
  have cmd: "run_cmd bench_lib (\<lambda>i. i) (Inl (Io [])) True (ReadUrma demo_read) (0, pheap (start (demo_start [] [[read_cr], [read_cr]])))
      = Some (Some (Inr (Swept [Latency 4 [2]])), (4, s))"
    using run by (simp add: demo_read_run_def run_then_def s_def)
  have "length (dc_priority_info (da_dev_cap rm_attr)) = unat URMA_MAX_PRIORITY_CNT"
    by (simp add: rm_attr_def default_urma_device_cap_t_def)
  then have "sixteen_slots bench_lib" by (simp add: sixteen_slots_def bench_lib_eq)
  moreover have "slot_in_range (cmd_mode (ReadUrma demo_read))" by (simp add: slot_in_range_def ffi_const)
  moreover have "honest (event_log (thread_exit bench_lib s))" unfolding s_def by (rule demo_read_honest)
  ultimately show ?thesis using cmd bench_commands_clean [OF _ _ cmd] by blast
qed

text \<open>
  C10 (the report of a one-sided run). A run that returns a report has one row for every size of the
  sweep that the device and the peer's segment allow, in ascending order: in latency mode with as many
  samples as iterations were asked for, in bandwidth mode with exactly that many operations, or at
  least one for a time window.
\<close>

theorem sweep_report_complete:
  "case one_sided_run L clk stdin a op st of
     Some (Some (Inr rows), _) \<Rightarrow>
       (\<exists>sizes wire cap. one_sided_input stdin a = Some (Inr (sizes, wire))
          \<and> fst (query_device L (ma_dev (os_mode a)) (snd st)) = Inr cap
          \<and> list_all2 (row_for a) (filter (\<lambda>n. n \<le> op_limit op cap (sd_len (wd_seg wire))) sizes) rows)
   | _ \<Rightarrow> True"
proof (cases "\<exists>rows st'. one_sided_run L clk stdin a op st = Some (Some (Inr rows), st')")
  case True
  then obtain rows st' where run: "one_sided_run L clk stdin a op st = Some (Some (Inr rows), st')" by blast
  obtain sizes wire m st1 ok where inp: "one_sided_input stdin a = Some (Inr (sizes, wire))"
    and mode: "heap_run (\<lambda>h. let (cap, h) = query_device L (ma_dev (os_mode a)) h
                     in (preflight (\<lambda>_. cap) (os_mode a), h)) st = Some (Some (Inr m), st1)"
    and limits: "one_sided_limits op a wire (snd (snd (snd m))) sizes = Inr ok"
    and rest: "(case one_sided_setup L a wire m (last ok) (snd st1) of (q, h) \<Rightarrow>
         run_then (Some (q, (fst st1, h))) (\<lambda>r st. then_drop L (rig_vals r) (sweep_all L clk op a wire r ok st)))
       = Some (Some (Inr rows), st')"
    using run
    by (auto simp: one_sided_run_def run_then_Inr pure_run_def bind_eq_Some_conv split_beta)
  obtain q s' where q: "query_device L (ma_dev (os_mode a)) (snd st) = (q, s')" by force
  obtain mo tp mu cap where m: "m = (mo, tp, mu, cap)" by (cases m)
  have "preflight (\<lambda>_. q) (os_mode a) = Inr m" using mode by (simp add: heap_run_def q)
  then have cap: "q = Inr cap" by (cases q) (auto simp: preflight_def Let_def m split: if_splits)
  have ok: "ok = filter (\<lambda>n. n \<le> op_limit op cap (sd_len (wd_seg wire))) sizes"
    using limits by (simp add: one_sided_limits_def m Let_def split: if_splits)
  obtain r st2 st3 where "sweep_all L clk op a wire r ok st2 = Some (Some (Inr rows), st3)"
    using rest by (auto simp: run_then_Inr then_drop_def split: prod.splits)
  then obtain j peer where "sweep L clk op a wire r j peer ok [] st2 = Some (Some (Inr rows), st3)"
    by (auto simp: sweep_all_def split: list.splits)
  then have "list_all2 (row_for a) ok rows" using sweep_rows by fastforce
  then show ?thesis using inp q cap ok run by auto
next
  case False
  then show ?thesis by (auto split: option.split sum.split)
qed

text \<open>
  C11 (a landing buffer below the size). In bandwidth mode the landing buffer is capped, by 1 GiB or by
  the --landing-cap of the command line, and a size of the sweep may be larger. With the resources
  then created, a READ of that size ends with an error, but a WRITE panics: it fills the source by a
  slice past the end of the buffer before any check.
\<close>

theorem write_above_cap_panics:
  assumes "one_sided_setup L a wire m max_len h = (Some (Inr r), h')"
    and "os_depth a > 1" and "os_landing_cap a = Some c" and "c < n" and "size_ok n"
  shows "verify_size L clk OpWrite (rg_cq r) j peer (rg_landing r) va n st = Some (None, st)
    \<and> (\<exists>e. verify_size L clk OpRead (rg_cq r) j peer (rg_landing r) va n st = Some (Some (Inl (Invalid e)), st))"
proof -
  have "landing_bytes a max_len \<le> c" using assms(2,3) by (simp add: landing_bytes_def Let_def)
  then have len: "landing_len (rg_landing r) < n" "rs_len (rg_landing r) < n"
    using setup_landing [OF assms(1)] assms(4) by auto
  have n: "ucast (ucast n :: u32) = n"
    using assms(5) by (simp add: size_ok_def word_unat_eq_iff unsigned_ucast_eq unsigned_take_bit_eq take_bit_nat_eq_self)
  have "\<exists>e. seg_sge (rg_landing r) 0 (ucast n) = Inl (Invalid e)"
    using len(2) unat_bound [of n] by (auto simp: seg_sge_def LocalSge_new_def checked_add_def n)
  then obtain e where e: "seg_sge (rg_landing r) 0 (ucast n) = Inl (Invalid e)" by blast
  show ?thesis
    using len(1) e by (simp add: verify_size_def fill_prefix_def run_then_def pure_run_def)
qed

text \<open>The concrete resources, with a landing buffer of 4 bytes, and a size of 8.\<close>

lemma demo_capped: "one_sided_setup bench_lib (demo_read\<lparr>os_depth := 2, os_landing_cap := Some 4\<rparr>) demo_wire
    (Rm, Ctp, False, cap) 8 demo_s1 = (Some (Inr demo_rig), demo_s2 [] [[read_cr], [read_cr]] [])"
  unfolding one_sided_setup_def
  using demo_eid
  by (simp add: exec_defs bench_lib_eq ffi_const try_drop_simps landing_bytes_def queue_depth_def
    bench_opts_def resolve_priority_def demo_import [unfolded bench_lib_eq] demo_s1_def demo_s2_def demo_rig_def demo_ctx_def
    saturating_mul_def checked_mul_def cong: let_weak_cong try_drop_weak_cong)

theorem write_above_cap_panics_witness:
  "verify_size bench_lib (\<lambda>i. i) OpWrite (rg_cq demo_rig) (hd (rg_jetties demo_rig)) (hd (rg_peers demo_rig))
       (rg_landing demo_rig) 0 8 (0, demo_s1)
     = Some (None, (0, demo_s1))"
  using write_above_cap_panics [OF demo_capped, of 4 8] by (simp add: size_ok_def)

end
