(* ===== verification/Records.thy ===== *)
theory Records
  imports Common
begin

text \<open>
  The metadata lookup demo (\<open>examples/urma_lookup.rs\<close>): the master's directory of record ranges,
  its handlers and barriers, the trait \<open>Transport\<close> as a record of functions, and the client
  \<open>run_client\<close> cut into the steps between which other tasks may run. JSON and HTTP carry values
  unchanged; that a request fails is a step of its own (theory Lookup). The barriers are tokio's and
  a parameter.
\<close>

section \<open>Constants and memory layout\<close>

definition MAX_CLIENTS :: nat where "MAX_CLIENTS = 16"
definition MAX_RECORDS_PER_CLIENT :: u32 where "MAX_RECORDS_PER_CLIENT = 64"
definition SCRATCH_OFF_lookup :: nat where "SCRATCH_OFF_lookup = unat MAX_RECORDS_PER_CLIENT * MSG_SIZE"

definition div_ceil :: "nat \<Rightarrow> nat \<Rightarrow> nat" where
  "div_ceil a b = (a + b - 1) div b"

definition buf_len :: nat where
  "buf_len = div_ceil (SCRATCH_OFF_lookup + MSG_SIZE) (unat PAGE_SIZE) * unat PAGE_SIZE"

section \<open>Control-plane messages\<close>

record OwnerInfo =
  oi_name :: string
  oi_first :: u32
  oi_cnt :: u32
  oi_desc :: PeerDesc
  oi_addr :: bytes
  oi_port :: u32

record RegisterMsg =
  rm_name :: string
  rm_cnt :: u32
  rm_desc :: PeerDesc
  rm_port :: u32

section \<open>The master\<close>

text \<open>A barrier of size \<open>n\<close> that was reached by \<open>m\<close> callers: whether the caller that came as number
\<open>i\<close>, counted from 0, is let through, and whether it is the one told to be the leader.\<close>

record barrier =
  b_open :: "nat \<Rightarrow> nat \<Rightarrow> nat \<Rightarrow> bool"
  b_leader :: "nat \<Rightarrow> nat \<Rightarrow> bool"

text \<open>What tokio documents: a caller waits until all \<open>n\<close> of its round have come; the barrier is used
again for the next round; one caller of a round is its leader.\<close>

definition rendezvous :: "barrier \<Rightarrow> bool" where
  "rendezvous B \<longleftrightarrow>
     (\<forall>n m i. 0 < n \<longrightarrow> b_open B n m i = (i div n < m div n))
     \<and> (\<forall>n r. 0 < n \<longrightarrow> (\<exists>!i. i div n = r \<and> b_leader B n i))"

record master =
  ms_clients :: "OwnerInfo list"
  ms_next_rid :: u32
  ms_expect :: nat
  ms_ready :: nat
  ms_done :: nat
  ms_shutdown :: bool

text \<open>\<open>run_master\<close> up to the first request.\<close>

definition run_master :: "nat \<Rightarrow> master result" where
  "run_master expect =
     (if expect = 0 \<or> expect > MAX_CLIENTS
      then Inl (Invalid (''expect must be in [1, '' @ show_nat MAX_CLIENTS @ '']''))
      else Inr \<lparr>ms_clients = [], ms_next_rid = 0, ms_expect = expect, ms_ready = 0, ms_done = 0,
             ms_shutdown = False\<rparr>)"

datatype IpAddr = V4 bytes | V6 bytes

fun octets_of :: "IpAddr \<Rightarrow> bytes" where
  "octets_of (V4 os) = os"
| "octets_of (V6 _) = [0, 0, 0, 0]"

text \<open>The handler \<open>m_register\<close> in its two atomic steps: \<open>fetch_add\<close> on the next record id, then the
push under the lock.\<close>

definition m_register_reserve :: "RegisterMsg \<Rightarrow> IpAddr \<Rightarrow> master \<Rightarrow> (string + OwnerInfo) \<times> master" where
  "m_register_reserve reg peer m =
     (if rm_cnt reg = 0 \<or> rm_cnt reg > MAX_RECORDS_PER_CLIENT
      then (Inl (''bad register from '' @ [CHR 0x27] @ rm_name reg @ [CHR 0x27] @ '' (cnt '' @
             show_word (rm_cnt reg) @ '')''), m)
      else
        (Inr \<lparr>oi_name = rm_name reg, oi_first = ms_next_rid m, oi_cnt = rm_cnt reg,
           oi_desc = rm_desc reg, oi_addr = octets_of peer, oi_port = rm_port reg\<rparr>,
         m\<lparr>ms_next_rid := ms_next_rid m + rm_cnt reg\<rparr>))"

definition m_register_publish :: "OwnerInfo \<Rightarrow> master \<Rightarrow> u32 \<times> master" where
  "m_register_publish info m = (oi_first info, m\<lparr>ms_clients := ms_clients m @ [info]\<rparr>)"

text \<open>The handlers \<open>m_ready\<close> and \<open>m_done\<close>: reaching the barrier, which gives the caller its number,
and the reply once it is let through.\<close>

definition m_ready_arrive :: "master \<Rightarrow> nat \<times> master" where
  "m_ready_arrive m = (ms_ready m, m\<lparr>ms_ready := ms_ready m + 1\<rparr>)"

definition m_ready_reply :: "barrier \<Rightarrow> nat \<Rightarrow> master \<Rightarrow> OwnerInfo list option" where
  "m_ready_reply B i m = (if b_open B (ms_expect m) (ms_ready m) i then Some (ms_clients m) else None)"

definition m_done_arrive :: "master \<Rightarrow> nat \<times> master" where
  "m_done_arrive m = (ms_done m, m\<lparr>ms_done := ms_done m + 1\<rparr>)"

definition m_done_reply :: "barrier \<Rightarrow> nat \<Rightarrow> master \<Rightarrow> master option" where
  "m_done_reply B i m =
     (if b_open B (ms_expect m) (ms_done m) i
      then Some (if b_leader B (ms_expect m) i then m\<lparr>ms_shutdown := True\<rparr> else m) else None)"

section \<open>The trait Transport\<close>

text \<open>
  The implementing type's state is \<open>'t\<close>. Reading a record may talk to the process that listens on an
  address and port: \<open>'t net\<close> gives that process's state, \<open>None\<close> where nobody listens. An operation
  that panics gives \<open>None\<close>.
\<close>

type_synonym 't net = "bytes \<Rightarrow> u32 \<Rightarrow> 't option"

record 't Transport =
  tr_init :: "'t \<Rightarrow> unit result \<times> 't"
  tr_data_port :: "'t \<Rightarrow> u32"
  tr_desc :: "'t \<Rightarrow> PeerDesc"
  tr_set_first :: "u32 \<Rightarrow> 't \<Rightarrow> 't"
  tr_with_buf :: "(bytes \<Rightarrow> bytes option) \<Rightarrow> 't \<Rightarrow> 't option"
  tr_import :: "nat \<Rightarrow> OwnerInfo \<Rightarrow> 't \<Rightarrow> unit result option \<times> 't"
  tr_read_record :: "'t net \<Rightarrow> nat \<Rightarrow> OwnerInfo \<Rightarrow> u32 \<Rightarrow> 't \<Rightarrow> bytes result option \<times> 't"

section \<open>The client\<close>

record ClientCfg =
  cc_name :: string
  cc_records :: u32

definition splice :: "nat \<Rightarrow> bytes \<Rightarrow> bytes \<Rightarrow> bytes" where
  "splice off bs buf = take off buf @ bs @ drop (off + length bs) buf"

definition record_text :: "string \<Rightarrow> u32 \<Rightarrow> bytes" where
  "record_text name rid = map of_char (''record '' @ show_word rid @ '' from '' @ name)"

definition write_record :: "string \<Rightarrow> u32 \<Rightarrow> nat \<Rightarrow> bytes \<Rightarrow> bytes option" where
  "write_record name my_first i buf =
     (let s = record_text name (my_first + of_nat i); off = i * MSG_SIZE in
      if off + MSG_SIZE > length buf then None
      else let n = min (length s) (MSG_SIZE - 1)
           in Some (splice off (take n s) (splice off (replicate MSG_SIZE 0) buf)))"

fun write_records :: "string \<Rightarrow> u32 \<Rightarrow> nat \<Rightarrow> nat \<Rightarrow> bytes \<Rightarrow> bytes option" where
  "write_records name my_first i 0 buf = Some buf"
| "write_records name my_first i (Suc k) buf =
     Option.bind (write_record name my_first i buf) (write_records name my_first (Suc i) k)"

text \<open>The closure of step 2. Without a record the line it prints slices past the buffer's end.\<close>

definition fill_buf :: "ClientCfg \<Rightarrow> u32 \<Rightarrow> bytes \<Rightarrow> bytes option" where
  "fill_buf cfg my_first buf =
     (if cc_records cfg = 0 then None else write_records (cc_name cfg) my_first 0 (unat (cc_records cfg)) buf)"

definition holds_record :: "u32 \<Rightarrow> u32 \<Rightarrow> u32 \<Rightarrow> bool" where
  "holds_record first cnt rid \<longleftrightarrow> rid \<ge> first \<and> rid < first + cnt"

definition owner_index :: "OwnerInfo list \<Rightarrow> u32 \<Rightarrow> nat option" where
  "owner_index owners rid = position (\<lambda>o'. holds_record (oi_first o') (oi_cnt o') rid) owners"

definition total_records :: "OwnerInfo list \<Rightarrow> u32" where
  "total_records owners = sum_list (map oi_cnt owners)"

definition is_self :: "ClientCfg \<Rightarrow> u32 \<Rightarrow> OwnerInfo \<Rightarrow> bool" where
  "is_self cfg my_first o' \<longleftrightarrow> oi_first o' = my_first \<and> oi_cnt o' = cc_records cfg"

text \<open>Where a client is in \<open>run_client\<close>.\<close>

datatype phase =
    Initial
  | Registering
  | Reserved OwnerInfo
  | Acked u32
  | Ranged u32
  | Written u32
  | Readying u32 nat
  | Importing u32 "OwnerInfo list" nat
  | Fetching u32 "OwnerInfo list" u32
  | Fetched
  | Leaving nat

datatype outcome = Finished | Failed error | Panicked

text \<open>A client: what it was started with, its transport, where it is, the records it printed and how
it ended, if it did.\<close>

record 't client =
  cl_cfg :: ClientCfg
  cl_addr :: IpAddr
  cl_tr :: 't
  cl_phase :: phase
  cl_out :: "(u32 \<times> bytes) list"
  cl_end :: "outcome option"

text \<open>How a call of the transport is taken: with \<open>?\<close> an error ends the client.\<close>

definition after_call ::
  "'t client \<Rightarrow> master \<Rightarrow> 'a result option \<times> 't \<Rightarrow> ('a \<Rightarrow> 't client \<Rightarrow> 't client) \<Rightarrow> 't client \<times> master" where
  "after_call c m r k =
     (let (q, t) = r; c = c\<lparr>cl_tr := t\<rparr>
      in case q of
           None \<Rightarrow> (c\<lparr>cl_end := Some Panicked\<rparr>, m)
         | Some (Inl e) \<Rightarrow> (c\<lparr>cl_end := Some (Failed e)\<rparr>, m)
         | Some (Inr x) \<Rightarrow> (k x c, m))"

definition turn_init :: "'t Transport \<Rightarrow> 't client \<Rightarrow> master \<Rightarrow> 't client \<times> master" where
  "turn_init T c m =
     after_call c m (case tr_init T (cl_tr c) of (r, t) \<Rightarrow> (Some r, t)) (\<lambda>_ c. c\<lparr>cl_phase := Registering\<rparr>)"

definition register_msg :: "'t Transport \<Rightarrow> 't client \<Rightarrow> RegisterMsg" where
  "register_msg T c =
     \<lparr>rm_name = cc_name (cl_cfg c), rm_cnt = cc_records (cl_cfg c), rm_desc = tr_desc T (cl_tr c),
      rm_port = tr_data_port T (cl_tr c)\<rparr>"

text \<open>A master that shut down refuses connections, and the client tries again for ever: no step.\<close>

definition turn_register :: "'t Transport \<Rightarrow> 't client \<Rightarrow> master \<Rightarrow> ('t client \<times> master) option" where
  "turn_register T c m =
     (if ms_shutdown m then None
      else Some (case m_register_reserve (register_msg T c) (cl_addr c) m of
          (Inl _, m) \<Rightarrow> (c\<lparr>cl_end := Some (Failed (Invalid ''http status 400 Bad Request''))\<rparr>, m)
        | (Inr info, m) \<Rightarrow> (c\<lparr>cl_phase := Reserved info\<rparr>, m)))"

definition turn_publish :: "OwnerInfo \<Rightarrow> 't client \<Rightarrow> master \<Rightarrow> 't client \<times> master" where
  "turn_publish info c m =
     (case m_register_publish info m of (my_first, m) \<Rightarrow> (c\<lparr>cl_phase := Acked my_first\<rparr>, m))"

definition turn_set_first :: "'t Transport \<Rightarrow> u32 \<Rightarrow> 't client \<Rightarrow> 't client" where
  "turn_set_first T my_first c =
     c\<lparr>cl_tr := tr_set_first T my_first (cl_tr c), cl_phase := Ranged my_first\<rparr>"

definition turn_write :: "'t Transport \<Rightarrow> u32 \<Rightarrow> 't client \<Rightarrow> 't client" where
  "turn_write T my_first c =
     (case tr_with_buf T (fill_buf (cl_cfg c) my_first) (cl_tr c) of
        None \<Rightarrow> c\<lparr>cl_end := Some Panicked\<rparr>
      | Some t \<Rightarrow> c\<lparr>cl_tr := t, cl_phase := Written my_first\<rparr>)"

definition turn_ready :: "u32 \<Rightarrow> 't client \<Rightarrow> master \<Rightarrow> ('t client \<times> master) option" where
  "turn_ready my_first c m =
     (if ms_shutdown m then None
      else Some (case m_ready_arrive m of (i, m) \<Rightarrow> (c\<lparr>cl_phase := Readying my_first i\<rparr>, m)))"

definition turn_directory :: "barrier \<Rightarrow> u32 \<Rightarrow> nat \<Rightarrow> 't client \<Rightarrow> master \<Rightarrow> ('t client \<times> master) option" where
  "turn_directory B my_first i c m =
     map_option (\<lambda>owners. (c\<lparr>cl_phase := Importing my_first owners 0\<rparr>, m)) (m_ready_reply B i m)"

definition turn_import ::
  "'t Transport \<Rightarrow> u32 \<Rightarrow> OwnerInfo list \<Rightarrow> nat \<Rightarrow> 't client \<Rightarrow> master \<Rightarrow> 't client \<times> master" where
  "turn_import T my_first owners idx c m =
     (if idx \<ge> length owners then (c\<lparr>cl_phase := Fetching my_first owners 0\<rparr>, m)
      else if is_self (cl_cfg c) my_first (owners ! idx)
      then (c\<lparr>cl_phase := Importing my_first owners (idx + 1)\<rparr>, m)
      else after_call c m (tr_import T idx (owners ! idx) (cl_tr c))
             (\<lambda>_ c. c\<lparr>cl_phase := Importing my_first owners (idx + 1)\<rparr>))"

definition turn_fetch ::
  "'t Transport \<Rightarrow> 't net \<Rightarrow> u32 \<Rightarrow> OwnerInfo list \<Rightarrow> u32 \<Rightarrow> 't client \<Rightarrow> master \<Rightarrow> 't client \<times> master" where
  "turn_fetch T net my_first owners rid c m =
     (if rid \<ge> total_records owners then (c\<lparr>cl_phase := Fetched\<rparr>, m)
      else case owner_index owners rid of
        None \<Rightarrow> (c\<lparr>cl_end := Some (Failed (Invalid (''record '' @ show_word rid @ '' has no owner'')))\<rparr>, m)
      | Some idx \<Rightarrow>
          if holds_record my_first (cc_records (cl_cfg c)) rid
          then (c\<lparr>cl_phase := Fetching my_first owners (rid + 1)\<rparr>, m)
          else after_call c m (tr_read_record T net idx (owners ! idx) rid (cl_tr c))
                 (\<lambda>bs c. c\<lparr>cl_out := cl_out c @ [(rid, bs)], cl_phase := Fetching my_first owners (rid + 1)\<rparr>))"

definition turn_done :: "'t client \<Rightarrow> master \<Rightarrow> ('t client \<times> master) option" where
  "turn_done c m =
     (if ms_shutdown m then None
      else Some (case m_done_arrive m of (i, m) \<Rightarrow> (c\<lparr>cl_phase := Leaving i\<rparr>, m)))"

definition turn_leave :: "barrier \<Rightarrow> nat \<Rightarrow> 't client \<Rightarrow> master \<Rightarrow> ('t client \<times> master) option" where
  "turn_leave B i c m = map_option (\<lambda>m. (c\<lparr>cl_end := Some Finished\<rparr>, m)) (m_done_reply B i m)"

text \<open>\<open>run_client\<close>: the next step, or \<open>None\<close> while it has to wait.\<close>

fun run_client ::
  "barrier \<Rightarrow> 't Transport \<Rightarrow> 't net \<Rightarrow> phase \<Rightarrow> 't client \<Rightarrow> master \<Rightarrow> ('t client \<times> master) option" where
  "run_client B T net Initial c m = Some (turn_init T c m)"
| "run_client B T net Registering c m = turn_register T c m"
| "run_client B T net (Reserved info) c m = Some (turn_publish info c m)"
| "run_client B T net (Acked first) c m = Some (turn_set_first T first c, m)"
| "run_client B T net (Ranged first) c m = Some (turn_write T first c, m)"
| "run_client B T net (Written first) c m = turn_ready first c m"
| "run_client B T net (Readying first i) c m = turn_directory B first i c m"
| "run_client B T net (Importing first owners idx) c m = Some (turn_import T first owners idx c m)"
| "run_client B T net (Fetching first owners rid) c m = Some (turn_fetch T net first owners rid c m)"
| "run_client B T net Fetched c m = turn_done c m"
| "run_client B T net (Leaving i) c m = turn_leave B i c m"

section \<open>Arguments\<close>

record LookupArgs =
  la_as_master :: bool
  la_tcp_hook :: bool
  la_clients :: nat
  la_dev_name :: "string option"
  la_master_ip :: "string option"
  la_records :: u32
  la_port :: u16
  la_name :: "string option"

definition validate :: "LookupArgs \<Rightarrow> (string + unit)" where
  "validate a =
     (if la_records a = 0 \<or> la_records a > MAX_RECORDS_PER_CLIENT
      then Inl (''records per client must be in [1, '' @ show_word MAX_RECORDS_PER_CLIENT @ '']'')
      else if \<not> la_as_master a \<and> la_master_ip a = None
      then Inl ''client mode requires -m <master_ip>''
      else if \<not> la_as_master a \<and> \<not> la_tcp_hook a \<and> la_dev_name a = None
      then Inl ''URMA mode requires -d <device> (or use --tcp-hook)''
      else Inr ())"

end
