(* ===== verification/Lookup.thy ===== *)
theory Lookup
  imports Records
begin

text \<open>
  The master and its clients as one system: any client may take its next step, and any request of a
  client may fail. The invariant of every reachable state, the ranges the master hands out, and what
  the two barriers guarantee when as many clients run as the master expects.
\<close>

section \<open>The system\<close>

record 't lookup =
  lk_master :: master
  lk_clients :: "'t client list"

text \<open>A client serves its records from \<open>init\<close> until its process ends.\<close>

definition listening :: "'t Transport \<Rightarrow> bytes \<Rightarrow> u32 \<Rightarrow> 't client \<Rightarrow> bool" where
  "listening T addr port c \<longleftrightarrow>
     cl_end c = None \<and> cl_phase c \<noteq> Initial \<and> octets_of (cl_addr c) = addr
     \<and> tr_data_port T (cl_tr c) = port"

definition net_of :: "'t Transport \<Rightarrow> 't client list \<Rightarrow> 't net" where
  "net_of T cs addr port = map_option cl_tr (List.find (listening T addr port) cs)"

definition client_turn :: "barrier \<Rightarrow> 't Transport \<Rightarrow> nat \<Rightarrow> 't lookup \<Rightarrow> 't lookup option" where
  "client_turn B T i s =
     (let cs = lk_clients s in
      if i < length cs \<and> cl_end (cs ! i) = None
      then map_option (\<lambda>(c, m). \<lparr>lk_master = m, lk_clients = cs[i := c]\<rparr>)
             (run_client B T (net_of T cs) (cl_phase (cs ! i)) (cs ! i) (lk_master s))
      else None)"

definition client_fails :: "nat \<Rightarrow> error \<Rightarrow> 't lookup \<Rightarrow> 't lookup" where
  "client_fails i e s =
     s\<lparr>lk_clients := (lk_clients s)[i := (lk_clients s ! i)\<lparr>cl_end := Some (Failed e)\<rparr>]\<rparr>"

inductive lookup_step :: "barrier \<Rightarrow> 't Transport \<Rightarrow> 't lookup \<Rightarrow> 't lookup \<Rightarrow> bool"
  for B :: barrier and T :: "'t Transport" where
  turn: "client_turn B T i s = Some s' \<Longrightarrow> lookup_step B T s s'"
| fault: "i < length (lk_clients s) \<Longrightarrow> cl_end (lk_clients s ! i) = None
    \<Longrightarrow> lookup_step B T s (client_fails i e s)"

inductive_cases lookup_stepE: "lookup_step B T s s'"

text \<open>A run in which the clients take their turns in the given order.\<close>

fun take_turns :: "barrier \<Rightarrow> 't Transport \<Rightarrow> nat list \<Rightarrow> 't lookup \<Rightarrow> 't lookup option" where
  "take_turns B T [] s = Some s"
| "take_turns B T (i # is) s = Option.bind (client_turn B T i s) (take_turns B T is)"

definition fresh_client :: "ClientCfg \<Rightarrow> IpAddr \<Rightarrow> 't \<Rightarrow> 't client" where
  "fresh_client cfg addr t =
     \<lparr>cl_cfg = cfg, cl_addr = addr, cl_tr = t, cl_phase = Initial, cl_out = [], cl_end = None\<rparr>"

definition valid_cfg :: "ClientCfg \<Rightarrow> bool" where
  "valid_cfg cfg \<longleftrightarrow> cc_records cfg \<noteq> 0 \<and> cc_records cfg \<le> MAX_RECORDS_PER_CLIENT"

text \<open>The master expects as many clients as are started, with valid arguments.\<close>

definition lookup_start :: "'t lookup \<Rightarrow> bool" where
  "lookup_start s \<longleftrightarrow>
     run_master (length (lk_clients s)) = Inr (lk_master s)
     \<and> (\<forall>c \<in> set (lk_clients s). cl_phase c = Initial \<and> cl_out c = [] \<and> cl_end c = None \<and> valid_cfg (cl_cfg c))"

section \<open>Steps seen from the protocol\<close>

fun stage :: "phase \<Rightarrow> nat" where
  "stage Initial = 0"
| "stage Registering = 1"
| "stage (Reserved _) = 2"
| "stage (Acked _) = 3"
| "stage (Ranged _) = 4"
| "stage (Written _) = 5"
| "stage (Readying _ _) = 6"
| "stage (Importing _ _ _) = 7"
| "stage (Fetching _ _ _) = 8"
| "stage Fetched = 9"
| "stage (Leaving _) = 10"

fun range_start :: "phase \<Rightarrow> u32 option" where
  "range_start (Reserved info) = Some (oi_first info)"
| "range_start (Acked f) = Some f"
| "range_start (Ranged f) = Some f"
| "range_start (Written f) = Some f"
| "range_start (Readying f _) = Some f"
| "range_start (Importing f _ _) = Some f"
| "range_start (Fetching f _ _) = Some f"
| "range_start _ = None"

fun directory :: "phase \<Rightarrow> OwnerInfo list option" where
  "directory (Importing _ os _) = Some os"
| "directory (Fetching _ os _) = Some os"
| "directory _ = None"

section \<open>Counting clients by stage\<close>

definition past :: "nat \<Rightarrow> 't client list \<Rightarrow> nat" where
  "past k cs = sum_list (map (\<lambda>c. if k \<le> stage (cl_phase c) then 1 else 0) cs)"

definition taken :: "'t client list \<Rightarrow> nat" where
  "taken cs = sum_list (map (\<lambda>c. if 2 \<le> stage (cl_phase c) then unat (cc_records (cl_cfg c)) else 0) cs)"

lemma past_update:
  "i < length cs \<Longrightarrow> past k (cs[i := c]) + (if k \<le> stage (cl_phase (cs ! i)) then 1 else 0)
     = past k cs + (if k \<le> stage (cl_phase c) then 1 else 0)"
  unfolding past_def using sum_list_map_update [of i cs] by fastforce

lemma taken_update:
  "i < length cs \<Longrightarrow> taken (cs[i := c])
       + (if 2 \<le> stage (cl_phase (cs ! i)) then unat (cc_records (cl_cfg (cs ! i))) else 0)
     = taken cs + (if 2 \<le> stage (cl_phase c) then unat (cc_records (cl_cfg c)) else 0)"
  unfolding taken_def using sum_list_map_update [of i cs] by fastforce

lemma past_le: "past k cs \<le> length cs"
  by (induction cs) (auto simp: past_def)

lemma past_all: "past k cs = length cs \<longleftrightarrow> (\<forall>c \<in> set cs. k \<le> stage (cl_phase c))"
proof (induction cs)
  case (Cons c cs)
  have "past k (c # cs) = (if k \<le> stage (cl_phase c) then 1 else 0) + past k cs" by (simp add: past_def)
  then show ?case using Cons past_le [of k cs] by auto
qed (simp add: past_def)

lemma taken_le: "\<forall>c \<in> set cs. valid_cfg (cl_cfg c) \<Longrightarrow> taken cs \<le> 64 * length cs"
  by (induction cs)
    (auto simp: taken_def valid_cfg_def MAX_RECORDS_PER_CLIENT_def word_le_nat_alt)

section \<open>The invariant\<close>

definition span :: "OwnerInfo \<Rightarrow> nat set" where
  "span o' = {unat (oi_first o') ..< unat (oi_first o') + unat (oi_cnt o')}"

text \<open>
  Of a system whose client \<open>i\<close> was or will be given the entry \<open>info i\<close>, with the directory in the
  order \<open>ord\<close> of the clients.
\<close>

definition client_ok :: "master \<Rightarrow> nat \<Rightarrow> OwnerInfo \<Rightarrow> 't client \<Rightarrow> bool" where
  "client_ok m n o' c \<longleftrightarrow>
     valid_cfg (cl_cfg c)
     \<and> (2 \<le> stage (cl_phase c) \<longrightarrow> oi_cnt o' = cc_records (cl_cfg c) \<and> oi_name o' = cc_name (cl_cfg c)
          \<and> unat (oi_first o') + unat (oi_cnt o') \<le> unat (ms_next_rid m))
     \<and> (\<forall>f. range_start (cl_phase c) = Some f \<longrightarrow> f = oi_first o')
     \<and> (\<forall>x. cl_phase c = Reserved x \<longrightarrow> x = o')
     \<and> (\<forall>f t. cl_phase c = Readying f t \<longrightarrow> t < ms_ready m)
     \<and> (\<forall>t. cl_phase c = Leaving t \<longrightarrow> t < ms_done m)
     \<and> (7 \<le> stage (cl_phase c) \<longrightarrow> ms_ready m = n)
     \<and> (\<forall>os. directory (cl_phase c) = Some os \<longrightarrow> os = ms_clients m)
     \<and> (cl_end c = Some Finished \<longrightarrow> stage (cl_phase c) = 10 \<and> ms_done m = n)"

definition ledger :: "(nat \<Rightarrow> OwnerInfo) \<Rightarrow> nat list \<Rightarrow> 't lookup \<Rightarrow> bool" where
  "ledger info ord s \<longleftrightarrow>
     (let m = lk_master s; cs = lk_clients s; n = length cs in
       0 < n \<and> n \<le> MAX_CLIENTS \<and> ms_expect m = n
       \<and> (\<forall>i < n. client_ok m n (info i) (cs ! i))
       \<and> unat (ms_next_rid m) = taken cs
       \<and> (\<forall>k < unat (ms_next_rid m). \<exists>!i. i < n \<and> 2 \<le> stage (cl_phase (cs ! i)) \<and> k \<in> span (info i))
       \<and> ms_clients m = map info ord \<and> distinct ord
       \<and> set ord = {i. i < n \<and> 3 \<le> stage (cl_phase (cs ! i))}
       \<and> ms_ready m = past 6 cs \<and> ms_done m = past 10 cs
       \<and> (ms_shutdown m \<longrightarrow> ms_done m = n))"

lemma ledgerD:
  assumes "ledger info ord s" and "m = lk_master s" and "cs = lk_clients s"
  shows "0 < length cs" "length cs \<le> 16" "ms_expect m = length cs"
    "i < length cs \<Longrightarrow> client_ok m (length cs) (info i) (cs ! i)"
    "unat (ms_next_rid m) = taken cs"
    "k < unat (ms_next_rid m) \<Longrightarrow> \<exists>!i. i < length cs \<and> 2 \<le> stage (cl_phase (cs ! i)) \<and> k \<in> span (info i)"
    "ms_clients m = map info ord" "distinct ord"
    "set ord = {i. i < length cs \<and> 3 \<le> stage (cl_phase (cs ! i))}"
    "ms_ready m = past 6 cs" "ms_done m = past 10 cs"
    "ms_shutdown m \<Longrightarrow> ms_done m = length cs"
  using assms by (simp_all add: ledger_def Let_def MAX_CLIENTS_def)

lemma ledger_valid: "ledger info ord s \<Longrightarrow> c \<in> set (lk_clients s) \<Longrightarrow> valid_cfg (cl_cfg c)"
  using ledgerD(4) [OF _ refl refl] by (fastforce simp: in_set_conv_nth client_ok_def)

lemma client_ok_mono:
  assumes "client_ok m n o' c" and "ms_next_rid m \<le> ms_next_rid m'" and "ms_ready m \<le> ms_ready m'"
    and "ms_done m \<le> ms_done m'" and "ms_done m = n \<longrightarrow> ms_done m' = n"
    and "ms_ready m = n \<longrightarrow> ms_ready m' = n \<and> ms_clients m' = ms_clients m"
  shows "client_ok m' n o' c"
proof -
  have dir: "7 \<le> stage (cl_phase c)" if "directory (cl_phase c) = Some os" for os
    using that by (cases "cl_phase c") auto
  show ?thesis
    using assms dir unfolding client_ok_def word_le_nat_alt by fastforce
qed

text \<open>Everyone has reached a barrier that is full.\<close>

lemma full_stage:
  assumes "past k cs = length cs" and "i < length cs"
  shows "k \<le> stage (cl_phase (cs ! i))"
  using assms by (simp add: past_all)

section \<open>Every step keeps the invariant\<close>

text \<open>A step that changes neither the master nor the stages that are counted.\<close>

lemma ledger_quiet:
  assumes led: "ledger info ord s" and i: "i < length (lk_clients s)"
    and cfg: "cl_cfg c = cl_cfg (lk_clients s ! i)"
    and stages: "\<And>k. k \<in> {2, 3, 6, 10} \<Longrightarrow>
      k \<le> stage (cl_phase c) \<longleftrightarrow> k \<le> stage (cl_phase (lk_clients s ! i))"
    and ok: "client_ok (lk_master s) (length (lk_clients s)) (info i) c"
  shows "ledger info ord (s\<lparr>lk_clients := (lk_clients s)[i := c]\<rparr>)"
proof -
  let ?cs = "lk_clients s"
  have past: "past k (?cs[i := c]) = past k ?cs" if "k \<in> {2, 3, 6, 10}" for k
    using past_update [OF i, of k c] stages [OF that] by (auto split: if_splits)
  have taken: "taken (?cs[i := c]) = taken ?cs"
    using taken_update [OF i, of c] stages [of 2] cfg by (auto split: if_splits)
  have at: "k \<le> stage (cl_phase (?cs[i := c] ! j)) \<longleftrightarrow> k \<le> stage (cl_phase (?cs ! j))"
    if "k \<in> {2, 3, 6, 10}" for k j
    using stages [OF that] i by (cases "j = i") simp_all
  have "client_ok (lk_master s) (length ?cs) (info j) (?cs[i := c] ! j)" if "j < length ?cs" for j
    using ledgerD(4) [OF led refl refl that] ok i by (cases "j = i") simp_all
  then show ?thesis
    using ledgerD(1-3,5-12) [OF led refl refl] unfolding ledger_def Let_def MAX_CLIENTS_def
    by (simp add: past taken at)
qed

lemma ledger_others:
  assumes led: "ledger info ord s" and i: "i < length (lk_clients s)" and j: "j < length (lk_clients s)"
    and "ms_next_rid (lk_master s) \<le> ms_next_rid m" and "ms_ready (lk_master s) \<le> ms_ready m"
    and "ms_done (lk_master s) \<le> ms_done m"
    and "ms_done (lk_master s) = length (lk_clients s) \<longrightarrow> ms_done m = length (lk_clients s)"
    and "ms_ready (lk_master s) = length (lk_clients s) \<longrightarrow>
      ms_ready m = length (lk_clients s) \<and> ms_clients m = ms_clients (lk_master s)"
    and "client_ok m (length (lk_clients s)) (info' i) c" and "\<And>j. j \<noteq> i \<Longrightarrow> info' j = info j"
  shows "client_ok m (length (lk_clients s)) (info' j) ((lk_clients s)[i := c] ! j)"
  using assms client_ok_mono [OF ledgerD(4) [OF led refl refl j]] by (cases "j = i") simp_all

text \<open>The master reserves the next range.\<close>

lemma ledger_reserve:
  assumes led: "ledger info ord s" and i: "i < length (lk_clients s)"
    and before: "cl_phase (lk_clients s ! i) = Registering" and run: "cl_end c = None"
    and cfg: "cl_cfg c = cl_cfg (lk_clients s ! i)" and after: "cl_phase c = Reserved x"
    and x: "oi_first x = ms_next_rid (lk_master s)" "oi_cnt x = cc_records (cl_cfg c)"
      "oi_name x = cc_name (cl_cfg c)"
  shows "ledger (info(i := x)) ord \<lparr>lk_master = (lk_master s)\<lparr>ms_next_rid := ms_next_rid (lk_master s) + oi_cnt x\<rparr>,
     lk_clients = (lk_clients s)[i := c]\<rparr>"
proof -
  let ?cs = "lk_clients s" and ?m = "lk_master s"
  note L = ledgerD [OF led refl refl]
  have valid: "valid_cfg (cl_cfg (?cs ! i))" using ledger_valid [OF led] i by simp
  have taken: "taken (?cs[i := c]) = taken ?cs + unat (oi_cnt x)"
    using taken_update [OF i, of c] before after x cfg by simp
  have past: "past k (?cs[i := c]) = past k ?cs" if "k \<in> {3, 6, 10}" for k
    using past_update [OF i, of k c] before after that by auto
  have "\<forall>c' \<in> set (?cs[i := c]). valid_cfg (cl_cfg c')"
    using ledger_valid [OF led] valid cfg by (auto dest!: subsetD [OF set_update_subset_insert])
  then have small: "taken (?cs[i := c]) \<le> 1024"
    using taken_le [of "?cs[i := c]"] L(2) by simp
  have sum: "unat (ms_next_rid ?m + oi_cnt x) = unat (ms_next_rid ?m) + unat (oi_cnt x)"
    using small taken L(5) by (intro unat_plus_no_overflow) simp
  have spanx: "k \<in> span x \<longleftrightarrow> unat (ms_next_rid ?m) \<le> k \<and> k < unat (ms_next_rid ?m) + unat (oi_cnt x)" for k
    by (simp add: span_def x(1))
  have below: "k < unat (ms_next_rid ?m)" if "j < length ?cs" "2 \<le> stage (cl_phase (?cs ! j))" "k \<in> span (info j)" for j k
    using L(4) [OF that(1)] that(2,3) by (auto simp: client_ok_def span_def)
  have at: "2 \<le> stage (cl_phase (?cs[i := c] ! j)) \<longleftrightarrow> j = i \<or> 2 \<le> stage (cl_phase (?cs ! j))"
    "3 \<le> stage (cl_phase (?cs[i := c] ! j)) \<longleftrightarrow> 3 \<le> stage (cl_phase (?cs ! j))" for j
    using i before after by (cases "j = i"; simp)+
  have tiles: "\<exists>!j. j < length ?cs \<and> (j = i \<or> 2 \<le> stage (cl_phase (?cs ! j))) \<and> k \<in> span ((info(i := x)) j)"
    if k: "k < unat (ms_next_rid ?m) + unat (oi_cnt x)" for k
  proof (cases "k < unat (ms_next_rid ?m)")
    case True
    then obtain j where j: "j < length ?cs" "2 \<le> stage (cl_phase (?cs ! j))" "k \<in> span (info j)"
      and unique: "\<And>j'. j' < length ?cs \<Longrightarrow> 2 \<le> stage (cl_phase (?cs ! j')) \<Longrightarrow> k \<in> span (info j') \<Longrightarrow> j' = j"
      using L(6) [OF True] by (elim ex1E) blast
    have ji: "j \<noteq> i" using j(2) before by auto
    show ?thesis
    proof (rule ex1I [of _ j])
      fix j' assume "j' < length ?cs \<and> (j' = i \<or> 2 \<le> stage (cl_phase (?cs ! j'))) \<and> k \<in> span ((info(i := x)) j')"
      then show "j' = j" using unique True spanx by (cases "j' = i") auto
    qed (use j ji in simp)
  next
    case False
    show ?thesis
    proof (rule ex1I [of _ i])
      fix j' assume "j' < length ?cs \<and> (j' = i \<or> 2 \<le> stage (cl_phase (?cs ! j'))) \<and> k \<in> span ((info(i := x)) j')"
      then show "j' = i" using below [of j' k] False by (cases "j' = i") auto
    qed (use i False k spanx in simp)
  qed
  have "i \<notin> set ord" using L(9) before by auto
  then have dir: "map (info(i := x)) ord = map info ord" by simp
  have "client_ok (?m\<lparr>ms_next_rid := ms_next_rid ?m + oi_cnt x\<rparr>) (length ?cs) x c"
    using valid x cfg after run sum by (simp add: client_ok_def)
  then have "client_ok (?m\<lparr>ms_next_rid := ms_next_rid ?m + oi_cnt x\<rparr>) (length ?cs) ((info(i := x)) j) (?cs[i := c] ! j)"
    if "j < length ?cs" for j
    by (intro ledger_others [OF led i that]) (simp_all add: word_le_nat_alt sum)
  moreover have "\<exists>!j. j < length ?cs \<and> 2 \<le> stage (cl_phase (?cs[i := c] ! j)) \<and> k \<in> span ((info(i := x)) j)"
    if "k < unat (ms_next_rid ?m + oi_cnt x)" for k
    using tiles [of k] that unfolding sum at(1) .
  ultimately show ?thesis
    using L(1-3,5,7-12) unfolding ledger_def Let_def MAX_CLIENTS_def
    by (simp add: past taken at sum dir del: fun_upd_apply)
qed

text \<open>The entry becomes part of the directory.\<close>

lemma ledger_publish:
  assumes led: "ledger info ord s" and i: "i < length (lk_clients s)"
    and before: "cl_phase (lk_clients s ! i) = Reserved x" and run: "cl_end c = None"
    and cfg: "cl_cfg c = cl_cfg (lk_clients s ! i)" and after: "cl_phase c = Acked (oi_first x)"
  shows "ledger info (ord @ [i]) \<lparr>lk_master = (lk_master s)\<lparr>ms_clients := ms_clients (lk_master s) @ [x]\<rparr>,
     lk_clients = (lk_clients s)[i := c]\<rparr>"
proof -
  let ?cs = "lk_clients s" and ?m = "lk_master s"
  note L = ledgerD [OF led refl refl]
  have ok: "client_ok ?m (length ?cs) (info i) (?cs ! i)" by (rule L(4) [OF i])
  then have x: "x = info i" using before by (simp add: client_ok_def)
  have facts: "valid_cfg (cl_cfg (?cs ! i))" "oi_cnt (info i) = cc_records (cl_cfg (?cs ! i))"
    "oi_name (info i) = cc_name (cl_cfg (?cs ! i))"
    "unat (oi_first (info i)) + unat (oi_cnt (info i)) \<le> unat (ms_next_rid ?m)"
    using ok before unfolding client_ok_def by auto
  have taken: "taken (?cs[i := c]) = taken ?cs"
    using taken_update [OF i, of c] before after cfg by simp
  have past: "past k (?cs[i := c]) = past k ?cs" if "k \<in> {6, 10}" for k
    using past_update [OF i, of k c] before after that by auto
  have at: "2 \<le> stage (cl_phase (?cs[i := c] ! j)) \<longleftrightarrow> 2 \<le> stage (cl_phase (?cs ! j))"
    "3 \<le> stage (cl_phase (?cs[i := c] ! j)) \<longleftrightarrow> j = i \<or> 3 \<le> stage (cl_phase (?cs ! j))" for j
    using i before after by (cases "j = i"; simp)+
  have "ms_ready ?m \<noteq> length ?cs" using full_stage [OF _ i, of 6] before L(10) by auto
  moreover have "client_ok (?m\<lparr>ms_clients := ms_clients ?m @ [x]\<rparr>) (length ?cs) (info i) c"
    using facts after cfg run x by (simp add: client_ok_def)
  ultimately have "client_ok (?m\<lparr>ms_clients := ms_clients ?m @ [x]\<rparr>) (length ?cs) (info j) (?cs[i := c] ! j)"
    if "j < length ?cs" for j
    by (intro ledger_others [OF led i that]) simp_all
  moreover have "{j. j < length ?cs \<and> (j = i \<or> 3 \<le> stage (cl_phase (?cs ! j)))} = insert i (set ord)"
    using L(9) i by auto
  moreover have "i \<notin> set ord" using L(9) before by auto
  ultimately show ?thesis
    using L(1-3,5-8,10-12) unfolding ledger_def Let_def MAX_CLIENTS_def
    by (simp add: past taken at x)
qed

text \<open>A client reaches one of the barriers.\<close>

lemma ledger_arrive:
  assumes led: "ledger info ord s" and i: "i < length (lk_clients s)"
    and move: "(\<exists>f. cl_phase (lk_clients s ! i) = Written f \<and> cl_phase c = Readying f (ms_ready (lk_master s))
         \<and> m = (lk_master s)\<lparr>ms_ready := ms_ready (lk_master s) + 1\<rparr>)
       \<or> (cl_phase (lk_clients s ! i) = Fetched \<and> cl_phase c = Leaving (ms_done (lk_master s))
         \<and> m = (lk_master s)\<lparr>ms_done := ms_done (lk_master s) + 1\<rparr>)"
    and run: "cl_end c = None" and cfg: "cl_cfg c = cl_cfg (lk_clients s ! i)"
  shows "ledger info ord \<lparr>lk_master = m, lk_clients = (lk_clients s)[i := c]\<rparr>"
proof -
  let ?cs = "lk_clients s" and ?m = "lk_master s"
  note L = ledgerD [OF led refl refl]
  have ok: "client_ok ?m (length ?cs) (info i) (?cs ! i)" by (rule L(4) [OF i])
  have taken: "taken (?cs[i := c]) = taken ?cs"
    using taken_update [OF i, of c] move cfg by auto
  have past: "ms_ready m = past 6 (?cs[i := c])" "ms_done m = past 10 (?cs[i := c])"
    using past_update [OF i, of 6 c] past_update [OF i, of 10 c] move L(10,11) by auto
  have at: "2 \<le> stage (cl_phase (?cs[i := c] ! j)) \<longleftrightarrow> 2 \<le> stage (cl_phase (?cs ! j))"
    "3 \<le> stage (cl_phase (?cs[i := c] ! j)) \<longleftrightarrow> 3 \<le> stage (cl_phase (?cs ! j))" for j
    using i move by (cases "j = i"; auto)+
  have open_ready: "ms_ready ?m = length ?cs \<longrightarrow> ms_ready m = length ?cs \<and> ms_clients m = ms_clients ?m"
    using full_stage [OF _ i, of 6] move L(10) by auto
  have open_done: "ms_done ?m = length ?cs \<longrightarrow> ms_done m = length ?cs"
    using full_stage [OF _ i, of 10] move L(11) by auto
  have "client_ok m (length ?cs) (info i) c"
    using ok move cfg run by (auto simp: client_ok_def)
  then have "client_ok m (length ?cs) (info j) (?cs[i := c] ! j)" if "j < length ?cs" for j
    using move open_ready open_done by (intro ledger_others [OF led i that]) auto
  moreover have "ms_expect m = ms_expect ?m" "ms_next_rid m = ms_next_rid ?m" "ms_clients m = ms_clients ?m"
    "ms_shutdown m = ms_shutdown ?m"
    using move by auto
  ultimately show ?thesis
    using L(1-3,5-9,12) past open_done unfolding ledger_def Let_def MAX_CLIENTS_def
    by (simp add: taken at)
qed

text \<open>The leader of the last round shuts the master down.\<close>

lemma ledger_shutdown:
  assumes "ledger info ord s" and "ms_done (lk_master s) = length (lk_clients s)"
  shows "ledger info ord (s\<lparr>lk_master := (lk_master s)\<lparr>ms_shutdown := True\<rparr>\<rparr>)"
proof -
  have ok: "client_ok (m\<lparr>ms_shutdown := True\<rparr>) n o' c = client_ok m n o' c" for m n o' and c :: "'a client"
    by (simp add: client_ok_def)
  note L = ledgerD [OF assms(1) refl refl]
  have full: "past 10 (lk_clients s) = length (lk_clients s)" using assms(2) L(11) by simp
  show ?thesis
    using L(1-10) full L(11) unfolding ledger_def Let_def MAX_CLIENTS_def by (simp add: ok)
qed

lemma open_full:
  assumes "rendezvous B" and "0 < n" and "m \<le> n" and "b_open B n m i"
  shows "m = n"
  using assms by (auto simp: rendezvous_def le_less)

lemma open_when_full:
  assumes "rendezvous B" and "i < n"
  shows "b_open B n n i"
  using assms by (auto simp: rendezvous_def)

text \<open>A call of the transport changes nothing but the transport, unless it ends the client.\<close>

lemma after_call_cases:
  assumes "after_call c m r k = (c', m')"
  obtains (stop) t w where "c' = c\<lparr>cl_tr := t, cl_end := Some w\<rparr>" "w \<noteq> Finished" "m' = m"
  | (next_step) t x where "c' = k x (c\<lparr>cl_tr := t\<rparr>)" "fst r = Some (Inr x)" "t = snd r" "m' = m"
  using assms unfolding after_call_def Let_def
  by (cases r; cases "fst r"; cases "the (fst r)") auto

lemma stopped_ok:
  "client_ok m n o' c \<Longrightarrow> w \<noteq> Finished \<Longrightarrow> client_ok m n o' (c\<lparr>cl_tr := t, cl_end := Some w\<rparr>)"
  "client_ok m n o' c \<Longrightarrow> w \<noteq> Finished \<Longrightarrow> client_ok m n o' (c\<lparr>cl_end := Some w\<rparr>)"
  unfolding client_ok_def by auto

text \<open>Client \<open>c\<close> runs as number \<open>i\<close>, and what a step \<open>r\<close> of it has to establish: the invariant, with
the entries that were already assigned.\<close>

definition running :: "(nat \<Rightarrow> OwnerInfo) \<Rightarrow> nat list \<Rightarrow> 't lookup \<Rightarrow> nat \<Rightarrow> 't client \<Rightarrow> bool" where
  "running info ord s i c \<longleftrightarrow>
     ledger info ord s \<and> i < length (lk_clients s) \<and> c = lk_clients s ! i \<and> cl_end c = None"

definition extends :: "'t lookup \<Rightarrow> (nat \<Rightarrow> OwnerInfo) \<Rightarrow> (nat \<Rightarrow> OwnerInfo) \<Rightarrow> bool" where
  "extends s info info' \<longleftrightarrow>
     (\<forall>j < length (lk_clients s). 2 \<le> stage (cl_phase (lk_clients s ! j)) \<longrightarrow> info' j = info j)"

definition keeps :: "(nat \<Rightarrow> OwnerInfo) \<Rightarrow> 't lookup \<Rightarrow> nat \<Rightarrow> 't client \<times> master \<Rightarrow> bool" where
  "keeps info s i r \<longleftrightarrow>
     (\<exists>info' ord. ledger info' ord \<lparr>lk_master = snd r, lk_clients = (lk_clients s)[i := fst r]\<rparr>
        \<and> extends s info info')"

lemma runningD:
  assumes "running info ord s i c"
  shows "ledger info ord s" "i < length (lk_clients s)" "lk_clients s ! i = c" "cl_end c = None"
    "client_ok (lk_master s) (length (lk_clients s)) (info i) c"
  using assms ledgerD(4) [of info ord s, OF _ refl refl, of i] by (auto simp: running_def)

lemma keepsI: "ledger info ord \<lparr>lk_master = m, lk_clients = (lk_clients s)[i := c]\<rparr> \<Longrightarrow> keeps info s i (c, m)"
  by (auto simp: keeps_def extends_def)

lemma keeps_quiet:
  assumes "running info ord s i c" and "cl_cfg c' = cl_cfg c"
    and "\<And>k. k \<in> {2, 3, 6, 10} \<Longrightarrow> k \<le> stage (cl_phase c') \<longleftrightarrow> k \<le> stage (cl_phase c)"
    and "client_ok (lk_master s) (length (lk_clients s)) (info i) c'"
  shows "keeps info s i (c', lk_master s)"
proof -
  have "ledger info ord (s\<lparr>lk_clients := (lk_clients s)[i := c']\<rparr>)"
    using assms runningD [OF assms(1)] by (intro ledger_quiet) simp_all
  then show ?thesis by (cases s) (simp add: keepsI)
qed

lemma keeps_stopped:
  assumes "running info ord s i c" and "w \<noteq> Finished"
  shows "keeps info s i (c\<lparr>cl_end := Some w\<rparr>, lk_master s)"
    "keeps info s i (c\<lparr>cl_tr := t, cl_end := Some w\<rparr>, lk_master s)"
  by (rule keeps_quiet [OF assms(1)]; simp add: stopped_ok runningD(5) [OF assms(1)] assms(2))+

lemma keeps_call:
  assumes r: "running info ord s i c"
    and "\<And>x t. client_ok (lk_master s) (length (lk_clients s)) (info i) (k x (c\<lparr>cl_tr := t\<rparr>))"
    and "\<And>x t. cl_cfg (k x (c\<lparr>cl_tr := t\<rparr>)) = cl_cfg c"
    and "\<And>x t j. j \<in> {2, 3, 6, 10} \<Longrightarrow> j \<le> stage (cl_phase (k x (c\<lparr>cl_tr := t\<rparr>))) \<longleftrightarrow> j \<le> stage (cl_phase c)"
  shows "keeps info s i (after_call c (lk_master s) q k)"
proof -
  obtain c' m' where call: "after_call c (lk_master s) q k = (c', m')" by force
  show ?thesis unfolding call using call
  proof (cases rule: after_call_cases)
    case (stop t w)
    then show "keeps info s i (c', m')" by (simp add: keeps_stopped [OF r])
  next
    case (next_step t x)
    show "keeps info s i (c', m')" unfolding next_step(1,4) by (rule keeps_quiet [OF r]) (simp_all add: assms)
  qed
qed

lemma keeps_init: "running info ord s i c \<Longrightarrow> cl_phase c = Initial \<Longrightarrow> keeps info s i (turn_init T c (lk_master s))"
  using runningD [of info ord s i c] unfolding turn_init_def by (intro keeps_call) (auto simp: client_ok_def)

lemma keeps_register:
  assumes r: "running info ord s i c" and phase: "cl_phase c = Registering"
    and turn: "turn_register T c (lk_master s) = Some q"
  shows "keeps info s i q"
proof (cases "rm_cnt (register_msg T c) = 0 \<or> rm_cnt (register_msg T c) > MAX_RECORDS_PER_CLIENT")
  case True
  then have "q = (c\<lparr>cl_end := Some (Failed (Invalid ''http status 400 Bad Request''))\<rparr>, lk_master s)"
    using turn by (auto simp: turn_register_def m_register_reserve_def split: if_splits)
  then show ?thesis by (simp add: keeps_stopped [OF r])
next
  case False
  define x where "x = \<lparr>oi_name = cc_name (cl_cfg c), oi_first = ms_next_rid (lk_master s),
       oi_cnt = cc_records (cl_cfg c), oi_desc = tr_desc T (cl_tr c), oi_addr = octets_of (cl_addr c),
       oi_port = tr_data_port T (cl_tr c)\<rparr>"
  have "q = (c\<lparr>cl_phase := Reserved x\<rparr>, (lk_master s)\<lparr>ms_next_rid := ms_next_rid (lk_master s) + oi_cnt x\<rparr>)"
    using turn False
    by (auto simp: turn_register_def m_register_reserve_def register_msg_def x_def split: if_splits)
  moreover have "extends s info (info(i := x))"
    using runningD(3) [OF r] phase by (auto simp: extends_def)
  ultimately show ?thesis
    using ledger_reserve [of info ord s i "c\<lparr>cl_phase := Reserved x\<rparr>" x] runningD [OF r] phase
    by (auto simp: keeps_def x_def)
qed

lemma keeps_publish:
  assumes r: "running info ord s i c" and phase: "cl_phase c = Reserved x"
  shows "keeps info s i (turn_publish x c (lk_master s))"
  using ledger_publish [of info ord s i x "c\<lparr>cl_phase := Acked (oi_first x)\<rparr>"] runningD [OF r] phase
  by (auto simp: turn_publish_def m_register_publish_def intro!: keepsI)

lemma keeps_set_first:
  "running info ord s i c \<Longrightarrow> cl_phase c = Acked f \<Longrightarrow> keeps info s i (turn_set_first T f c, lk_master s)"
  using runningD [of info ord s i c]
  by (intro keeps_quiet) (auto simp: client_ok_def turn_set_first_def)

lemma keeps_write:
  assumes r: "running info ord s i c" and phase: "cl_phase c = Ranged f"
  shows "keeps info s i (turn_write T f c, lk_master s)"
proof (cases "tr_with_buf T (fill_buf (cl_cfg c) f) (cl_tr c)")
  case None
  then show ?thesis by (simp add: turn_write_def keeps_stopped [OF r])
next
  case (Some t)
  then show ?thesis
    using runningD [OF r] phase by (intro keeps_quiet [OF r]) (auto simp: client_ok_def turn_write_def)
qed

lemma keeps_arrive:
  assumes r: "running info ord s i c"
    and move: "(\<exists>f. cl_phase c = Written f \<and> turn_ready f c (lk_master s) = Some q)
      \<or> (cl_phase c = Fetched \<and> turn_done c (lk_master s) = Some q)"
  shows "keeps info s i q"
proof -
  have "ledger info ord \<lparr>lk_master = snd q, lk_clients = (lk_clients s)[i := fst q]\<rparr>"
    by (rule ledger_arrive) (use runningD [OF r] move in
      \<open>auto simp: turn_ready_def m_ready_arrive_def turn_done_def m_done_arrive_def split: if_splits\<close>)
  then show ?thesis using keepsI [of info ord "snd q" s i "fst q"] by simp
qed

lemma keeps_directory:
  assumes B: "rendezvous B" and r: "running info ord s i c" and phase: "cl_phase c = Readying f t"
    and turn: "turn_directory B f t c (lk_master s) = Some q"
  shows "keeps info s i q"
proof -
  note L = ledgerD [OF runningD(1) [OF r] refl refl]
  have q: "q = (c\<lparr>cl_phase := Importing f (ms_clients (lk_master s)) 0\<rparr>, lk_master s)"
    and "b_open B (length (lk_clients s)) (ms_ready (lk_master s)) t"
    using turn L(3) by (auto simp: turn_directory_def m_ready_reply_def split: if_splits)
  then have "ms_ready (lk_master s) = length (lk_clients s)"
    using open_full [OF B L(1), of "ms_ready (lk_master s)" t] past_le [of 6 "lk_clients s"] L(10) by simp
  then show ?thesis
    using runningD [OF r] phase unfolding q by (intro keeps_quiet [OF r]) (auto simp: client_ok_def)
qed

lemma keeps_import:
  assumes r: "running info ord s i c" and phase: "cl_phase c = Importing f os idx"
  shows "keeps info s i (turn_import T f os idx c (lk_master s))"
proof (cases "idx < length os \<and> \<not> is_self (cl_cfg c) f (os ! idx)")
  case True
  then have "turn_import T f os idx c (lk_master s) = after_call c (lk_master s)
      (tr_import T idx (os ! idx) (cl_tr c)) (\<lambda>_ c. c\<lparr>cl_phase := Importing f os (idx + 1)\<rparr>)"
    by (simp add: turn_import_def)
  then show ?thesis
    using runningD [OF r] phase by (simp, intro keeps_call [OF r]) (auto simp: client_ok_def)
next
  case False
  define p where "p = (if idx < length os then Importing f os (idx + 1) else Fetching f os 0)"
  then have c': "turn_import T f os idx c (lk_master s) = (c\<lparr>cl_phase := p\<rparr>, lk_master s)"
    and p: "p = Fetching f os 0 \<or> p = Importing f os (idx + 1)"
    using False by (auto simp: turn_import_def)
  show ?thesis
    using runningD [OF r] phase p unfolding c' by (intro keeps_quiet [OF r]) (auto simp: client_ok_def)
qed

lemma keeps_fetch:
  assumes r: "running info ord s i c" and phase: "cl_phase c = Fetching f os rid"
  shows "keeps info s i (turn_fetch T net f os rid c (lk_master s))"
proof (cases "rid < total_records os \<and> owner_index os rid \<noteq> None \<and> \<not> holds_record f (cc_records (cl_cfg c)) rid")
  case True
  then obtain idx where "owner_index os rid = Some idx" by auto
  then have "turn_fetch T net f os rid c (lk_master s) = after_call c (lk_master s)
      (tr_read_record T net idx (os ! idx) rid (cl_tr c))
      (\<lambda>bs c. c\<lparr>cl_out := cl_out c @ [(rid, bs)], cl_phase := Fetching f os (rid + 1)\<rparr>)"
    using True by (auto simp: turn_fetch_def)
  then show ?thesis
    using runningD [OF r] phase by (simp, intro keeps_call [OF r]) (auto simp: client_ok_def)
next
  case False
  have go: "keeps info s i (c\<lparr>cl_phase := p\<rparr>, lk_master s)" if "p = Fetched \<or> p = Fetching f os (rid + 1)" for p
    using runningD [OF r] phase that by (intro keeps_quiet [OF r]) (auto simp: client_ok_def)
  show ?thesis
    using False go keeps_stopped(1) [OF r]
    by (cases "total_records os \<le> rid"; cases "owner_index os rid") (simp_all add: turn_fetch_def)
qed

lemma keeps_leave:
  assumes B: "rendezvous B" and r: "running info ord s i c" and phase: "cl_phase c = Leaving t"
    and turn: "turn_leave B t c (lk_master s) = Some q"
  shows "keeps info s i q"
proof -
  let ?m = "lk_master s" and ?c = "c\<lparr>cl_end := Some Finished\<rparr>"
  note L = ledgerD [OF runningD(1) [OF r] refl refl]
  have q: "q = (?c, ?m) \<or> q = (?c, ?m\<lparr>ms_shutdown := True\<rparr>)"
    and "b_open B (length (lk_clients s)) (ms_done ?m) t"
    using turn L(3) by (auto simp: turn_leave_def m_done_reply_def split: if_splits)
  then have full: "ms_done ?m = length (lk_clients s)"
    using open_full [OF B L(1), of "ms_done ?m" t] past_le [of 10 "lk_clients s"] L(11) by simp
  then have "client_ok ?m (length (lk_clients s)) (info i) ?c"
    using runningD(5) [OF r] phase unfolding client_ok_def by auto
  then have "ledger info ord (s\<lparr>lk_clients := (lk_clients s)[i := ?c]\<rparr>)"
    using runningD [OF r] by (intro ledger_quiet) simp_all
  then have "ledger info ord \<lparr>lk_master = ?m, lk_clients = (lk_clients s)[i := ?c]\<rparr>"
    "ledger info ord \<lparr>lk_master = ?m\<lparr>ms_shutdown := True\<rparr>, lk_clients = (lk_clients s)[i := ?c]\<rparr>"
    using full ledger_shutdown [of info ord "s\<lparr>lk_clients := (lk_clients s)[i := ?c]\<rparr>"]
    by (cases s; simp)+
  then show ?thesis using q by (elim disjE) (simp_all add: keepsI)
qed

lemmas keeps_turn = keeps_init keeps_register keeps_publish keeps_set_first keeps_write keeps_arrive
  keeps_import keeps_fetch

lemma client_turn_keeps:
  assumes B: "rendezvous B" and r: "running info ord s i c"
    and "run_client B T net (cl_phase c) c (lk_master s) = Some q"
  shows "keeps info s i q"
  using assms(3) by (cases "cl_phase c") (auto intro: keeps_turn [OF r] keeps_directory [OF B r] keeps_leave [OF B r])

text \<open>The start, and all reachable states.\<close>

lemma ledger_start:
  assumes "lookup_start s"
  shows "ledger info [] s"
proof -
  have zero: "past k (lk_clients s) = 0" if "0 < k" for k
    using assms that unfolding past_def sum_list_map_zero_iff by (auto simp: lookup_start_def)
  have "taken (lk_clients s) = 0"
    using assms unfolding taken_def sum_list_map_zero_iff by (auto simp: lookup_start_def)
  moreover have "lk_master s = \<lparr>ms_clients = [], ms_next_rid = 0, ms_expect = length (lk_clients s),
      ms_ready = 0, ms_done = 0, ms_shutdown = False\<rparr>" "0 < length (lk_clients s)" "length (lk_clients s) \<le> MAX_CLIENTS"
    using assms by (auto simp: lookup_start_def run_master_def split: if_splits)
  ultimately show ?thesis
    using assms zero unfolding ledger_def Let_def lookup_start_def client_ok_def by simp
qed

lemma lookup_step_keeps:
  assumes B: "rendezvous B" and led: "ledger info ord s" and step: "lookup_step B T s s'"
  shows "\<exists>info' ord'. ledger info' ord' s' \<and> extends s info info'"
  using step
proof cases
  case (turn i)
  then obtain q where q: "run_client B T (net_of T (lk_clients s)) (cl_phase (lk_clients s ! i)) (lk_clients s ! i)
        (lk_master s) = Some q" "s' = \<lparr>lk_master = snd q, lk_clients = (lk_clients s)[i := fst q]\<rparr>"
    and r: "running info ord s i (lk_clients s ! i)"
    using led by (auto simp: client_turn_def Let_def running_def split: if_splits)
  show ?thesis using client_turn_keeps [OF B r q(1)] q(2) by (auto simp: keeps_def)
next
  case (fault i e)
  then have "running info ord s i (lk_clients s ! i)" using led by (simp add: running_def)
  from keeps_stopped(1) [OF this, of "Failed e"] show ?thesis
    using fault by (cases s) (auto simp: keeps_def client_fails_def)
qed

lemma reachable_ledger:
  assumes "rendezvous B" and "lookup_start s" and "(lookup_step B T)\<^sup>*\<^sup>* s s'"
  obtains info ord where "ledger info ord s'"
proof -
  from assms(3) have "\<exists>info ord. ledger info ord s'"
  proof induction
    case base
    show ?case using ledger_start [OF assms(2)] by blast
  next
    case (step s1 s2)
    then show ?case using lookup_step_keeps [OF assms(1)] by blast
  qed
  then show ?thesis using that by blast
qed

end
