(* ===== verification/LookupRuns.thy ===== *)
theory LookupRuns
  imports Lookup
begin

text \<open>
  What the protocol of the lookup demo guarantees when as many clients run as the master expects:
  the directory, the order of the barriers, that every run ends, and what a failing client does to
  the others.
\<close>

section \<open>The directory\<close>

lemma holds_record_span:
  "unat (oi_first o') + unat (oi_cnt o') < 2 ^ 32 \<Longrightarrow>
     holds_record (oi_first o') (oi_cnt o') rid \<longleftrightarrow> unat rid \<in> span o'"
  by (auto simp: holds_record_def span_def word_le_nat_alt word_less_nat_alt unat_plus_no_overflow)

lemma span_bound:
  assumes "ledger info ord s" and "i < length (lk_clients s)" and "2 \<le> stage (cl_phase (lk_clients s ! i))"
  shows "unat (oi_first (info i)) + unat (oi_cnt (info i)) < 2 ^ 32"
    "span (info i) \<subseteq> {..<unat (ms_next_rid (lk_master s))}"
  using ledgerD(4) [OF assms(1) refl refl assms(2)] assms(3) unat_bound [of "ms_next_rid (lk_master s)"]
  by (auto simp: client_ok_def span_def)

lemma owner_place:
  assumes led: "ledger info ord s" and o': "o' \<in> set (ms_clients (lk_master s))"
  obtains i where "o' = info i" "i \<in> set ord" "i < length (lk_clients s)" "3 \<le> stage (cl_phase (lk_clients s ! i))"
  using ledgerD(7,9) [OF led refl refl] o' by auto

text \<open>The entries do not overlap.\<close>

lemma entries_disjoint:
  assumes led: "ledger info ord s" and "i < length (lk_clients s)" "j < length (lk_clients s)"
    and "2 \<le> stage (cl_phase (lk_clients s ! i))" "2 \<le> stage (cl_phase (lk_clients s ! j))"
    and "k \<in> span (info i)" "k \<in> span (info j)"
  shows "i = j"
proof -
  have "k < unat (ms_next_rid (lk_master s))" using span_bound(2) [OF led assms(2,4)] assms(6) by auto
  from ledgerD(6) [OF led refl refl this] show ?thesis using assms by blast
qed

text \<open>Once everyone is registered the entries cover all records below the total.\<close>

lemma of_nat_sum_list: "of_nat (sum_list (map f xs)) = sum_list (map (\<lambda>x. of_nat (f x)) xs)"
  by (induction xs) simp_all

lemma total_all:
  assumes led: "ledger info ord s" and all: "\<forall>c \<in> set (lk_clients s). 3 \<le> stage (cl_phase c)"
  shows "total_records (ms_clients (lk_master s)) = ms_next_rid (lk_master s)"
proof -
  let ?cs = "lk_clients s" and ?n = "length (lk_clients s)"
  note L = ledgerD [OF led refl refl]
  have "set ord = set [0..<?n]" using L(9) all by auto
  then have ord: "mset ord = mset [0..<?n]" 
    using L(8) set_eq_iff_mset_eq_distinct [of ord "[0..<?n]"] by simp
  have cnt: "oi_cnt (info i) = cc_records (cl_cfg (?cs ! i))" if "i < ?n" for i
  proof -
    have "3 \<le> stage (cl_phase (?cs ! i))" using all nth_mem [OF that] by blast
    then show ?thesis using L(4) [OF that] by (simp add: client_ok_def)
  qed
  have "total_records (ms_clients (lk_master s)) = sum_mset (image_mset (\<lambda>i. oi_cnt (info i)) (mset ord))"
    by (simp add: total_records_def L(7) comp_def sum_mset_sum_list [symmetric])
  also have "\<dots> = sum_list (map (\<lambda>i. oi_cnt (info i)) [0..<?n])"
    unfolding ord by (simp add: sum_mset_sum_list [symmetric])
  also have "map (\<lambda>i. oi_cnt (info i)) [0..<?n] = map (\<lambda>i. cc_records (cl_cfg (?cs ! i))) [0..<?n]"
    using cnt by simp
  also have "\<dots> = map (\<lambda>c. cc_records (cl_cfg c)) ?cs" by (rule nth_equalityI) simp_all
  also have "sum_list \<dots> = of_nat (taken ?cs)"
    unfolding taken_def of_nat_sum_list using all by (intro arg_cong [of _ _ sum_list]) auto
  also have "\<dots> = ms_next_rid (lk_master s)" unfolding L(5) [symmetric] by simp
  finally show ?thesis .
qed

lemma total_small:
  assumes led: "ledger info ord s" and all: "\<forall>c \<in> set (lk_clients s). 3 \<le> stage (cl_phase c)"
  shows "unat (total_records (ms_clients (lk_master s))) \<le> 1024"
    "length (ms_clients (lk_master s)) \<le> 16"
proof -
  note L = ledgerD [OF led refl refl]
  show "unat (total_records (ms_clients (lk_master s))) \<le> 1024"
    using taken_le [of "lk_clients s"] ledger_valid [OF led] L(2,5) by (simp add: total_all [OF led all])
  have "set ord \<subseteq> {..<length (lk_clients s)}" using L(9) by auto
  then have "card (set ord) \<le> card {..<length (lk_clients s)}" by (intro card_mono) simp_all
  then have "length ord \<le> length (lk_clients s)" using L(8) by (simp add: distinct_card)
  then show "length (ms_clients (lk_master s)) \<le> 16" using L(2,7) by simp
qed

text \<open>A client that has the directory: everyone has reached the first barrier.\<close>

lemma directory_all:
  assumes led: "ledger info ord s" and i: "i < length (lk_clients s)"
    and "7 \<le> stage (cl_phase (lk_clients s ! i))"
  shows "\<forall>c \<in> set (lk_clients s). 6 \<le> stage (cl_phase c)"
  using ledgerD(4,10) [OF led refl refl] assms past_all [of 6 "lk_clients s"] by (auto simp: client_ok_def)

lemma directory_owner:
  assumes led: "ledger info ord s" and all: "\<forall>c \<in> set (lk_clients s). 3 \<le> stage (cl_phase c)"
    and rid: "rid < total_records (ms_clients (lk_master s))"
  obtains idx i where "owner_index (ms_clients (lk_master s)) rid = Some idx" "idx < length ord" "ord ! idx = i"
    "i < length (lk_clients s)" "unat rid \<in> span (info i)" "holds_record (oi_first (info i)) (oi_cnt (info i)) rid"
proof -
  note L = ledgerD [OF led refl refl]
  have stage2: "2 \<le> stage (cl_phase (lk_clients s ! j))" if "j < length (lk_clients s)" for j
    using all nth_mem [OF that] by force
  have "unat rid < unat (ms_next_rid (lk_master s))" using rid by (simp add: total_all [OF led all] word_less_nat_alt)
  then obtain i where i: "i < length (lk_clients s)" "unat rid \<in> span (info i)" using L(6) by blast
  have held: "holds_record (oi_first (info i)) (oi_cnt (info i)) rid"
    using holds_record_span [OF span_bound(1) [OF led i(1) stage2 [OF i(1)]]] i(2) by simp
  have "i \<in> set ord" using L(9) i(1) all by force
  then have "owner_index (ms_clients (lk_master s)) rid \<noteq> None"
    using held by (auto simp: owner_index_def position_None_iff L(7))
  then obtain idx where idx: "owner_index (ms_clients (lk_master s)) rid = Some idx" by blast
  then have place: "idx < length ord"
    and "holds_record (oi_first (info (ord ! idx))) (oi_cnt (info (ord ! idx))) rid"
    by (auto simp: owner_index_def position_Some_iff L(7))
  moreover have at: "ord ! idx < length (lk_clients s)" using place L(9) nth_mem [OF place] by auto
  ultimately have "unat rid \<in> span (info (ord ! idx))"
    using holds_record_span [OF span_bound(1) [OF led at stage2 [OF at]]] by simp
  then have "ord ! idx = i" using entries_disjoint [OF led at i(1) stage2 [OF at] stage2 [OF i(1)]] i(2) by blast
  then show ?thesis using that idx place i held by blast
qed

lemma released:
  assumes B: "rendezvous B" and led: "ledger info ord s"
    and "b_open B (length (lk_clients s)) (ms_ready (lk_master s)) t"
  shows "\<forall>c \<in> set (lk_clients s). 6 \<le> stage (cl_phase c)"
proof -
  note L = ledgerD [OF led refl refl]
  have "ms_ready (lk_master s) = length (lk_clients s)"
    by (rule open_full [OF B L(1) _ assms(3)]) (simp add: L(10) past_le)
  then show ?thesis by (simp add: past_all [symmetric] L(10))
qed

section \<open>Every run ends\<close>

fun todo :: "phase \<Rightarrow> nat" where
  "todo Initial = 1052"
| "todo Registering = 1051"
| "todo (Reserved _) = 1050"
| "todo (Acked _) = 1049"
| "todo (Ranged _) = 1048"
| "todo (Written _) = 1047"
| "todo (Readying _ _) = 1046"
| "todo (Importing _ os idx) = 5 + unat (total_records os) + (length os - idx)"
| "todo (Fetching _ os rid) = 4 + (unat (total_records os) - unat rid)"
| "todo Fetched = 3"
| "todo (Leaving _) = 2"

definition client_todo :: "'t client \<Rightarrow> nat" where
  "client_todo c = (if cl_end c = None then todo (cl_phase c) else 0)"

definition all_todo :: "'t lookup \<Rightarrow> nat" where
  "all_todo s = sum_list (map client_todo (lk_clients s))"

lemma todo_pos: "0 < todo p"
  by (cases p) simp_all

lemma client_todo_stopped: "client_todo (c\<lparr>cl_end := Some w\<rparr>) = 0" "client_todo (c\<lparr>cl_tr := t, cl_end := Some w\<rparr>) = 0"
  by (simp_all add: client_todo_def)

lemma after_call_todo:
  assumes "cl_end c = None" and "\<And>x t. client_todo (k x (c\<lparr>cl_tr := t\<rparr>)) < todo (cl_phase c)"
  shows "client_todo (fst (after_call c m r k)) < todo (cl_phase c)"
proof -
  obtain c' m' where call: "after_call c m r k = (c', m')" by force
  show ?thesis unfolding call using call
    by (cases rule: after_call_cases) (simp_all add: client_todo_stopped todo_pos assms(2))
qed

lemma import_todo:
  assumes "cl_end c = None" and "cl_phase c = Importing f os idx"
  shows "client_todo (fst (turn_import T f os idx c m)) < todo (cl_phase c)"
proof (cases "idx < length os \<and> \<not> is_self (cl_cfg c) f (os ! idx)")
  case True
  then have eq: "turn_import T f os idx c m = after_call c m (tr_import T idx (os ! idx) (cl_tr c))
      (\<lambda>_ c. c\<lparr>cl_phase := Importing f os (idx + 1)\<rparr>)"
    by (simp add: turn_import_def)
  have "client_todo (c\<lparr>cl_tr := t, cl_phase := Importing f os (idx + 1)\<rparr>) < todo (cl_phase c)" for t
    using conjunct1 [OF True] assms by (simp add: client_todo_def Suc_diff_Suc)
  then show ?thesis unfolding eq by (rule after_call_todo [OF assms(1)])
next
  case False
  then show ?thesis using assms by (auto simp: turn_import_def client_todo_def)
qed

lemma fetch_todo:
  assumes "cl_end c = None" and "cl_phase c = Fetching f os rid"
  shows "client_todo (fst (turn_fetch T net f os rid c m)) < todo (cl_phase c)"
proof (cases "rid < total_records os")
  case True
  have "unat rid < unat (total_records os)" using True by (simp add: word_less_nat_alt)
  then have "unat (rid + 1) = unat rid + 1"
    using unat_bound [of "total_records os"] unat_plus_no_overflow [of rid 1] by simp
  then have less: "unat (total_records os) - unat (rid + 1) < unat (total_records os) - unat rid"
    using True by (simp add: word_less_nat_alt)
  have "client_todo (fst (after_call c m (tr_read_record T net idx (os ! idx) rid (cl_tr c))
      (\<lambda>bs c. c\<lparr>cl_out := cl_out c @ [(rid, bs)], cl_phase := Fetching f os (rid + 1)\<rparr>))) < todo (cl_phase c)" for idx
    by (rule after_call_todo [OF assms(1)]) (use less assms in \<open>simp add: client_todo_def\<close>)
  moreover have "client_todo (c\<lparr>cl_phase := Fetching f os (rid + 1)\<rparr>) < todo (cl_phase c)"
    using less assms by (simp add: client_todo_def)
  ultimately show ?thesis
    using True by (cases "owner_index os rid") (auto simp: turn_fetch_def client_todo_stopped todo_pos)
next
  case False
  then have "total_records os \<le> rid" by simp
  then show ?thesis using assms by (simp add: turn_fetch_def client_todo_def)
qed

lemma turn_todo:
  assumes B: "rendezvous B" and r: "running info ord s i c"
    and turn: "run_client B T net (cl_phase c) c (lk_master s) = Some q"
  shows "client_todo (fst q) < client_todo c"
proof -
  have run: "cl_end c = None" by (rule runningD(4) [OF r])
  have "client_todo (fst q) < todo (cl_phase c)"
  proof (cases "cl_phase c")
    case (Readying f t)
    then have "b_open B (length (lk_clients s)) (ms_ready (lk_master s)) t"
      and q: "q = (c\<lparr>cl_phase := Importing f (ms_clients (lk_master s)) 0\<rparr>, lk_master s)"
      using turn ledgerD(3) [OF runningD(1) [OF r] refl refl]
      by (auto simp: turn_directory_def m_ready_reply_def split: if_splits)
    then have "\<forall>c \<in> set (lk_clients s). 6 \<le> stage (cl_phase c)"
      using released [OF B runningD(1) [OF r]] by blast
    then have "\<forall>c \<in> set (lk_clients s). 3 \<le> stage (cl_phase c)" by force
    from total_small [OF runningD(1) [OF r] this] show ?thesis using run Readying by (simp add: q client_todo_def)
  next
    case (Importing f os idx)
    then show ?thesis using turn import_todo [OF run Importing, of T "lk_master s"] by simp
  next
    case (Fetching f os rid)
    then show ?thesis using turn fetch_todo [OF run Fetching, of T net "lk_master s"] by simp
  next
    case Initial
    then have eq: "q = after_call c (lk_master s) (case tr_init T (cl_tr c) of (r, t) \<Rightarrow> (Some r, t))
        (\<lambda>_ c. c\<lparr>cl_phase := Registering\<rparr>)"
      using turn by (simp add: turn_init_def)
    have "client_todo (c\<lparr>cl_tr := t, cl_phase := Registering\<rparr>) < todo (cl_phase c)" for t
      using run Initial by (simp add: client_todo_def)
    then show ?thesis unfolding eq by (rule after_call_todo [OF run])
  next
    case Registering
    then show ?thesis
      using turn run by (cases "m_register_reserve (register_msg T c) (cl_addr c) (lk_master s)"; cases "fst (m_register_reserve (register_msg T c) (cl_addr c) (lk_master s))")
        (auto simp: turn_register_def client_todo_def split: if_splits)
  next
    case (Ranged f)
    then show ?thesis
      using turn run by (auto simp: turn_write_def client_todo_def split: option.splits)
  qed (use turn run in \<open>auto simp: turn_publish_def m_register_publish_def turn_set_first_def turn_ready_def
      m_ready_arrive_def turn_done_def m_done_arrive_def turn_leave_def client_todo_def split: if_splits\<close>)
  then show ?thesis using run by (simp add: client_todo_def)
qed

lemma client_turn_todo:
  assumes B: "rendezvous B" and led: "ledger info ord s" and turn: "client_turn B T i s = Some s'"
  shows "all_todo s' < all_todo s"
proof -
  let ?cs = "lk_clients s"
  obtain q where q: "run_client B T (net_of T ?cs) (cl_phase (?cs ! i)) (?cs ! i) (lk_master s) = Some q"
      "s' = \<lparr>lk_master = snd q, lk_clients = ?cs[i := fst q]\<rparr>"
    and r: "running info ord s i (?cs ! i)"
    using turn led by (auto simp: client_turn_def Let_def running_def split: if_splits)
  have "all_todo s' + client_todo (?cs ! i) = all_todo s + client_todo (fst q)"
    using runningD(2) [OF r] by (simp add: all_todo_def q(2) sum_list_map_update)
  then show ?thesis using turn_todo [OF B r q(1)] by simp
qed

lemma turns_bounded:
  assumes B: "rendezvous B" and "ledger info ord s" and "take_turns B T is s = Some s'"
  shows "length is + all_todo s' \<le> all_todo s"
  using assms(2,3)
proof (induction "is" arbitrary: info ord s)
  case (Cons i "is")
  then obtain s1 where s1: "client_turn B T i s = Some s1" "take_turns B T is s1 = Some s'"
    by (auto simp: bind_eq_Some_conv)
  obtain info1 ord1 where "ledger info1 ord1 s1"
    using lookup_step_keeps [OF B Cons.prems(1)] lookup_step.turn [OF s1(1)] by blast
  then show ?case using Cons.IH [OF _ s1(2)] client_turn_todo [OF B Cons.prems(1) s1(1)] by fastforce
qed simp

text \<open>A client that cannot take a step waits at a barrier, or for a master that shut down.\<close>

lemma blocked_client:
  assumes r: "running info ord s i c" and none: "run_client B T net (cl_phase c) c (lk_master s) = None"
  shows "ms_shutdown (lk_master s) \<and> stage (cl_phase c) < 10
    \<or> (\<exists>f t. cl_phase c = Readying f t \<and> \<not> b_open B (length (lk_clients s)) (ms_ready (lk_master s)) t)
    \<or> (\<exists>t. cl_phase c = Leaving t \<and> \<not> b_open B (length (lk_clients s)) (ms_done (lk_master s)) t)"
  using none ledgerD(3) [OF runningD(1) [OF r] refl refl]
  by (cases "cl_phase c") (auto simp: turn_register_def turn_ready_def turn_done_def turn_directory_def
      m_ready_reply_def turn_leave_def m_done_reply_def split: if_splits)

lemma no_deadlock:
  assumes B: "rendezvous B" and led: "ledger info ord s"
    and stuck: "\<And>i. client_turn B T i s = None"
    and fine: "\<forall>c \<in> set (lk_clients s). cl_end c = None \<or> cl_end c = Some Finished"
  shows "\<forall>c \<in> set (lk_clients s). cl_end c = Some Finished"
proof (rule ccontr)
  let ?cs = "lk_clients s" and ?m = "lk_master s" and ?n = "length (lk_clients s)"
  note L = ledgerD [OF led refl refl]
  assume "\<not> ?thesis"
  then obtain i where i: "i < ?n" "cl_end (?cs ! i) \<noteq> Some Finished" by (auto simp: in_set_conv_nth)
  have ended: "cl_end (?cs ! j) = None \<or> cl_end (?cs ! j) = Some Finished" if "j < ?n" for j
    using fine nth_mem [OF that] by blast
  have waits: "running info ord s j (?cs ! j)
      \<and> run_client B T (net_of T ?cs) (cl_phase (?cs ! j)) (?cs ! j) ?m = None"
    if "j < ?n" "cl_end (?cs ! j) = None" for j
    using stuck [of j] that led by (simp add: client_turn_def Let_def running_def)
  have early: "stage (cl_phase (?cs ! j)) < 10 \<Longrightarrow> \<not> ms_shutdown ?m" if "j < ?n" for j
    using L(11,12) past_all [of 10 ?cs] nth_mem [OF that] by force
  have open_ready: "6 \<le> stage (cl_phase (?cs ! j))" if j: "j < ?n" for j
  proof (cases "cl_end (?cs ! j)")
    case None
    then show ?thesis using blocked_client [of info ord s j _ B T] waits [OF j] early [OF j] by fastforce
  next
    case (Some w)
    then show ?thesis using ended [OF j] L(4) [OF j] by (auto simp: client_ok_def)
  qed
  then have "ms_ready ?m = ?n" using L(10) past_all [of 6 ?cs] by (auto simp: in_set_conv_nth)
  then have late: "stage (cl_phase (?cs ! j)) = 10" if j: "j < ?n" for j
  proof (cases "cl_end (?cs ! j)")
    case None
    have "b_open B ?n (ms_ready ?m) t" if "cl_phase (?cs ! j) = Readying f t" for f t
      using L(4) [OF j] that open_when_full [OF B] \<open>ms_ready ?m = ?n\<close> by (simp add: client_ok_def)
    then show ?thesis using blocked_client [of info ord s j _ B T] waits [OF j None] early [OF j] by fastforce
  next
    case (Some w)
    then show ?thesis using ended [OF j] L(4) [OF j] by (auto simp: client_ok_def)
  qed
  then have full: "ms_done ?m = ?n" using L(11) past_all [of 10 ?cs] by (auto simp: in_set_conv_nth)
  have run: "cl_end (?cs ! i) = None" using ended [OF i(1)] i(2) by blast
  obtain t where "cl_phase (?cs ! i) = Leaving t" using late [OF i(1)] by (cases "cl_phase (?cs ! i)") simp_all
  moreover have "b_open B ?n (ms_done ?m) t"
    using L(4) [OF i(1)] calculation open_when_full [OF B] full by (simp add: client_ok_def)
  ultimately show False
    using blocked_client [of info ord s i _ B T] waits [OF i(1) run] early [OF i(1)] by fastforce
qed

text \<open>A client that ended stays as it is.\<close>

lemma ended_stays:
  assumes "lookup_step B T s s'" and "i < length (lk_clients s)" and "cl_end (lk_clients s ! i) \<noteq> None"
  shows "length (lk_clients s') = length (lk_clients s) \<and> lk_clients s' ! i = lk_clients s ! i"
  using assms
  by cases (auto simp: client_turn_def Let_def client_fails_def nth_list_update split: if_splits)

lemma ended_stays_rtrancl:
  assumes "(lookup_step B T)\<^sup>*\<^sup>* s s'" and "i < length (lk_clients s)" and "cl_end (lk_clients s ! i) \<noteq> None"
  shows "length (lk_clients s') = length (lk_clients s) \<and> lk_clients s' ! i = lk_clients s ! i"
  using assms by induction (use ended_stays in \<open>fastforce+\<close>)

lemma finished_all:
  assumes led: "ledger info ord s" and "c \<in> set (lk_clients s)" and "cl_end c = Some Finished"
  shows "\<forall>c \<in> set (lk_clients s). stage (cl_phase c) = 10"
proof -
  have "ms_done (lk_master s) = length (lk_clients s)"
    using ledgerD(4) [OF led refl refl] assms(2,3) by (force simp: in_set_conv_nth client_ok_def)
  then have "\<forall>c \<in> set (lk_clients s). 10 \<le> stage (cl_phase c)"
    using ledgerD(11) [OF led refl refl] by (simp add: past_all [symmetric])
  moreover have "stage p \<le> 10" for p by (cases p) simp_all
  ultimately show ?thesis by (metis le_antisym)
qed

lemma directory_with:
  assumes led: "ledger info ord s" and c: "c \<in> set (lk_clients s)" and dir: "directory (cl_phase c) = Some os"
  shows "os = ms_clients (lk_master s)" "\<forall>c \<in> set (lk_clients s). 6 \<le> stage (cl_phase c)"
proof -
  obtain i where i: "i < length (lk_clients s)" "lk_clients s ! i = c" using c by (auto simp: in_set_conv_nth)
  have "7 \<le> stage (cl_phase c)" using dir by (cases "cl_phase c") auto
  then show "\<forall>c \<in> set (lk_clients s). 6 \<le> stage (cl_phase c)" using directory_all [OF led i(1)] i(2) by simp
  show "os = ms_clients (lk_master s)" using ledgerD(4) [OF led refl refl i(1)] dir i(2) by (simp add: client_ok_def)
qed

lemma directory_unique:
  assumes led: "ledger info ord s" and all: "\<forall>c \<in> set (lk_clients s). 6 \<le> stage (cl_phase c)"
    and rid: "rid < total_records (ms_clients (lk_master s))"
  shows "\<exists>!k. k < length (ms_clients (lk_master s))
    \<and> holds_record (oi_first (ms_clients (lk_master s) ! k)) (oi_cnt (ms_clients (lk_master s) ! k)) rid"
proof -
  note L = ledgerD [OF led refl refl]
  have stage3: "\<forall>c \<in> set (lk_clients s). 3 \<le> stage (cl_phase c)" using all by force
  from directory_owner [OF led stage3 rid] obtain idx i where idx: "idx < length ord" "ord ! idx = i"
    "i < length (lk_clients s)" "unat rid \<in> span (info i)" "holds_record (oi_first (info i)) (oi_cnt (info i)) rid"
    by metis
  have stage2: "2 \<le> stage (cl_phase (lk_clients s ! j))" if "j < length (lk_clients s)" for j
    using all nth_mem [OF that] by force
  show ?thesis
  proof (rule ex1I [of _ idx])
    fix k assume "k < length (ms_clients (lk_master s))
      \<and> holds_record (oi_first (ms_clients (lk_master s) ! k)) (oi_cnt (ms_clients (lk_master s) ! k)) rid"
    then have k: "k < length ord" "holds_record (oi_first (info (ord ! k))) (oi_cnt (info (ord ! k))) rid"
      by (auto simp: L(7))
    have at: "ord ! k < length (lk_clients s)" using nth_mem [OF k(1)] L(9) by auto
    have "unat rid \<in> span (info (ord ! k))"
      using holds_record_span [OF span_bound(1) [OF led at stage2 [OF at]]] k(2) by simp
    then have "ord ! k = ord ! idx"
      using entries_disjoint [OF led at idx(3) stage2 [OF at] stage2 [OF idx(3)] _ idx(4)] idx(2) by simp
    then show "k = idx" using nth_eq_iff_index_eq [OF L(8) k(1) idx(1)] by simp
  qed (use idx in \<open>simp add: L(7)\<close>)
qed

lemma directory_size:
  assumes led: "ledger info ord s" and all: "\<forall>c \<in> set (lk_clients s). 6 \<le> stage (cl_phase c)"
  shows "length (ms_clients (lk_master s)) = length (lk_clients s)"
proof -
  note L = ledgerD [OF led refl refl]
  have "3 \<le> stage (cl_phase (lk_clients s ! i))" if "i < length (lk_clients s)" for i
    using all nth_mem [OF that] by force
  then have "set ord = {..<length (lk_clients s)}" using L(9) by auto
  then have "card (set ord) = length (lk_clients s)" by simp
  then show ?thesis using L(7,8) by (simp add: distinct_card)
qed

lemma turns_reach: "take_turns B T is s = Some s' \<Longrightarrow> (lookup_step B T)\<^sup>*\<^sup>* s s'"
proof (induction "is" arbitrary: s)
  case (Cons i "is")
  then obtain s1 where "client_turn B T i s = Some s1" "take_turns B T is s1 = Some s'"
    by (auto simp: bind_eq_Some_conv)
  then show ?case using Cons.IH lookup_step.turn converse_rtranclp_into_rtranclp by metis
qed simp

lemma sum_list_same: "\<forall>x \<in> set xs. f x = (k :: nat) \<Longrightarrow> sum_list (map f xs) = k * length xs"
  by (induction xs) auto

lemma start_todo:
  assumes "lookup_start s"
  shows "all_todo s \<le> 1052 * length (lk_clients s)"
proof -
  have "\<forall>c \<in> set (lk_clients s). client_todo c = 1052" using assms by (simp add: lookup_start_def client_todo_def)
  from sum_list_same [OF this] show ?thesis by (simp add: all_todo_def)
qed

section \<open>Properties\<close>

text \<open>
  C13 (the record directory). However the registrations of the clients interleave, and whatever fails,
  a client that was given the directory sees one entry for each of the clients the master expects,
  and every record id below the total lies in the range of exactly one entry.
\<close>

theorem lookup_directory:
  assumes "rendezvous B" and "lookup_start s" and "(lookup_step B T)\<^sup>*\<^sup>* s s'"
    and "c \<in> set (lk_clients s')" and "directory (cl_phase c) = Some os" and "rid < total_records os"
  shows "length os = length (lk_clients s')
    \<and> (\<exists>!k. k < length os \<and> holds_record (oi_first (os ! k)) (oi_cnt (os ! k)) rid)"
proof -
  obtain info ord where led: "ledger info ord s'" by (rule reachable_ledger [OF assms(1-3)])
  note dir = directory_with [OF led assms(4,5)]
  show ?thesis
    using directory_unique [OF led dir(2)] directory_size [OF led dir(2)] assms(6) by (simp add: dir(1))
qed

text \<open>
  C14 (the barriers). Nobody reads a record before every client has written its own, and nobody gives
  up its resources before every client has read all it wanted: a client past the first barrier sees
  all others at or past it, one released by the second sees all others there.
\<close>

theorem lookup_barriers:
  assumes "rendezvous B" and "lookup_start s" and "(lookup_step B T)\<^sup>*\<^sup>* s s'"
    and "c \<in> set (lk_clients s')" and "c' \<in> set (lk_clients s')"
  shows "(if directory (cl_phase c) = None then True else stage (Readying 0 0) \<le> stage (cl_phase c'))
    \<and> (if cl_end c = Some Finished then stage (cl_phase c') = stage (Leaving 0) else True)"
proof -
  obtain info ord where led: "ledger info ord s'" by (rule reachable_ledger [OF assms(1-3)])
  show ?thesis
    using directory_with(2) [OF led assms(4)] finished_all [OF led assms(4)] assms(5)
    by (cases "directory (cl_phase c)") auto
qed

text \<open>
  C15 (every run ends). In whatever order the clients take their turns, there are at most 1052 turns
  per client; and when no client can take a turn any more and none has failed, all have finished: the
  two barriers cannot deadlock.
\<close>

theorem lookup_ends:
  assumes "rendezvous B" and "lookup_start s" and "take_turns B T is s = Some s'"
  shows "length is \<le> 1052 * length (lk_clients s)
    \<and> (if (\<forall>i. client_turn B T i s' = None)
          \<and> list_all (\<lambda>c. cl_end c = None \<or> cl_end c = Some Finished) (lk_clients s')
       then list_all (\<lambda>c. cl_end c = Some Finished) (lk_clients s') else True)"
proof -
  have led: "ledger undefined [] s" by (rule ledger_start [OF assms(2)])
  have "(lookup_step B T)\<^sup>*\<^sup>* s s'" by (rule turns_reach [OF assms(3)])
  then obtain info ord where led': "ledger info ord s'" using reachable_ledger [OF assms(1,2)] by blast
  have "all_todo s \<le> 1052 * length (lk_clients s)" by (rule start_todo [OF assms(2)])
  then have "length is \<le> 1052 * length (lk_clients s)" using turns_bounded [OF assms(1) led assms(3)] by simp
  moreover have "\<forall>c \<in> set (lk_clients s'). cl_end c = Some Finished"
    if "\<forall>i. client_turn B T i s' = None" "\<forall>c \<in> set (lk_clients s'). cl_end c = None \<or> cl_end c = Some Finished"
    by (rule no_deadlock [OF assms(1) led', of T]) (use that in blast)+
  ultimately show ?thesis unfolding list_all_iff by presburger
qed

text \<open>
  C16 (a client that fails). When one of the clients ends with an error or a panic before it reaches the
  second barrier, none of the others ever finishes, however the run goes on: they wait at a barrier
  that cannot fill up, and so does the master.
\<close>

theorem failed_client_strands_all:
  assumes "rendezvous B" and "lookup_start s" and "(lookup_step B T)\<^sup>*\<^sup>* s s'"
    and "c \<in> set (lk_clients s')" and "cl_end c = Some w" and "stage (cl_phase c) < stage (Leaving 0)"
    and "(lookup_step B T)\<^sup>*\<^sup>* s' s''"
  shows "\<not> ms_shutdown (lk_master s'') \<and> list_all (\<lambda>c. cl_end c \<noteq> Some Finished) (lk_clients s'')"
proof -
  obtain i where i: "i < length (lk_clients s')" "lk_clients s' ! i = c"
    using assms(4) by (auto simp: in_set_conv_nth)
  have same: "length (lk_clients s'') = length (lk_clients s')" "lk_clients s'' ! i = c"
    using ended_stays_rtrancl [OF assms(7) i(1)] i(2) assms(5) by simp_all
  have "(lookup_step B T)\<^sup>*\<^sup>* s s''" using assms(3,7) by simp
  then obtain info ord where led: "ledger info ord s''" using reachable_ledger [OF assms(1,2)] by blast
  have mem: "c \<in> set (lk_clients s'')" using same i(1) nth_mem by metis
  have "\<forall>c \<in> set (lk_clients s''). 10 \<le> stage (cl_phase c)" if "ms_shutdown (lk_master s'')"
    using ledgerD(11,12) [OF led refl refl] that by (simp add: past_all [symmetric])
  then have "\<not> ms_shutdown (lk_master s'')" using mem assms(6) by fastforce
  moreover have "cl_end c' \<noteq> Some Finished" if "c' \<in> set (lk_clients s'')" for c'
    using finished_all [OF led that] mem assms(6) by force
  ultimately show ?thesis by (simp add: list_all_iff)
qed

end
