(* ===== verification/LookupRecords.thy ===== *)
theory LookupRecords
  imports LookupRuns
begin

text \<open>
  What a client of the lookup demo ends up with, for every transport that keeps the promises of the
  trait: a record reads back as its owner wrote it. The promises are the locale; the theory TcpHook
  proves them of the transport over HTTP.
\<close>

section \<open>What a client reads\<close>

definition owner_name :: "OwnerInfo list \<Rightarrow> u32 \<Rightarrow> string" where
  "owner_name owners rid = oi_name (owners ! the (owner_index owners rid))"

text \<open>The records below \<open>k\<close> that are not its own, in order, each as its owner wrote it.\<close>

definition others_records :: "OwnerInfo list \<Rightarrow> u32 \<Rightarrow> u32 \<Rightarrow> nat \<Rightarrow> (u32 \<times> bytes) list" where
  "others_records owners my_first cnt k =
     map (\<lambda>r. (of_nat r, fill_msg (record_text (owner_name owners (of_nat r)) (of_nat r))))
       (filter (\<lambda>r. \<not> holds_record my_first cnt (of_nat r)) [0..<k])"

lemma others_records_Suc:
  "others_records owners f cnt (Suc k) = others_records owners f cnt k
     @ (if holds_record f cnt (of_nat k) then []
        else [(of_nat k, fill_msg (record_text (owner_name owners (of_nat k)) (of_nat k)))])"
  by (simp add: others_records_def)

definition out_ok :: "OwnerInfo list \<Rightarrow> OwnerInfo \<Rightarrow> 't client \<Rightarrow> bool" where
  "out_ok owners o' c \<longleftrightarrow>
     cl_out c = (case cl_phase c of
         Fetching f os rid \<Rightarrow> others_records owners (oi_first o') (cc_records (cl_cfg c)) (unat rid)
       | p \<Rightarrow> if stage p < 8 then []
              else others_records owners (oi_first o') (cc_records (cl_cfg c)) (unat (total_records owners)))
     \<and> (\<forall>f os rid. cl_phase c = Fetching f os rid \<longrightarrow> rid \<le> total_records owners)"

text \<open>Ports are not zero, and no two processes listen on the same address and port.\<close>

definition endpoints_differ :: "(nat \<Rightarrow> u32) \<Rightarrow> 't lookup \<Rightarrow> bool" where
  "endpoints_differ port s \<longleftrightarrow>
     (\<forall>i < length (lk_clients s). port i \<noteq> 0 \<and> (\<forall>j < length (lk_clients s).
        octets_of (cl_addr (lk_clients s ! i)) = octets_of (cl_addr (lk_clients s ! j)) \<and> port i = port j
          \<longrightarrow> i = j))"

text \<open>No client has ended with an error or a panic.\<close>

definition unfailed :: "'t lookup \<Rightarrow> bool" where
  "unfailed s \<longleftrightarrow> (\<forall>c \<in> set (lk_clients s). cl_end c = None \<or> cl_end c = Some Finished)"

section \<open>The promises of a transport\<close>

locale record_transport =
  fixes T :: "'t Transport"
    and fresh :: "u32 \<Rightarrow> u32 \<Rightarrow> 't \<Rightarrow> bool"
    and started :: "u32 \<Rightarrow> 't \<Rightarrow> bool"
    and ranged :: "u32 \<Rightarrow> u32 \<Rightarrow> 't \<Rightarrow> bool"
    and serves :: "string \<Rightarrow> u32 \<Rightarrow> u32 \<Rightarrow> 't \<Rightarrow> bool"
  assumes init_ok: "fresh p cnt t \<Longrightarrow>
      \<exists>t'. tr_init T t = (Inr (), t') \<and> started cnt t' \<and> tr_data_port T t' = p"
    and first_ok: "started cnt t \<Longrightarrow>
      ranged f cnt (tr_set_first T f t) \<and> tr_data_port T (tr_set_first T f t) = tr_data_port T t"
    and write_ok: "ranged f (cc_records cfg) t \<Longrightarrow> valid_cfg cfg \<Longrightarrow>
      \<exists>t'. tr_with_buf T (fill_buf cfg f) t = Some t' \<and> serves (cc_name cfg) f (cc_records cfg) t'
        \<and> tr_data_port T t' = tr_data_port T t"
    and import_ok: "serves n f cnt t \<Longrightarrow> oi_port o' \<noteq> 0 \<Longrightarrow>
      \<exists>t'. tr_import T idx o' t = (Some (Inr ()), t') \<and> serves n f cnt t' \<and> tr_data_port T t' = tr_data_port T t"
    and read_ok: "serves n f cnt t \<Longrightarrow> net (oi_addr o') (oi_port o') = Some t2 \<Longrightarrow>
      serves (oi_name o') (oi_first o') (oi_cnt o') t2 \<Longrightarrow> unat (oi_first o') + unat (oi_cnt o') < 2 ^ 32 \<Longrightarrow>
      holds_record (oi_first o') (oi_cnt o') rid \<Longrightarrow>
      \<exists>t'. tr_read_record T net idx o' rid t = (Some (Inr (fill_msg (record_text (oi_name o') rid))), t')
        \<and> serves n f cnt t' \<and> tr_data_port T t' = tr_data_port T t"
    and read_down: "net (oi_addr o') (oi_port o') = None \<Longrightarrow>
      \<exists>e t'. tr_read_record T net idx o' rid t = (Some (Inl e), t')"
begin

definition stored :: "u32 \<Rightarrow> OwnerInfo \<Rightarrow> 't client \<Rightarrow> bool" where
  "stored p o' c \<longleftrightarrow>
     (if stage (cl_phase c) = 0 then fresh p (cc_records (cl_cfg c)) (cl_tr c)
        else tr_data_port T (cl_tr c) = p)
     \<and> (stage (cl_phase c) \<in> {1, 2, 3} \<longrightarrow> started (cc_records (cl_cfg c)) (cl_tr c))
     \<and> (stage (cl_phase c) = 4 \<longrightarrow> ranged (oi_first o') (cc_records (cl_cfg c)) (cl_tr c))
     \<and> (5 \<le> stage (cl_phase c) \<longrightarrow> serves (cc_name (cl_cfg c)) (oi_first o') (cc_records (cl_cfg c)) (cl_tr c))
     \<and> (2 \<le> stage (cl_phase c) \<longrightarrow> oi_addr o' = octets_of (cl_addr c) \<and> oi_port o' = p)"

text \<open>What holds of a client with entry \<open>o'\<close>, next to the invariant of the protocol.\<close>

definition turns_well :: "u32 \<Rightarrow> OwnerInfo \<Rightarrow> OwnerInfo list \<Rightarrow> 't client \<Rightarrow> bool" where
  "turns_well p o' os c \<longleftrightarrow>
     (2 \<le> stage (cl_phase c) \<longrightarrow> oi_addr o' = octets_of (cl_addr c) \<and> oi_port o' = p)
     \<and> (cl_end c = None \<longrightarrow> stored p o' c) \<and> out_ok os o' c"

definition reads_ok :: "(nat \<Rightarrow> u32) \<Rightarrow> (nat \<Rightarrow> OwnerInfo) \<Rightarrow> 't lookup \<Rightarrow> nat \<Rightarrow> bool" where
  "reads_ok port info s i \<longleftrightarrow> turns_well (port i) (info i) (ms_clients (lk_master s)) (lk_clients s ! i)"

lemma reads_okD:
  assumes "reads_ok port info s i" and "c = lk_clients s ! i"
  shows "2 \<le> stage (cl_phase c) \<Longrightarrow> oi_addr (info i) = octets_of (cl_addr c) \<and> oi_port (info i) = port i"
    "cl_end c = None \<Longrightarrow> stored (port i) (info i) c" "out_ok (ms_clients (lk_master s)) (info i) c"
  using assms by (simp_all add: reads_ok_def turns_well_def)

text \<open>Whoever serves a range is found where its entry says.\<close>

lemma listens_only:
  assumes differ: "endpoints_differ port s" and i: "i < length (lk_clients s)" and j: "j < length (lk_clients s)"
    and ok: "\<forall>i < length (lk_clients s). reads_ok port info s i" and up: "2 \<le> stage (cl_phase (lk_clients s ! j))"
    and p: "listening T (oi_addr (info j)) (oi_port (info j)) (lk_clients s ! i)"
  shows "i = j"
proof -
  let ?cs = "lk_clients s"
  have "stage (cl_phase (?cs ! i)) \<noteq> 0" "cl_end (?cs ! i) = None"
    using p by (cases "cl_phase (?cs ! i)"; auto simp: listening_def)+
  then have "tr_data_port T (cl_tr (?cs ! i)) = port i"
    using reads_okD(2) [OF _ refl, of port info s i] ok i by (simp add: stored_def)
  moreover have "oi_addr (info j) = octets_of (cl_addr (?cs ! j))" "oi_port (info j) = port j"
    using reads_okD(1) [OF _ refl, of port info s j] ok j up by simp_all
  ultimately have "octets_of (cl_addr (?cs ! i)) = octets_of (cl_addr (?cs ! j)) \<and> port i = port j"
    using p by (simp add: listening_def)
  then show ?thesis using differ i j unfolding endpoints_differ_def by blast
qed

lemma net_finds:
  assumes differ: "endpoints_differ port s" and j: "j < length (lk_clients s)"
    and ok: "\<forall>i < length (lk_clients s). reads_ok port info s i" and up: "2 \<le> stage (cl_phase (lk_clients s ! j))"
  shows "net_of T (lk_clients s) (oi_addr (info j)) (oi_port (info j))
    = (if cl_end (lk_clients s ! j) = None then Some (cl_tr (lk_clients s ! j)) else None)"
proof -
  let ?cs = "lk_clients s" and ?p = "listening T (oi_addr (info j)) (oi_port (info j))"
  have only: "i = j" if "i < length ?cs" "?p (?cs ! i)" for i
    by (rule listens_only [OF differ that(1) j ok up that(2)])
  show ?thesis
  proof (cases "cl_end (?cs ! j) = None")
    case True
    have "?p (?cs ! j)"
      using reads_okD [OF _ refl, of port info s j] ok j up True by (auto simp: stored_def listening_def)
    then have "List.find ?p ?cs = Some (?cs ! j)"
      unfolding find_Some_iff using only j by (metis less_trans less_irrefl)
    then show ?thesis using True by (simp add: net_of_def)
  next
    case False
    then have "\<not> ?p (?cs ! j)" by (simp add: listening_def)
    then have "List.find ?p ?cs = None" using only by (auto simp: find_None_iff in_set_conv_nth)
    then show ?thesis using False by (simp add: net_of_def)
  qed
qed

lemma out_ok_early: "stage (cl_phase c) < 8 \<Longrightarrow> out_ok os o' c \<longleftrightarrow> cl_out c = []"
  by (cases "cl_phase c") (simp_all add: out_ok_def)

lemma stored_early: "stage (cl_phase c) < 2 \<Longrightarrow> stored p o' c \<longleftrightarrow> stored p o2 c"
  by (auto simp: stored_def)

text \<open>A turn of one client leaves the others alone.\<close>

lemma turn_directory_same:
  "run_client B T net (cl_phase c) c m = Some (c', m') \<Longrightarrow> stage (cl_phase c) \<noteq> 2 \<Longrightarrow>
     ms_clients m' = ms_clients m"
  by (cases "cl_phase c") (auto simp: turn_init_def turn_register_def m_register_reserve_def turn_ready_def
      m_ready_arrive_def turn_directory_def turn_import_def turn_fetch_def turn_done_def m_done_arrive_def
      turn_leave_def m_done_reply_def after_call_def Let_def split: if_splits prod.splits option.splits sum.splits)

lemma others_keep:
  assumes r: "running info ord s i c" and ext: "extends s info info'"
    and turn: "run_client B T net (cl_phase c) c (lk_master s) = Some (c', m')"
    and j: "j < length (lk_clients s)" "j \<noteq> i" and ok: "reads_ok port info s j"
  shows "reads_ok port info' \<lparr>lk_master = m', lk_clients = (lk_clients s)[i := c']\<rparr> j"
proof -
  let ?c = "lk_clients s ! j"
  note led = runningD(1) [OF r]
  have early: "reads_ok port info' \<lparr>lk_master = m', lk_clients = (lk_clients s)[i := c']\<rparr> j" if "stage (cl_phase ?c) < 2"
    using ok that j(2) stored_early [OF that, of "port j" "info j" "info' j"]
    by (simp add: reads_ok_def turns_well_def out_ok_early)
  show ?thesis
  proof (cases "stage (cl_phase ?c) < 8")
    case True
    then show ?thesis using ok j ext early
      by (cases "stage (cl_phase ?c) < 2") (auto simp: reads_ok_def turns_well_def out_ok_early extends_def)
  next
    case False
    then have "6 \<le> stage (cl_phase c)"
      using directory_all [OF led j(1)] runningD(2,3) [OF r] nth_mem by fastforce
    then have "ms_clients m' = ms_clients (lk_master s)" by (intro turn_directory_same [OF turn]) simp
    then show ?thesis using ok j False ext by (auto simp: reads_ok_def turns_well_def extends_def)
  qed
qed

text \<open>The turn itself, phase by phase.\<close>

lemma well_failed:
  "turns_well p o' os c \<Longrightarrow> turns_well p o' os (c\<lparr>cl_end := Some w\<rparr>)"
  "turns_well p o' os c \<Longrightarrow> turns_well p o' os (c\<lparr>cl_tr := t, cl_end := Some w\<rparr>)"
  by (simp_all add: turns_well_def out_ok_def cong: phase.case_cong)

lemma well_init:
  assumes "turns_well p o' os c" and "cl_phase c = Initial" and "cl_end c = None"
  shows "turns_well p o2 os (fst (turn_init T c m)) \<and> cl_end (fst (turn_init T c m)) = None"
proof -
  have "fresh p (cc_records (cl_cfg c)) (cl_tr c)" "cl_out c = []"
    using assms by (simp_all add: turns_well_def stored_def out_ok_def)
  then show ?thesis
    using init_ok [of p "cc_records (cl_cfg c)" "cl_tr c"] assms(3)
    by (auto simp: turn_init_def after_call_def turns_well_def stored_def out_ok_def)
qed

lemma well_register:
  assumes "turns_well p o' os c" and "cl_phase c = Registering" and "cl_end c = None" and "valid_cfg (cl_cfg c)"
    and "turn_register T c m = Some (c', m')"
  shows "\<exists>x. cl_phase c' = Reserved x \<and> turns_well p x os' c' \<and> cl_end c' = None"
  using assms
  by (auto simp: turn_register_def m_register_reserve_def register_msg_def valid_cfg_def turns_well_def
      stored_def out_ok_def split: if_splits)

lemma well_set_first:
  assumes "turns_well p o' os c" and "cl_phase c = Acked (oi_first o')" and "cl_end c = None"
  shows "turns_well p o' os (turn_set_first T (oi_first o') c) \<and> cl_end (turn_set_first T (oi_first o') c) = None"
  using assms first_ok [of "cc_records (cl_cfg c)" "cl_tr c" "oi_first o'"]
  by (simp add: turn_set_first_def turns_well_def stored_def out_ok_def)

lemma well_write:
  assumes "turns_well p o' os c" and "cl_phase c = Ranged (oi_first o')" and "cl_end c = None"
    and "valid_cfg (cl_cfg c)"
  shows "turns_well p o' os (turn_write T (oi_first o') c) \<and> cl_end (turn_write T (oi_first o') c) = None"
proof -
  have "ranged (oi_first o') (cc_records (cl_cfg c)) (cl_tr c)"
    using assms by (simp add: turns_well_def stored_def)
  from write_ok [OF this assms(4)] show ?thesis
    using assms by (auto simp: turn_write_def turns_well_def stored_def out_ok_def)
qed

text \<open>Steps that change the phase only, between phases in which the store serves the range.\<close>

lemma well_phase:
  assumes "turns_well p o' os c" and "3 \<le> stage (cl_phase c)" and "stage (cl_phase c) = 3 \<longleftrightarrow> stage q = 3"
    and "stage (cl_phase c) \<noteq> 4" and "stage q \<noteq> 4" and "3 \<le> stage q" and "out_ok os o' (c\<lparr>cl_phase := q\<rparr>)"
  shows "turns_well p o' os (c\<lparr>cl_phase := q\<rparr>)"
  using assms by (auto simp: turns_well_def stored_def)

lemma well_import:
  assumes well: "turns_well p o' os c" and phase: "cl_phase c = Importing f os idx" and run: "cl_end c = None"
    and ports: "\<forall>x \<in> set os. oi_port x \<noteq> 0"
  shows "turns_well p o' os (fst (turn_import T f os idx c m)) \<and> cl_end (fst (turn_import T f os idx c m)) = None"
proof (cases "idx < length os \<and> \<not> is_self (cl_cfg c) f (os ! idx)")
  case True
  then have "oi_port (os ! idx) \<noteq> 0" using ports by simp
  moreover have "serves (cc_name (cl_cfg c)) (oi_first o') (cc_records (cl_cfg c)) (cl_tr c)"
    using well phase run by (simp add: turns_well_def stored_def)
  ultimately obtain t' where "tr_import T idx (os ! idx) (cl_tr c) = (Some (Inr ()), t')"
    "serves (cc_name (cl_cfg c)) (oi_first o') (cc_records (cl_cfg c)) t'" "tr_data_port T t' = tr_data_port T (cl_tr c)"
    using import_ok by blast
  then show ?thesis
    using True well phase run
    by (simp add: turn_import_def after_call_def turns_well_def stored_def out_ok_def)
next
  case False
  then show ?thesis
    using well phase run
    by (auto simp: turn_import_def turns_well_def stored_def out_ok_def others_records_def)
qed

lemma next_rid:
  assumes "rid < (n :: u32)"
  shows "unat (rid + 1) = Suc (unat rid)" "rid + 1 \<le> n" "of_nat (unat rid) = rid"
proof -
  have less: "unat rid < unat n" using assms by (simp add: word_less_nat_alt)
  then show "unat (rid + 1) = Suc (unat rid)"
    using unat_bound [of n] unat_plus_no_overflow [of rid 1] by simp
  then show "rid + 1 \<le> n" using less by (simp add: word_le_nat_alt)
qed simp

text \<open>Fetching a record from its owner \<open>j\<close>: it is found and answers, or it has failed and so does the
client.\<close>

lemma well_read:
  assumes r: "running info ord s i c" and phase: "cl_phase c = Fetching (oi_first (info i)) os rid"
    and differ: "endpoints_differ port s" and ok: "\<forall>i < length (lk_clients s). reads_ok port info s i"
    and well: "turns_well (port i) (info i) os c" and rid: "rid < total_records os"
    and foreign: "\<not> holds_record (oi_first (info i)) (cc_records (cl_cfg c)) rid"
    and j: "j < length (lk_clients s)" "6 \<le> stage (cl_phase (lk_clients s ! j))"
    and owner: "holds_record (oi_first (info j)) (oi_cnt (info j)) rid" "owner_name os rid = oi_name (info j)"
    and call: "after_call c (lk_master s) (tr_read_record T (net_of T (lk_clients s)) idx (info j) rid (cl_tr c))
      (\<lambda>bs c. c\<lparr>cl_out := cl_out c @ [(rid, bs)], cl_phase := Fetching (oi_first (info i)) os (rid + 1)\<rparr>) = (c', m')"
  shows "turns_well (port i) (info i) os c' \<and> (unfailed s \<longrightarrow> cl_end c' = None)"
proof -
  let ?net = "net_of T (lk_clients s)"
  note led = runningD(1) [OF r] and here = runningD(2,3) [OF r] and run = runningD(4) [OF r]
  have stage2: "2 \<le> stage (cl_phase (lk_clients s ! j))" using j(2) by simp
  note net = net_finds [OF differ j(1) ok stage2] and step = next_rid [OF rid]
  show ?thesis
  proof (cases "cl_end (lk_clients s ! j)")
    case (Some w)
    then have "?net (oi_addr (info j)) (oi_port (info j)) = None" using net by simp
    then obtain e t' where "tr_read_record T ?net idx (info j) rid (cl_tr c) = (Some (Inl e), t')"
      using read_down by blast
    moreover have "w \<noteq> Finished"
      using finished_all [OF led, of "lk_clients s ! j"] Some j(1) here phase nth_mem by fastforce
    ultimately show ?thesis
      using call well_failed(2) [OF well] Some j(1) nth_mem by (fastforce simp: after_call_def unfailed_def)
  next
    case None
    then have up: "?net (oi_addr (info j)) (oi_port (info j)) = Some (cl_tr (lk_clients s ! j))" using net by simp
    have "stored (port j) (info j) (lk_clients s ! j)" using reads_okD(2) [OF _ refl None] ok j(1) by blast
    then have "serves (oi_name (info j)) (oi_first (info j)) (oi_cnt (info j)) (cl_tr (lk_clients s ! j))"
      using j(2) ledgerD(4) [OF led refl refl j(1)] by (simp add: stored_def client_ok_def)
    moreover have "serves (cc_name (cl_cfg c)) (oi_first (info i)) (cc_records (cl_cfg c)) (cl_tr c)"
      using well phase run by (simp add: turns_well_def stored_def)
    ultimately obtain t' where "tr_read_record T ?net idx (info j) rid (cl_tr c)
        = (Some (Inr (fill_msg (record_text (oi_name (info j)) rid))), t')"
      "serves (cc_name (cl_cfg c)) (oi_first (info i)) (cc_records (cl_cfg c)) t'"
      "tr_data_port T t' = tr_data_port T (cl_tr c)"
      using read_ok [of _ _ _ "cl_tr c" ?net "info j", OF _ up _ span_bound(1) [OF led j(1) stage2] owner(1)] by blast
    then show ?thesis
      using call well phase run foreign step owner(2)
      by (auto simp: after_call_def turns_well_def stored_def out_ok_def others_records_Suc)
  qed
qed

lemma well_fetch:
  assumes r: "running info ord s i c" and phase: "cl_phase c = Fetching f os rid"
    and differ: "endpoints_differ port s" and ok: "\<forall>i < length (lk_clients s). reads_ok port info s i"
    and turn: "turn_fetch T (net_of T (lk_clients s)) f os rid c (lk_master s) = (c', m')"
  shows "turns_well (port i) (info i) os c' \<and> (unfailed s \<longrightarrow> cl_end c' = None)"
proof -
  note led = runningD(1) [OF r] and here = runningD(2,3) [OF r] and run = runningD(4) [OF r]
  note L = ledgerD [OF led refl refl]
  have os: "os = ms_clients (lk_master s)" and f: "f = oi_first (info i)"
    using runningD(5) [OF r] phase by (simp_all add: client_ok_def)
  have well: "turns_well (port i) (info i) os c" using ok here unfolding reads_ok_def os by blast
  have all: "\<forall>c \<in> set (lk_clients s). 6 \<le> stage (cl_phase c)"
    using directory_all [OF led here(1)] here(2) phase by simp
  then have stage3: "\<forall>c \<in> set (lk_clients s). 3 \<le> stage (cl_phase c)" by force
  show ?thesis
  proof (cases "rid < total_records os")
    case False
    then have "rid = total_records os" using well phase by (auto simp: turns_well_def out_ok_def)
    then show ?thesis using turn well phase run by (auto simp: turn_fetch_def turns_well_def stored_def out_ok_def)
  next
    case True
    then have more: "\<not> total_records os \<le> rid" by simp
    obtain idx j where idx: "owner_index os rid = Some idx" "idx < length ord" "ord ! idx = j"
      "j < length (lk_clients s)" "holds_record (oi_first (info j)) (oi_cnt (info j)) rid"
      using directory_owner [OF led stage3] True unfolding os by metis
    have oj: "os ! idx = info j" using idx by (simp add: os L(7))
    then have name: "owner_name os rid = oi_name (info j)" by (simp add: owner_name_def idx)
    show ?thesis
    proof (cases "holds_record f (cc_records (cl_cfg c)) rid")
      case own: True
      then have "c' = c\<lparr>cl_phase := Fetching f os (rid + 1)\<rparr>" using turn more idx(1) by (simp add: turn_fetch_def)
      then show ?thesis
        using well phase run own next_rid [OF True] f
        by (auto simp: turns_well_def stored_def out_ok_def others_records_Suc)
    next
      case foreign: False
      have "6 \<le> stage (cl_phase (lk_clients s ! j))" using all idx(4) by simp
      moreover have "after_call c (lk_master s) (tr_read_record T (net_of T (lk_clients s)) idx (info j) rid (cl_tr c))
          (\<lambda>bs c. c\<lparr>cl_out := cl_out c @ [(rid, bs)], cl_phase := Fetching f os (rid + 1)\<rparr>) = (c', m')"
        using turn more foreign idx(1) oj by (simp add: turn_fetch_def)
      ultimately show ?thesis
        using well_read [OF r _ differ ok well True _ idx(4) _ idx(5) name] phase foreign f by simp
    qed
  qed
qed

lemma well_out: "out_ok os o' c \<Longrightarrow> stage (cl_phase c) < 8 \<Longrightarrow> stage q < 8 \<Longrightarrow> out_ok os2 o' (c\<lparr>cl_phase := q\<rparr>)"
  by (simp add: out_ok_early)

lemma well_directory: "turns_well p o' os c \<Longrightarrow> stage (cl_phase c) < 8 \<Longrightarrow> turns_well p o' os2 c"
  by (simp add: turns_well_def out_ok_early)

lemma own_turn:
  assumes r: "running info ord s i c" and differ: "endpoints_differ port s"
    and ok: "\<forall>i < length (lk_clients s). reads_ok port info s i"
    and turn: "run_client B T (net_of T (lk_clients s)) (cl_phase c) c (lk_master s) = Some (c', m')"
    and after: "client_ok m' n (info' i) c'" and ext: "extends s info info'"
  shows "turns_well (port i) (info' i) (ms_clients m') c'
    \<and> (unfailed s \<longrightarrow> cl_end c' = None \<or> cl_end c' = Some Finished)"
proof -
  let ?os = "ms_clients (lk_master s)"
  note led = runningD(1) [OF r] and here = runningD(2,3) [OF r] and run = runningD(4) [OF r]
    and cok = runningD(5) [OF r]
  have well: "turns_well (port i) (info i) ?os c" using ok here unfolding reads_ok_def by blast
  have valid: "valid_cfg (cl_cfg c)" using ledger_valid [OF led] here nth_mem by blast
  have same: "info' i = info i" if "2 \<le> stage (cl_phase c)"
    using ext that here by (simp add: extends_def)
  have dir: "ms_clients m' = ?os" if "stage (cl_phase c) \<noteq> 2" by (rule turn_directory_same [OF turn that])
  show ?thesis
  proof (cases "cl_phase c")
    case Initial
    then have "c' = fst (turn_init T c (lk_master s))" using turn by (cases "turn_init T c (lk_master s)") simp
    then show ?thesis using well_init [OF well Initial run, of "info' i" "lk_master s"] dir Initial by simp
  next
    case Registering
    then have "turn_register T c (lk_master s) = Some (c', m')" using turn by simp
    from well_register [OF well Registering run valid this, of "ms_clients m'"] obtain x where
      x: "cl_phase c' = Reserved x" "turns_well (port i) x (ms_clients m') c'" "cl_end c' = None" by blast
    then have "info' i = x" using after by (simp add: client_ok_def)
    then show ?thesis using x by simp
  next
    case (Reserved x)
    then have c': "c' = c\<lparr>cl_phase := Acked (oi_first x)\<rparr>" using turn by (simp add: turn_publish_def m_register_publish_def)
    then have "turns_well (port i) (info i) (ms_clients m') c'"
      using well run Reserved by (simp add: turns_well_def stored_def out_ok_early)
    then show ?thesis using same Reserved run c' by simp
  next
    case (Acked f)
    then have "f = oi_first (info i)" using cok by (simp add: client_ok_def)
    then show ?thesis
      using well_set_first [OF well _ run] Acked turn dir same by simp
  next
    case (Ranged f)
    then have "f = oi_first (info i)" using cok by (simp add: client_ok_def)
    then show ?thesis
      using well_write [OF well _ run valid] Ranged turn dir same by simp
  next
    case (Written f)
    then obtain q where "c' = c\<lparr>cl_phase := q\<rparr>" "stage q = 6"
      using turn by (auto simp: turn_ready_def m_ready_arrive_def split: if_splits)
    moreover have "turns_well (port i) (info i) ?os (c\<lparr>cl_phase := q\<rparr>)"
      using well Written calculation by (intro well_phase) (simp_all add: turns_well_def out_ok_early)
    ultimately show ?thesis using Written dir same run by simp
  next
    case (Readying f t)
    then obtain q where "c' = c\<lparr>cl_phase := q\<rparr>" "stage q = 7"
      using turn by (auto simp: turn_directory_def m_ready_reply_def split: if_splits)
    moreover have "turns_well (port i) (info i) ?os (c\<lparr>cl_phase := q\<rparr>)"
      using well Readying calculation by (intro well_phase) (simp_all add: turns_well_def out_ok_early)
    ultimately show ?thesis using Readying dir same run by simp
  next
    case (Importing f os idx)
    have os: "os = ?os" using cok Importing by (simp add: client_ok_def)
    have "\<forall>x \<in> set ?os. oi_port x \<noteq> 0"
    proof
      fix x assume "x \<in> set ?os"
      then obtain j where j: "x = info j" "j < length (lk_clients s)" "3 \<le> stage (cl_phase (lk_clients s ! j))"
        by (rule owner_place [OF led])
      then show "oi_port x \<noteq> 0"
        using differ reads_okD(1) [OF _ refl, of port info s j] ok by (auto simp: endpoints_differ_def)
    qed
    moreover have imp: "cl_phase c = Importing f ?os idx" using Importing os by simp
    moreover have "c' = fst (turn_import T f ?os idx c (lk_master s))" using turn imp by simp
    ultimately show ?thesis
      using well_import [OF well imp run, of "lk_master s"] dir same by simp
  next
    case (Fetching f os rid)
    have os: "os = ?os" using cok Fetching by (simp add: client_ok_def)
    show ?thesis
      using well_fetch [OF r Fetching differ ok, of c' m'] turn Fetching dir same os by auto
  next
    case Fetched
    then have c': "c' = c\<lparr>cl_phase := Leaving (ms_done (lk_master s))\<rparr>"
      using turn by (auto simp: turn_done_def m_done_arrive_def split: if_splits)
    have "turns_well (port i) (info i) ?os c'"
      unfolding c' using well Fetched by (intro well_phase) (auto simp: turns_well_def out_ok_def)
    then show ?thesis using Fetched dir same run c' by simp
  next
    case (Leaving t)
    then have c': "c' = c\<lparr>cl_end := Some Finished\<rparr>"
      using turn by (auto simp: turn_leave_def m_done_reply_def split: if_splits)
    then show ?thesis using well_failed(1) [OF well] Leaving dir same by simp
  qed
qed

text \<open>Every step keeps what the clients hold; a turn makes no client fail unless one had failed.\<close>

definition reading :: "(nat \<Rightarrow> u32) \<Rightarrow> (nat \<Rightarrow> OwnerInfo) \<Rightarrow> 't lookup \<Rightarrow> bool" where
  "reading port info s \<longleftrightarrow>
     (\<exists>ord. ledger info ord s) \<and> endpoints_differ port s \<and> (\<forall>i < length (lk_clients s). reads_ok port info s i)"

lemma endpoints_update:
  assumes "endpoints_differ port s" and "cl_addr c = cl_addr (lk_clients s ! i)"
  shows "endpoints_differ port \<lparr>lk_master = m, lk_clients = (lk_clients s)[i := c]\<rparr>"
proof -
  have "cl_addr ((lk_clients s)[i := c] ! j) = cl_addr (lk_clients s ! j)" if "j < length (lk_clients s)" for j
    using assms(2) that by (cases "j = i") simp_all
  then show ?thesis using assms(1) by (simp add: endpoints_differ_def)
qed

lemma turn_addr: "run_client B T net (cl_phase c) c m = Some (c', m') \<Longrightarrow> cl_addr c' = cl_addr c"
  by (cases "cl_phase c") (auto simp: turn_init_def turn_register_def m_register_reserve_def turn_ready_def
      turn_publish_def m_register_publish_def turn_set_first_def turn_write_def
      m_ready_arrive_def turn_directory_def turn_import_def turn_fetch_def turn_done_def m_done_arrive_def
      turn_leave_def m_done_reply_def after_call_def Let_def split: if_splits prod.splits option.splits sum.splits)

lemma turn_reading:
  assumes B: "rendezvous B" and inv: "reading port info s" and turn: "client_turn B T i s = Some s'"
  shows "\<exists>info'. reading port info' s' \<and> (unfailed s \<longrightarrow> unfailed s')"
proof -
  let ?cs = "lk_clients s" and ?c = "lk_clients s ! i"
  obtain ord where led: "ledger info ord s" using inv by (auto simp: reading_def)
  obtain c' m' where q: "run_client B T (net_of T ?cs) (cl_phase ?c) ?c (lk_master s) = Some (c', m')"
      "s' = \<lparr>lk_master = m', lk_clients = ?cs[i := c']\<rparr>"
    and r: "running info ord s i ?c"
    using turn led by (auto simp: client_turn_def Let_def running_def split: if_splits)
  obtain info' ord' where led': "ledger info' ord' s'" and ext: "extends s info info'"
    using client_turn_keeps [OF B r q(1)] q(2) by (auto simp: keeps_def)
  have i: "i < length ?cs" by (rule runningD(2) [OF r])
  have ok: "\<forall>i < length ?cs. reads_ok port info s i" and differ: "endpoints_differ port s"
    using inv by (simp_all add: reading_def)
  have "client_ok m' (length ?cs) (info' i) c'"
    using ledgerD(4) [OF led' refl refl, of i] i by (simp add: q(2))
  note own = own_turn [OF r differ ok q(1) this ext]
  have "reads_ok port info' s' j" if "j < length ?cs" for j
    using others_keep [OF r ext q(1) that] ok that own i
    by (cases "j = i") (simp_all add: q(2), simp add: reads_ok_def)
  moreover have "endpoints_differ port s'"
    unfolding q(2) by (rule endpoints_update [OF differ turn_addr [OF q(1)]])
  moreover have "unfailed s \<longrightarrow> unfailed s'"
    using own by (auto simp: unfailed_def q(2) dest!: subsetD [OF set_update_subset_insert])
  ultimately show ?thesis using led' by (auto simp: reading_def q(2))
qed

lemma fault_reading:
  assumes inv: "reading port info s" and i: "i < length (lk_clients s)" and run: "cl_end (lk_clients s ! i) = None"
  shows "reading port info (client_fails i e s)"
proof -
  let ?c = "(lk_clients s ! i)\<lparr>cl_end := Some (Failed e)\<rparr>"
  obtain ord where led: "ledger info ord s" using inv by (auto simp: reading_def)
  have "client_ok (lk_master s) (length (lk_clients s)) (info i) ?c"
    by (rule stopped_ok(2) [OF ledgerD(4) [OF led refl refl i]]) simp
  then have "ledger info ord (s\<lparr>lk_clients := (lk_clients s)[i := ?c]\<rparr>)"
    using led i by (intro ledger_quiet) simp_all
  moreover have "reads_ok port info (client_fails i e s) j" if "j < length (lk_clients s)" for j
    using inv that i by (cases "j = i") (auto simp: reading_def reads_ok_def client_fails_def well_failed)
  moreover have "endpoints_differ port (client_fails i e s)"
    using inv endpoints_update [of port s ?c i "lk_master s"]
    by (cases s) (simp add: reading_def client_fails_def)
  ultimately show ?thesis by (auto simp: reading_def client_fails_def)
qed

lemma reading_start:
  assumes "lookup_start s" and "endpoints_differ port s"
    and "\<forall>i < length (lk_clients s). fresh (port i) (cc_records (cl_cfg (lk_clients s ! i))) (cl_tr (lk_clients s ! i))"
  shows "reading port info s" "unfailed s"
  using ledger_start [OF assms(1), of info] assms
  by (auto simp: reading_def reads_ok_def turns_well_def stored_def out_ok_def lookup_start_def unfailed_def)

lemma reachable_reading:
  assumes B: "rendezvous B" and start: "reading port info s" and "(lookup_step B T)\<^sup>*\<^sup>* s s'"
  shows "\<exists>info. reading port info s'"
  using assms(3)
proof induction
  case (step s1 s2)
  then obtain info where inv: "reading port info s1" by blast
  from step.hyps(2) show ?case
  proof cases
    case (turn i)
    then show ?thesis using turn_reading [OF B inv] by blast
  next
    case (fault i e)
    then show ?thesis using fault_reading [OF inv] by blast
  qed
qed (use start in blast)

lemma turns_reading:
  assumes B: "rendezvous B"
  shows "reading port info s \<Longrightarrow> unfailed s \<Longrightarrow> take_turns B T is s = Some s' \<Longrightarrow>
    (\<exists>info. reading port info s') \<and> unfailed s'"
proof (induction "is" arbitrary: s info)
  case (Cons i "is")
  then obtain s1 where s1: "client_turn B T i s = Some s1" "take_turns B T is s1 = Some s'"
    by (auto simp: bind_eq_Some_conv)
  from turn_reading [OF B Cons.prems(1) s1(1)] show ?case using Cons.IH s1(2) Cons.prems(2) by blast
qed auto

text \<open>A client that finished has read all records of the others.\<close>

lemma finished_reads:
  assumes inv: "reading port info s" and c: "c \<in> set (lk_clients s)" and "cl_end c = Some Finished"
  shows "\<exists>o' \<in> set (ms_clients (lk_master s)). oi_name o' = cc_name (cl_cfg c) \<and> oi_cnt o' = cc_records (cl_cfg c)
    \<and> cl_out c = others_records (ms_clients (lk_master s)) (oi_first o') (oi_cnt o')
        (unat (total_records (ms_clients (lk_master s))))"
proof -
  obtain ord where led: "ledger info ord s" using inv by (auto simp: reading_def)
  note L = ledgerD [OF led refl refl]
  obtain i where i: "i < length (lk_clients s)" "lk_clients s ! i = c" using c by (auto simp: in_set_conv_nth)
  have stage: "stage (cl_phase c) = 10" using finished_all [OF led c assms(3)] c by blast
  then obtain t where phase: "cl_phase c = Leaving t" by (cases "cl_phase c") simp_all
  have ok: "client_ok (lk_master s) (length (lk_clients s)) (info i) c" using L(4) [OF i(1)] i(2) by simp
  have "out_ok (ms_clients (lk_master s)) (info i) c"
    using inv i by (auto simp: reading_def reads_ok_def turns_well_def)
  moreover have "info i \<in> set (ms_clients (lk_master s))" using L(7,9) i stage by auto
  ultimately show ?thesis using ok stage phase by (auto simp: client_ok_def out_ok_def intro!: bexI [of _ "info i"])
qed

end

end
