(* ===== verification/TcpHook.thy ===== *)
theory TcpHook
  imports LookupRecords
begin

text \<open>
  The transport of the lookup demo over HTTP (\<open>TcpHookTransport\<close> of \<open>examples/urma_lookup.rs\<close>), that
  it keeps the promises of the trait, and complete runs of the demo over it. The port the system
  gives to the listener is part of the state a transport starts with, the text of an HTTP client
  error a parameter.
\<close>

section \<open>The transport\<close>

record hook =
  hk_record_cnt :: u32
  hk_my_first :: u32
  hk_buf :: bytes
  hk_port :: u16
  hk_bind :: "u16 result"

definition TcpHookTransport_new :: "u32 \<Rightarrow> u16 result \<Rightarrow> hook" where
  "TcpHookTransport_new cnt bind =
     \<lparr>hk_record_cnt = cnt, hk_my_first = 0, hk_buf = replicate buf_len 0, hk_port = 0, hk_bind = bind\<rparr>"

definition hook_init :: "hook \<Rightarrow> unit result \<times> hook" where
  "hook_init t = (case hk_bind t of Inl e \<Rightarrow> (Inl e, t) | Inr p \<Rightarrow> (Inr (), t\<lparr>hk_port := p\<rparr>))"

text \<open>The data service: one request per record. Slicing past the buffer panics and ends the request.\<close>

definition hook_record :: "hook \<Rightarrow> u32 \<Rightarrow> (nat \<times> bytes) option" where
  "hook_record t rid =
     (if holds_record (hk_my_first t) (hk_record_cnt t) rid
      then let off = unat (rid - hk_my_first t) * MSG_SIZE
           in if off + MSG_SIZE > length (hk_buf t) then None
              else Some (200, take MSG_SIZE (drop off (hk_buf t)))
      else Some (404, []))"

definition http_get :: "string \<Rightarrow> hook net \<Rightarrow> bytes \<Rightarrow> u32 \<Rightarrow> u32 \<Rightarrow> (nat \<times> bytes) result" where
  "http_get err net addr port rid =
     (case net addr port of
        None \<Rightarrow> Inl (Io err)
      | Some t \<Rightarrow> (case hook_record t rid of None \<Rightarrow> Inl (Io err) | Some r \<Rightarrow> Inr r))"

definition status_text :: "nat \<Rightarrow> string" where
  "status_text st = (if st = 404 then ''404 Not Found'' else ''200 OK'')"

definition hook_import :: "nat \<Rightarrow> OwnerInfo \<Rightarrow> hook \<Rightarrow> unit result option \<times> hook" where
  "hook_import idx o' t =
     (Some (if oi_port o' = 0
            then Inl (Invalid (''owner '' @ [CHR 0x27] @ oi_name o' @ [CHR 0x27] @ '' has no data port''))
            else Inr ()), t)"

definition hook_read_record ::
  "string \<Rightarrow> hook net \<Rightarrow> nat \<Rightarrow> OwnerInfo \<Rightarrow> u32 \<Rightarrow> hook \<Rightarrow> bytes result option \<times> hook" where
  "hook_read_record err net idx o' rid t =
     (Some (rbind (http_get err net (oi_addr o') (oi_port o') rid) (\<lambda>(st, b).
        if st < 200 \<or> st \<ge> 300
        then Inl (Invalid (''fetch record '' @ show_word rid @ '' from '' @ [CHR 0x27] @ oi_name o' @ [CHR 0x27] @
               '': http status '' @ status_text st))
        else if length b \<noteq> MSG_SIZE
        then Inl (Invalid (''record '' @ show_word rid @ '': bad body len '' @ show_nat (length b)))
        else Inr b)), t)"

definition hook_transport :: "string \<Rightarrow> hook Transport" where
  "hook_transport err =
     \<lparr>tr_init = hook_init,
      tr_data_port = (\<lambda>t. ucast (hk_port t)),
      tr_desc = (\<lambda>_. default_PeerDesc),
      tr_set_first = (\<lambda>first t. t\<lparr>hk_my_first := first\<rparr>),
      tr_with_buf = (\<lambda>f t. map_option (\<lambda>b. t\<lparr>hk_buf := b\<rparr>) (f (hk_buf t))),
      tr_import = hook_import,
      tr_read_record = hook_read_record err\<rparr>"

section \<open>What writing the records leaves in the buffer\<close>

lemma buf_len_eq: "buf_len = 8192"
  by (simp add: buf_len_def div_ceil_def SCRATCH_OFF_lookup_def MAX_RECORDS_PER_CLIENT_def MSG_SIZE_def PAGE_SIZE_def)

definition slot :: "nat \<Rightarrow> bytes \<Rightarrow> bytes" where
  "slot k buf = take MSG_SIZE (drop (k * MSG_SIZE) buf)"

lemma length_fill_msg: "length (fill_msg txt) = MSG_SIZE"
  by (simp add: fill_msg_def Let_def MSG_SIZE_def)

lemma write_record_eq:
  assumes "(i + 1) * MSG_SIZE \<le> length buf"
  shows "write_record name f i buf = Some (take (i * MSG_SIZE) buf
     @ fill_msg (record_text name (f + of_nat i)) @ drop (i * MSG_SIZE + MSG_SIZE) buf)"
proof -
  let ?s = "record_text name (f + of_nat i)"
  let ?n = "min (length ?s) (MSG_SIZE - 1)"
  have "?n \<le> MSG_SIZE" by (simp add: MSG_SIZE_def)
  then have "splice (i * MSG_SIZE) (take ?n ?s) (splice (i * MSG_SIZE) (replicate MSG_SIZE 0) buf)
      = take (i * MSG_SIZE) buf @ (take ?n ?s @ drop ?n (replicate MSG_SIZE 0)) @ drop (i * MSG_SIZE + MSG_SIZE) buf"
    using assms by (simp add: splice_def)
  then show ?thesis using assms by (simp add: write_record_def Let_def fill_msg_def)
qed

lemma take_drop_prefix:
  assumes "a + n \<le> b" and "b \<le> length xs"
  shows "take n (drop a (take b xs @ ys)) = take n (drop a xs)"
  by (rule nth_equalityI) (use assms in \<open>auto simp: nth_append\<close>)

lemma write_record_slots:
  assumes "(i + 1) * MSG_SIZE \<le> length buf"
  shows "\<exists>buf'. write_record name f i buf = Some buf' \<and> length buf' = length buf
    \<and> (\<forall>k. slot k buf' = (if k = i then fill_msg (record_text name (f + of_nat i)) else slot k buf))"
proof -
  let ?m = "fill_msg (record_text name (f + of_nat i))"
  let ?buf = "take (i * MSG_SIZE) buf @ ?m @ drop (i * MSG_SIZE + MSG_SIZE) buf"
  have "write_record name f i buf = Some ?buf" by (rule write_record_eq [OF assms])
  moreover have "length ?buf = length buf" using assms by (simp add: length_fill_msg)
  moreover have "slot k ?buf = (if k = i then ?m else slot k buf)" for k
  proof (rule linorder_cases [of k i])
    assume "k < i"
    then have "k * MSG_SIZE + MSG_SIZE \<le> i * MSG_SIZE" by (metis Suc_leI add.commute mult_Suc mult_le_mono1)
    then show ?thesis using assms \<open>k < i\<close> take_drop_prefix [of "k * MSG_SIZE" MSG_SIZE "i * MSG_SIZE" buf] by (simp add: slot_def)
  next
    assume "k = i"
    then show ?thesis using assms by (simp add: slot_def length_fill_msg min_def)
  next
    assume "i < k"
    then have "i * MSG_SIZE + MSG_SIZE \<le> k * MSG_SIZE" by (metis Suc_leI add.commute mult_Suc mult_le_mono1)
    then show ?thesis using assms \<open>i < k\<close> by (simp add: slot_def length_fill_msg min_def)
  qed
  ultimately show ?thesis by blast
qed

lemma write_records_slots:
  "(i + n) * MSG_SIZE \<le> length buf \<Longrightarrow>
     \<exists>buf'. write_records name f i n buf = Some buf' \<and> length buf' = length buf
       \<and> (\<forall>k. slot k buf' = (if i \<le> k \<and> k < i + n then fill_msg (record_text name (f + of_nat k)) else slot k buf))"
proof (induction n arbitrary: i buf)
  case (Suc n)
  have "(i + 1) * MSG_SIZE \<le> (i + Suc n) * MSG_SIZE" by (rule mult_le_mono1) simp
  then have "(i + 1) * MSG_SIZE \<le> length buf" using Suc.prems by linarith
  then obtain b where b: "write_record name f i buf = Some b" "length b = length buf"
    "\<forall>k. slot k b = (if k = i then fill_msg (record_text name (f + of_nat i)) else slot k buf)"
    using write_record_slots by blast
  have "(Suc i + n) * MSG_SIZE \<le> length b" using Suc.prems b(2) by simp
  from Suc.IH [OF this] obtain b2 where b2: "write_records name f (Suc i) n b = Some b2" "length b2 = length b"
    "\<forall>k. slot k b2 = (if Suc i \<le> k \<and> k < Suc i + n then fill_msg (record_text name (f + of_nat k)) else slot k b)"
    by blast
  have "slot k b2 = (if i \<le> k \<and> k < i + Suc n then fill_msg (record_text name (f + of_nat k)) else slot k buf)" for k
    using b2(3) b(3) by (cases "k = i") auto
  then show ?case using b(1,2) b2(1,2) by auto
qed auto

section \<open>The transport keeps its promises\<close>

definition hook_fresh :: "u32 \<Rightarrow> u32 \<Rightarrow> hook \<Rightarrow> bool" where
  "hook_fresh p cnt t \<longleftrightarrow> (\<exists>q. t = TcpHookTransport_new cnt (Inr q) \<and> p = ucast q)"

definition hook_started :: "u32 \<Rightarrow> hook \<Rightarrow> bool" where
  "hook_started cnt t \<longleftrightarrow> hk_record_cnt t = cnt \<and> length (hk_buf t) = buf_len"

definition hook_ranged :: "u32 \<Rightarrow> u32 \<Rightarrow> hook \<Rightarrow> bool" where
  "hook_ranged f cnt t \<longleftrightarrow> hook_started cnt t \<and> hk_my_first t = f"

definition hook_serves :: "string \<Rightarrow> u32 \<Rightarrow> u32 \<Rightarrow> hook \<Rightarrow> bool" where
  "hook_serves name f cnt t \<longleftrightarrow> hook_ranged f cnt t \<and> cnt \<le> MAX_RECORDS_PER_CLIENT
     \<and> (\<forall>k < unat cnt. slot k (hk_buf t) = fill_msg (record_text name (f + of_nat k)))"

lemma hook_answers:
  assumes "hook_serves name f cnt t" and "unat f + unat cnt < 2 ^ 32" and "holds_record f cnt rid"
  shows "hook_record t rid = Some (200, fill_msg (record_text name rid))"
proof -
  define k where "k = unat (rid - f)"
  have range: "unat f \<le> unat rid" "unat rid < unat f + unat cnt"
    using assms(2,3) by (auto simp: holds_record_def word_le_nat_alt word_less_nat_alt unat_plus_no_overflow)
  then have k: "k = unat rid - unat f" "k < unat cnt" "f + of_nat k = rid"
    by (auto simp: k_def unat_sub word_le_nat_alt)
  have cnt: "unat cnt \<le> 64"
    using assms(1) by (simp add: hook_serves_def MAX_RECORDS_PER_CLIENT_def word_le_nat_alt)
  then have fits: "k * MSG_SIZE + MSG_SIZE \<le> length (hk_buf t)"
    using assms(1) k(2) by (simp add: hook_serves_def hook_ranged_def hook_started_def buf_len_eq MSG_SIZE_def)
  have "slot k (hk_buf t) = fill_msg (record_text name rid)"
    using assms(1) k(2,3) by (simp add: hook_serves_def)
  then show ?thesis
    using assms(1,3) fits
    by (simp add: hook_record_def Let_def hook_serves_def hook_ranged_def hook_started_def slot_def k_def)
qed

lemma hook_write:
  assumes "hook_ranged f (cc_records cfg) t" and "valid_cfg cfg"
  shows "\<exists>t'. tr_with_buf (hook_transport err) (fill_buf cfg f) t = Some t'
    \<and> hook_serves (cc_name cfg) f (cc_records cfg) t' \<and> hk_port t' = hk_port t"
proof -
  have cnt: "unat (cc_records cfg) \<le> 64"
    using assms(2) by (simp add: valid_cfg_def MAX_RECORDS_PER_CLIENT_def word_le_nat_alt)
  then have "(0 + unat (cc_records cfg)) * MSG_SIZE \<le> length (hk_buf t)"
    using assms(1) by (simp add: hook_ranged_def hook_started_def buf_len_eq MSG_SIZE_def)
  from write_records_slots [OF this, of "cc_name cfg" f] obtain b where
    "write_records (cc_name cfg) f 0 (unat (cc_records cfg)) (hk_buf t) = Some b" "length b = length (hk_buf t)"
    "\<forall>k < unat (cc_records cfg). slot k b = fill_msg (record_text (cc_name cfg) (f + of_nat k))"
    by auto
  then show ?thesis
    using assms
    by (simp add: hook_transport_def fill_buf_def valid_cfg_def hook_serves_def hook_ranged_def hook_started_def)
qed

interpretation hook: record_transport "hook_transport err" hook_fresh hook_started hook_ranged hook_serves
  for err :: string
proof
  fix p cnt t assume "hook_fresh p cnt t"
  then show "\<exists>t'. tr_init (hook_transport err) t = (Inr (), t') \<and> hook_started cnt t'
      \<and> tr_data_port (hook_transport err) t' = p"
    by (auto simp: hook_fresh_def hook_transport_def hook_init_def TcpHookTransport_new_def hook_started_def)
next
  fix cnt t f assume "hook_started cnt t"
  then show "hook_ranged f cnt (tr_set_first (hook_transport err) f t)
      \<and> tr_data_port (hook_transport err) (tr_set_first (hook_transport err) f t) = tr_data_port (hook_transport err) t"
    by (simp add: hook_transport_def hook_ranged_def hook_started_def)
next
  fix f cfg t assume "hook_ranged f (cc_records cfg) t" "valid_cfg cfg"
  from hook_write [OF this, of err] show "\<exists>t'. tr_with_buf (hook_transport err) (fill_buf cfg f) t = Some t'
      \<and> hook_serves (cc_name cfg) f (cc_records cfg) t'
      \<and> tr_data_port (hook_transport err) t' = tr_data_port (hook_transport err) t"
    by (auto simp: hook_transport_def)
next
  fix n f cnt t and o' :: OwnerInfo and idx assume "hook_serves n f cnt t" "oi_port o' \<noteq> 0"
  then show "\<exists>t'. tr_import (hook_transport err) idx o' t = (Some (Inr ()), t') \<and> hook_serves n f cnt t'
      \<and> tr_data_port (hook_transport err) t' = tr_data_port (hook_transport err) t"
    by (simp add: hook_transport_def hook_import_def)
next
  fix n f cnt t and net :: "hook net" and o' :: OwnerInfo and t2 rid idx
  assume "hook_serves n f cnt t" "net (oi_addr o') (oi_port o') = Some t2"
    "hook_serves (oi_name o') (oi_first o') (oi_cnt o') t2" "unat (oi_first o') + unat (oi_cnt o') < 2 ^ 32"
    "holds_record (oi_first o') (oi_cnt o') rid"
  then show "\<exists>t'. tr_read_record (hook_transport err) net idx o' rid t
        = (Some (Inr (fill_msg (record_text (oi_name o') rid))), t')
      \<and> hook_serves n f cnt t' \<and> tr_data_port (hook_transport err) t' = tr_data_port (hook_transport err) t"
    by (simp add: hook_transport_def hook_read_record_def http_get_def hook_answers length_fill_msg)
next
  fix net :: "hook net" and o' :: OwnerInfo and idx rid t
  assume "net (oi_addr o') (oi_port o') = None"
  then show "\<exists>e t'. tr_read_record (hook_transport err) net idx o' rid t = (Some (Inl e), t')"
    by (simp add: hook_transport_def hook_read_record_def http_get_def)
qed

section \<open>Runs\<close>

text \<open>Taking turns for as long as some client can: it comes to an end.\<close>

lemma maximal_run:
  assumes B: "rendezvous B" and start: "lookup_start s"
  shows "\<exists>is s'. take_turns B T is s = Some s' \<and> (\<forall>i. client_turn B T i s' = None)"
proof -
  have append: "take_turns B T (is @ [i]) s = Option.bind (take_turns B T is s) (client_turn B T i)" for "is" i s
  proof (induction "is" arbitrary: s)
    case Nil
    show ?case by (cases "client_turn B T i s") simp_all
  next
    case (Cons j "is")
    then show ?case by (cases "client_turn B T j s") simp_all
  qed
  have "\<exists>is s'. take_turns B T is s = Some s' \<and> (n \<le> length is \<or> (\<forall>i. client_turn B T i s' = None))" for n
  proof (induction n)
    case 0
    show ?case by (intro exI [of _ "[]"]) simp
  next
    case (Suc n)
    then obtain "is" s1 where s1: "take_turns B T is s = Some s1" "n \<le> length is \<or> (\<forall>i. client_turn B T i s1 = None)"
      by blast
    show ?case
    proof (cases "\<forall>i. client_turn B T i s1 = None")
      case False
      then obtain i s2 where "client_turn B T i s1 = Some s2" by auto
      moreover have "n \<le> length is" using False s1(2) by blast
      ultimately have "take_turns B T (is @ [i]) s = Some s2 \<and> Suc n \<le> length (is @ [i])"
        using s1(1) by (simp add: append)
      then show ?thesis by blast
    qed (use s1 in blast)
  qed
  from this [of "Suc (all_todo s)"] obtain "is" s' where s': "take_turns B T is s = Some s'"
    "Suc (all_todo s) \<le> length is \<or> (\<forall>i. client_turn B T i s' = None)" by blast
  moreover have "length is \<le> all_todo s"
    using turns_bounded [OF B ledger_start [OF start] s'(1)] by simp
  ultimately show ?thesis by auto
qed

definition tokio_barrier :: barrier where
  "tokio_barrier = \<lparr>b_open = (\<lambda>n m i. i div n < m div n), b_leader = (\<lambda>n i. i mod n = 0)\<rparr>"

lemma tokio_rendezvous: "rendezvous tokio_barrier"
proof -
  have "\<exists>!i. i div n = r \<and> i mod n = 0" if "0 < n" for n r :: nat
  proof (rule ex1I [of _ "r * n"])
    fix i assume "i div n = r \<and> i mod n = 0"
    then show "i = r * n" using div_mult_mod_eq [of i n] by simp
  qed (use that in simp)
  then show ?thesis by (simp add: rendezvous_def tokio_barrier_def)
qed

section \<open>Properties\<close>

text \<open>
  C12 (the lookup demo from end to end, over HTTP). Clients that were given distinct listening ports take
  their turns in any order until none can: all of them have finished, and each has fetched exactly the
  records of the others, in ascending order of their ids, every one with the text its owner wrote.
\<close>

theorem hook_lookup_complete:
  assumes "rendezvous B" and "lookup_start s" and "endpoints_differ port s"
    and "\<forall>i < length (lk_clients s). hook_fresh (port i) (cc_records (cl_cfg (lk_clients s ! i))) (cl_tr (lk_clients s ! i))"
    and "take_turns B (hook_transport err) is s = Some s'" and "\<forall>i. client_turn B (hook_transport err) i s' = None"
    and "c \<in> set (lk_clients s')"
  shows "cl_end c = Some Finished
    \<and> (\<exists>o' \<in> set (ms_clients (lk_master s')). oi_name o' = cc_name (cl_cfg c) \<and> oi_cnt o' = cc_records (cl_cfg c)
        \<and> cl_out c = others_records (ms_clients (lk_master s')) (oi_first o') (oi_cnt o')
             (unat (total_records (ms_clients (lk_master s')))))"
proof -
  have "hook.reading err port undefined s" "unfailed s"
    using hook.reading_start [OF assms(2,3)] assms(4) by (simp_all add: unfailed_def)
  from hook.turns_reading [OF assms(1) this assms(5)] obtain info where
    inv: "hook.reading err port info s'" and "unfailed s'" by blast
  then have "\<forall>c \<in> set (lk_clients s'). cl_end c = Some Finished"
    using no_deadlock [OF assms(1) _ , of _ _ s' "hook_transport err"] assms(6)
    by (auto simp: hook.reading_def unfailed_def)
  then show ?thesis using hook.finished_reads [OF inv assms(7)] assms(7) by blast
qed

end
