(* ===== verification/LookupDemo.thy ===== *)
theory LookupDemo
  imports TcpHook
begin

text \<open>
  Concrete runs of the lookup demo over HTTP, evaluated: two clients and a master that expects two,
  and three clients with a master that expects two.
\<close>

section \<open>Nodes with one record each\<close>

definition demo_node :: "string \<Rightarrow> u16 \<Rightarrow> hook client" where
  "demo_node name p =
     fresh_client \<lparr>cc_name = name, cc_records = 1\<rparr> (V4 [10, 0, 0, 1]) (TcpHookTransport_new 1 (Inr p))"

definition demo_nodes :: "hook client list \<Rightarrow> hook lookup" where
  "demo_nodes cs =
     \<lparr>lk_master = \<lparr>ms_clients = [], ms_next_rid = 0, ms_expect = 2, ms_ready = 0, ms_done = 0, ms_shutdown = False\<rparr>,
      lk_clients = cs\<rparr>"

definition demo_lookup :: "hook lookup" where
  "demo_lookup = demo_nodes [demo_node ''A'' 40001, demo_node ''B'' 40002]"

definition demo_overbooked :: "hook lookup" where
  "demo_overbooked = demo_nodes [demo_node ''A'' 40001, demo_node ''B'' 40002, demo_node ''C'' 40003]"

lemma demo_fill:
  "fill_buf \<lparr>cc_name = name, cc_records = 1\<rparr> f (replicate 8192 0) = Some (fill_msg (record_text name f) @ replicate 8128 0)"
  using write_record_eq [of 0 "replicate 8192 0" name f]
  by (simp add: fill_buf_def MSG_SIZE_def)

lemma small_words: "\<not> (2 :: u32) \<le> 1" "(1 :: u32) < 2" "\<not> (3 :: u32) \<le> 1" "\<not> (3 :: u32) \<le> 2" "(2::u32) < 3"
  by (simp_all add: word_le_nat_alt word_less_nat_alt)

lemmas turn_defs = client_turn_def Let_def turn_init_def turn_register_def register_msg_def
  m_register_reserve_def turn_publish_def m_register_publish_def turn_set_first_def turn_write_def
  turn_ready_def m_ready_arrive_def turn_directory_def m_ready_reply_def turn_import_def turn_fetch_def
  turn_done_def m_done_arrive_def turn_leave_def m_done_reply_def after_call_def is_self_def owner_index_def
  holds_record_def total_records_def tokio_barrier_def MAX_RECORDS_PER_CLIENT_def small_words

lemmas node_defs = demo_lookup_def demo_overbooked_def demo_nodes_def demo_node_def fresh_client_def
  TcpHookTransport_new_def hook_transport_def hook_init_def hook_import_def hook_read_record_def http_get_def
  hook_record_def net_of_def listening_def buf_len_eq demo_fill MSG_SIZE_def length_fill_msg

text \<open>The nodes and the master along the run.\<close>

definition demo_entry :: "string \<Rightarrow> u32 \<Rightarrow> u32 \<Rightarrow> OwnerInfo" where
  "demo_entry name f p = \<lparr>oi_name = name, oi_first = f, oi_cnt = 1, oi_desc = default_PeerDesc,
     oi_addr = [10, 0, 0, 1], oi_port = p\<rparr>"

definition demo_owners :: "OwnerInfo list" where
  "demo_owners = [demo_entry ''A'' 0 40001, demo_entry ''B'' 1 40002]"

definition demo_at :: "string \<Rightarrow> u32 \<Rightarrow> u16 \<Rightarrow> phase \<Rightarrow> (u32 \<times> bytes) list \<Rightarrow> outcome option \<Rightarrow> hook client" where
  "demo_at name f p ph out e =
     \<lparr>cl_cfg = \<lparr>cc_name = name, cc_records = 1\<rparr>, cl_addr = V4 [10, 0, 0, 1],
      cl_tr = \<lparr>hk_record_cnt = 1, hk_my_first = f, hk_buf = fill_msg (record_text name f) @ replicate 8128 0,
        hk_port = p, hk_bind = Inr p\<rparr>,
      cl_phase = ph, cl_out = out, cl_end = e\<rparr>"

definition demo_mid :: "hook lookup" where
  "demo_mid =
     \<lparr>lk_master = \<lparr>ms_clients = demo_owners, ms_next_rid = 2, ms_expect = 2, ms_ready = 2, ms_done = 0,
        ms_shutdown = False\<rparr>,
      lk_clients = [demo_at ''A'' 0 40001 (Importing 0 demo_owners 0) [] None,
                    demo_at ''B'' 1 40002 (Importing 1 demo_owners 0) [] None]\<rparr>"

definition demo_end :: "hook lookup" where
  "demo_end =
     \<lparr>lk_master = \<lparr>ms_clients = demo_owners, ms_next_rid = 2, ms_expect = 2, ms_ready = 2, ms_done = 2,
        ms_shutdown = True\<rparr>,
      lk_clients = [demo_at ''A'' 0 40001 (Leaving 0) [(1, fill_msg (record_text ''B'' 1))] (Some Finished),
                    demo_at ''B'' 1 40002 (Leaving 1) [(0, fill_msg (record_text ''A'' 0))] (Some Finished)]\<rparr>"

lemmas state_defs = demo_mid_def demo_end_def demo_at_def demo_owners_def demo_entry_def

lemma demo_first_half:
  "take_turns tokio_barrier (hook_transport []) [0,1,0,1,0,1,0,1,0,1,0,1,0,1] demo_lookup = Some demo_mid"
  by (simp add: turn_defs node_defs state_defs)

lemma demo_second_half:
  "take_turns tokio_barrier (hook_transport []) [0,1,0,1,0,1,0,1,0,1,0,1,0,1,0,1] demo_mid = Some demo_end"
  by (simp add: turn_defs node_defs state_defs)

lemma take_turns_append:
  "take_turns B T (is @ js) s = Option.bind (take_turns B T is s) (take_turns B T js)"
proof (induction "is" arbitrary: s)
  case (Cons i "is")
  then show ?case by (cases "client_turn B T i s") simp_all
qed simp

lemma demo_run:
  "take_turns tokio_barrier (hook_transport [])
     ([0,1,0,1,0,1,0,1,0,1,0,1,0,1] @ [0,1,0,1,0,1,0,1,0,1,0,1,0,1,0,1]) demo_lookup = Some demo_end"
  unfolding take_turns_append demo_first_half bind.simps by (rule demo_second_half)

lemma demo_over: "client_turn B T i demo_end = None"
proof -
  have "i < 2 \<Longrightarrow> cl_end (lk_clients demo_end ! i) \<noteq> None"
    by (auto simp: demo_end_def demo_at_def less_2_cases_iff)
  then show ?thesis by (auto simp: client_turn_def Let_def demo_end_def)
qed

lemma demo_lookup_start: "lookup_start demo_lookup"
  by (simp add: lookup_start_def demo_lookup_def demo_nodes_def demo_node_def run_master_def MAX_CLIENTS_def
      fresh_client_def valid_cfg_def MAX_RECORDS_PER_CLIENT_def)

definition demo_port :: "nat \<Rightarrow> u32" where
  "demo_port i = (if i = 0 then 40001 else 40002)"

lemma all_less_two: "(\<forall>i < (2 :: nat). P i) \<longleftrightarrow> P 0 \<and> P 1"
  by (auto simp: less_2_cases_iff)

lemma demo_lookup_ports:
  "endpoints_differ demo_port demo_lookup"
  "\<forall>i < length (lk_clients demo_lookup).
     hook_fresh (demo_port i) (cc_records (cl_cfg (lk_clients demo_lookup ! i))) (cl_tr (lk_clients demo_lookup ! i))"
proof -
  have len: "length (lk_clients demo_lookup) = 2" by (simp add: demo_lookup_def demo_nodes_def)
  show "endpoints_differ demo_port demo_lookup"
    unfolding endpoints_differ_def len all_less_two by (simp add: demo_port_def)
  have "hook_fresh (ucast q) 1 (TcpHookTransport_new 1 (Inr q))" for q by (auto simp: hook_fresh_def)
  from this [of 40001] this [of 40002] show "\<forall>i < length (lk_clients demo_lookup).
     hook_fresh (demo_port i) (cc_records (cl_cfg (lk_clients demo_lookup ! i))) (cl_tr (lk_clients demo_lookup ! i))"
    unfolding len all_less_two by (simp add: demo_port_def demo_lookup_def demo_nodes_def demo_node_def fresh_client_def)
qed

section \<open>Witnesses\<close>

lemma demo_reach: "(lookup_step tokio_barrier (hook_transport []))\<^sup>*\<^sup>* demo_lookup demo_mid"
  by (rule turns_reach [OF demo_first_half])

theorem lookup_directory_witness:
  "length demo_owners = length (lk_clients demo_mid)
    \<and> (\<exists>!k. k < length demo_owners \<and> holds_record (oi_first (demo_owners ! k)) (oi_cnt (demo_owners ! k)) 1)"
  by (rule lookup_directory [OF tokio_rendezvous demo_lookup_start demo_reach, of "lk_clients demo_mid ! 0"])
    (simp_all add: state_defs total_records_def small_words)

theorem lookup_barriers_witness:
  "stage (Readying 0 0) \<le> stage (cl_phase (lk_clients demo_mid ! 1))"
  using lookup_barriers [OF tokio_rendezvous demo_lookup_start demo_reach, of "lk_clients demo_mid ! 0" "lk_clients demo_mid ! 1"]
  by (simp add: state_defs)

theorem lookup_ends_witness:
  "30 \<le> 1052 * length (lk_clients demo_lookup) \<and> list_all (\<lambda>c. cl_end c = Some Finished) (lk_clients demo_end)"
proof -
  have "list_all (\<lambda>c. cl_end c = None \<or> cl_end c = Some Finished) (lk_clients demo_end)"
    by (simp add: demo_end_def demo_at_def)
  then show ?thesis
    using lookup_ends [OF tokio_rendezvous demo_lookup_start demo_run] demo_over by simp
qed

theorem failed_client_strands_all_witness:
  "\<not> ms_shutdown (lk_master (client_fails 0 (Io []) demo_mid))
    \<and> list_all (\<lambda>c. cl_end c \<noteq> Some Finished) (lk_clients (client_fails 0 (Io []) demo_mid))"
proof -
  have "lookup_step tokio_barrier (hook_transport []) demo_mid (client_fails 0 (Io []) demo_mid)"
    by (rule lookup_step.fault) (simp_all add: demo_mid_def demo_at_def)
  then have reach: "(lookup_step tokio_barrier (hook_transport []))\<^sup>*\<^sup>* demo_lookup (client_fails 0 (Io []) demo_mid)"
    using demo_reach by simp
  show ?thesis
    by (rule failed_client_strands_all [OF tokio_rendezvous demo_lookup_start reach _ _ _ rtranclp.rtrancl_refl,
          where c = "(lk_clients demo_mid ! 0)\<lparr>cl_end := Some (Failed (Io []))\<rparr>"])
      (simp_all add: client_fails_def demo_mid_def demo_at_def)
qed

theorem hook_lookup_complete_witness:
  "cl_end (lk_clients demo_end ! 0) = Some Finished
    \<and> (\<exists>o' \<in> set demo_owners. oi_name o' = ''A'' \<and> oi_cnt o' = 1
        \<and> [(1, fill_msg (record_text ''B'' 1))] = others_records demo_owners (oi_first o') (oi_cnt o') 2)"
  using hook_lookup_complete [OF tokio_rendezvous demo_lookup_start demo_lookup_ports demo_run, of "lk_clients demo_end ! 0"]
    demo_over by (simp add: demo_end_def demo_at_def total_records_def demo_owners_def demo_entry_def)

section \<open>Properties\<close>


end
