(* ===== verification/CliRun.thy ===== *)
theory CliRun
  imports BenchRun Holding
begin

text \<open>
  The command line tool (\<open>examples/urma_cli.rs\<close>) and the probe \<open>examples/list_devices.rs\<close>. Command line
  values arrive parsed. The lines that \<open>list\<close> and the probe print are their results; of the progress
  lines of \<open>serve\<close> and \<open>read\<close> only the descriptor and the data are kept.
\<close>

section \<open>Listing devices\<close>

datatype line = StdOut string | StdErr string

definition show_combo :: "TransMode \<times> TpType \<Rightarrow> string" where
  "show_combo c = (case c of (m, tp) \<Rightarrow> tm_name m @ ''-'' @ tp_name tp)"

definition show_limits :: "DeviceCap \<Rightarrow> string" where
  "show_limits cap =
     ''max_jfs_sge '' @ show_word (max_jfs_sge cap) @ '' max_jfr_sge '' @ show_word (max_jfr_sge cap) @
     '' max_msg_size '' @ show_word (max_msg_size cap) @ '' max_read_size '' @ show_word (max_read_size cap) @
     '' max_write_size '' @ show_word (max_write_size cap) @ '' page_size_cap 0x'' @ show_hex (page_size_cap cap)"

text \<open>The block of one device, with the three labels of the tool.\<close>

definition caps_block :: "string \<Rightarrow> string \<Rightarrow> string \<Rightarrow> (i32 \<Rightarrow> string) \<Rightarrow> DeviceCap result \<Rightarrow> line list" where
  "caps_block modes combos limits os_text r =
     (case r of
        Inr cap \<Rightarrow>
          [StdOut (modes @ show_DeviceCap cap),
           StdOut (combos @ join '' '' (map show_combo (supported_combos cap))),
           StdOut (limits @ show_limits cap)]
      | Inl e \<Rightarrow> [StdErr (''  query failed: '' @ fmt_error os_text e)])"

fun list_each ::
  "'w liburma \<Rightarrow> (DeviceCap result \<Rightarrow> line list) \<Rightarrow> bool \<Rightarrow> string list \<Rightarrow> 'w heap \<Rightarrow> line list \<times> 'w heap" where
  "list_each L block caps [] s = ([], s)"
| "list_each L block caps (name # names) s =
     (let (ls, s) = (if caps then let (r, s) = query_device L name s in (block r, s) else ([], s));
          (rest, s) = list_each L block caps names s
      in (StdOut name # ls @ rest, s))"

definition cli_legend :: string where
  "cli_legend =
     ''  (legend: modes = transport modes RM/RC/UM with their usable tp types; an'' @ [CHR 0x0A] @
     ''   empty tp= means the mode is advertised but unusable here; combos = the valid'' @ [CHR 0x0A] @
     ''   --mode/--tp pairs; limits = per-send/recv sge, message/READ/WRITE size and'' @ [CHR 0x0A] @
     ''   page-size ceilings. Background: docs/urma.md)''"

definition list_run ::
  "'w liburma \<Rightarrow> (bytes \<Rightarrow> string) \<Rightarrow> (i32 \<Rightarrow> string) \<Rightarrow> bool \<Rightarrow> 'w heap \<Rightarrow> line list result \<times> 'w heap" where
  "list_run L lossy os_text caps s =
     (case list_devices L lossy s of
        (Inl e, s) \<Rightarrow> (Inl e, s)
      | (Inr names, s) \<Rightarrow>
          if names = [] then (Inl (Invalid ''no urma device on this machine''), s)
          else let (ls, s) = list_each L (caps_block ''  modes  : '' ''  combos : '' ''  limits : '' os_text) caps names s
               in (Inr (ls @ (if caps then [StdOut cli_legend] else [])), s))"

definition probe_legend :: string where
  "probe_legend =
     ''  (legend: modes = transport modes RM/RC/UM with their usable tp types; an'' @ [CHR 0x0A] @
     ''   empty tp= means the mode is advertised but unusable here; combos = the usable'' @ [CHR 0x0A] @
     ''   mode-tp combinations; limits = per-send/recv sge, message/READ/WRITE size'' @ [CHR 0x0A] @
     ''   and page-size ceilings. Background: docs/urma.md)''"

text \<open>The probe: its lines and its exit code.\<close>

definition probe_main ::
  "'w liburma \<Rightarrow> (bytes \<Rightarrow> string) \<Rightarrow> (i32 \<Rightarrow> string) \<Rightarrow> string list \<Rightarrow> 'w heap \<Rightarrow> (line list \<times> nat) \<times> 'w heap" where
  "probe_main L lossy os_text args s =
     (let show_caps = list_ex (\<lambda>a. a = ''--caps'') args in
      case list_devices L lossy s of
        (Inr names, s) \<Rightarrow>
          if names \<noteq> []
          then let (ls, s) = list_each L (caps_block ''  modes        : '' ''  combos       : ''
                                            ''  limits       : '' os_text) show_caps names s
               in ((ls @ (if show_caps then [StdOut probe_legend] else []), 0), s)
          else (([StdErr ''no urma device on this machine''], 1), s)
      | (Inl e, s) \<Rightarrow> (([StdErr (''urma unavailable on this machine: '' @ fmt_error os_text e)], 1), s))"

section \<open>Arguments and preflight\<close>

record CliModeArgs =
  cm_dev :: string
  cm_mode :: TransMode
  cm_tp :: TpType
  cm_multi_path :: bool

record CliServeArgs =
  cs_mode :: CliModeArgs
  cs_msg :: "bytes option"
  cs_buf_len :: usize

record CliReadArgs =
  ca_mode :: CliModeArgs
  ca_desc :: string
  ca_offset :: u64
  ca_len :: u64

definition cli_preflight ::
  "(string \<Rightarrow> DeviceCap result) \<Rightarrow> CliModeArgs \<Rightarrow> (TransMode \<times> TpType \<times> bool) result" where
  "cli_preflight query m =
     (let mode = cm_mode m; tp = cm_tp m;
          multi_path = (cm_multi_path m \<or> starts_with (cm_dev m) ''bonding'')
      in rbind (query (cm_dev m)) (\<lambda>cap.
         let missing = missing_combo cap mode tp;
             (missing, multi_path) =
               (if multi_path \<and> \<not> supports_multi_path cap mode
                then if cm_multi_path m
                     then (missing @ [''multi-path for '' @ tm_name mode], multi_path)
                     else (missing, False)
                else (missing, multi_path))
         in if missing \<noteq> []
            then Inl (Invalid (''device '' @ quoted (cm_dev m) @
                   '' does not support it; missing: '' @ join '', '' missing))
            else Inr (mode, tp, multi_path)))"

definition cli_opts :: "TransMode \<Rightarrow> bool \<Rightarrow> JettyOpts" where
  "cli_opts mode multi = default_JettyOpts\<lparr>opt_trans_mode := mode, opt_multi_path := multi\<rparr>"

text \<open>The host name file, if it can be read, and the process id.\<close>

definition hostname :: "string option \<Rightarrow> nat \<Rightarrow> string" where
  "hostname file pid =
     (let h = trim (case file of None \<Rightarrow> [] | Some h \<Rightarrow> h)
      in if h = [] then ''pid-'' @ show_nat pid else h)"

section \<open>serve\<close>

definition serve_msg :: "string \<Rightarrow> CliServeArgs \<Rightarrow> bytes" where
  "serve_msg host a =
     (case cs_msg a of Some m \<Rightarrow> m | None \<Rightarrow> map of_char (''hello from urma-cli@'' @ host))"

text \<open>Up to the descriptor line, with what the server then holds.\<close>

definition serve_setup ::
  "'w liburma \<Rightarrow> CliServeArgs \<Rightarrow> bytes \<Rightarrow> TransMode \<times> TpType \<times> bool \<Rightarrow> 'w heap
     \<Rightarrow> (CliDesc \<times> val list) result option \<times> 'w heap" where
  "serve_setup L a msg m s =
     (let (mode, _, multi) = m; dev = cm_dev (cs_mode a) in
     try_drop L [] (Urma_init L s) (\<lambda>urma s.
     try_drop L [VUrma urma] (Context_create L urma dev s) (\<lambda>ctx s.
     try_drop L [VCtx ctx, VUrma urma] (CompletionQueue_new L ctx DEFAULT_DEPTH s) (\<lambda>cq s.
     try_drop L [VCq cq, VCtx ctx, VUrma urma] (Jetty_new L ctx cq (cli_opts mode multi) s) (\<lambda>jetty s.
     try_drop L [VJetty jetty, VCq cq, VCtx ctx, VUrma urma]
       (RegisteredBuf_new L ctx (cs_buf_len a) TOKEN_VALUE s) (\<lambda>buf s.
     let held = [VSeg buf, VJetty jetty, VCq cq, VCtx ctx, VUrma urma];
         seg = descriptor L buf s in
     if length msg > unat (landing_len buf) then (None, unwind L held s)
     else
     let s = write_prefix L buf msg s in
     try_drop L held (export_seg_ctx L buf s) (\<lambda>seg_ctx s.
     try_drop L held (export_rjetty L jetty s) (\<lambda>rjetty s.
       (Some (Inr (\<lparr>cd_seg = seg, cd_seg_ctx = seg_ctx, cd_rjetty = rjetty\<rparr>, held)), s)))))))))"

text \<open>The result is the descriptor line; without a terminal the call never returns.\<close>

definition serve_run ::
  "'w liburma \<Rightarrow> string \<Rightarrow> bool \<Rightarrow> CliServeArgs \<Rightarrow> 'w heap \<Rightarrow> (string result option \<times> 'w heap) option" where
  "serve_run L host tty a s =
     (case query_device L (cm_dev (cs_mode a)) s of (cap, s) \<Rightarrow>
      case cli_preflight (\<lambda>_. cap) (cs_mode a) of
        Inl e \<Rightarrow> Some (Some (Inl e), s)
      | Inr m \<Rightarrow>
          let msg = serve_msg host a in
          if length msg > unat (cs_buf_len a)
          then Some (Some (Inl (Invalid (''msg is '' @ show_nat (length msg) @ '' bytes, exceeds buf-len '' @
                 show_word (cs_buf_len a)))), s)
          else (case serve_setup L a msg m s of
              (None, s) \<Rightarrow> Some (None, s)
            | (Some (Inl e), s) \<Rightarrow> Some (Some (Inl e), s)
            | (Some (Inr (wire, held)), s) \<Rightarrow>
                if tty then Some (Some (Inr (cli_pack_desc wire)), unwind L held s) else None))"

section \<open>read\<close>

definition CLI_READ_CTX :: u64 where "CLI_READ_CTX = 0x1234"
definition HEX_PREVIEW :: nat where "HEX_PREVIEW = 32"

text \<open>The descriptor and the window, checked before anything else; the sum wraps.\<close>

definition read_input :: "string result \<Rightarrow> CliReadArgs \<Rightarrow> CliDesc result" where
  "read_input stdin a =
     rbind (if ca_desc a = ''-'' then stdin else Inr (ca_desc a)) (\<lambda>text.
     rbind (cli_unpack_desc text) (\<lambda>wire.
       if ca_offset a + ca_len a > sd_len (cd_seg wire)
       then Inl (Invalid (''offset '' @ show_word (ca_offset a) @ '' + len '' @ show_word (ca_len a) @
              '' exceeds the peer segment length '' @ show_word (sd_len (cd_seg wire))))
       else Inr wire))"

text \<open>The transfer itself, on the values \<open>held\<close>.\<close>

definition read_data ::
  "'w liburma \<Rightarrow> CliReadArgs \<Rightarrow> CliDesc \<Rightarrow> CompletionQueue \<Rightarrow> Jetty \<Rightarrow> Peer \<Rightarrow> RegisteredSeg \<Rightarrow> val list
     \<Rightarrow> 'w heap \<Rightarrow> (bytes \<times> string) result option \<times> 'w heap" where
  "read_data L a wire cq jetty peer landing held s =
     (let remote_va = sd_va (cd_seg wire) + ca_offset a; len = ucast (ca_len a) in
     try_drop L held (seg_sge landing 0 len, s) (\<lambda>sge s.
     try_drop L held (post_read L jetty peer remote_va [sge] CLI_READ_CTX s) (\<lambda>_ s.
     try_drop L held (wait_read L cq CLI_READ_CTX s) (\<lambda>comp s.
     case read_prefix L landing (ca_len a) s of
       None \<Rightarrow> (None, unwind L held s)
     | Some data \<Rightarrow> (Some (Inr (data, hex_enc (take HEX_PREVIEW data))), unwind L held s)))))"

definition read_wire ::
  "'w liburma \<Rightarrow> CliReadArgs \<Rightarrow> CliDesc \<Rightarrow> TransMode \<times> TpType \<times> bool \<Rightarrow> 'w heap
     \<Rightarrow> (bytes \<times> string) result option \<times> 'w heap" where
  "read_wire L a wire m s =
     (let (mode, tp, multi) = m; dev = cm_dev (ca_mode a) in
     try_drop L [] (Urma_init L s) (\<lambda>urma s.
     try_drop L [VUrma urma] (Context_create L urma dev s) (\<lambda>ctx s.
     if sd_eid (cd_seg wire) = ctx_eid ctx
     then (Some (Inl (Invalid (''peer eid equals this context'' @ [CHR 0x27] @ ''s eid: single-machine loopback crashes inside '' @
             ''liburma'' @ [CHR 0x27] @ ''s import path; run `serve` on another node''))),
           unwind L [VCtx ctx, VUrma urma] s)
     else
     try_drop L [VCtx ctx, VUrma urma] (CompletionQueue_new L ctx DEFAULT_DEPTH s) (\<lambda>cq s.
     try_drop L [VCq cq, VCtx ctx, VUrma urma] (Jetty_new L ctx cq (cli_opts mode multi) s) (\<lambda>jetty s.
     try_drop L [VJetty jetty, VCq cq, VCtx ctx, VUrma urma]
       (Peer_import_ctx L ctx (cd_seg_ctx wire) (cd_rjetty wire) tp TOKEN_VALUE s) (\<lambda>peer s.
     try_drop L [VPeer peer, VJetty jetty, VCq cq, VCtx ctx, VUrma urma]
       (RegisteredBuf_new L ctx (max PAGE_SIZE (ca_len a)) TOKEN_VALUE s) (\<lambda>landing s.
     read_data L a wire cq jetty peer landing [VSeg landing, VPeer peer, VJetty jetty, VCq cq, VCtx ctx, VUrma urma] s)))))))"

definition read_run ::
  "'w liburma \<Rightarrow> string result \<Rightarrow> CliReadArgs \<Rightarrow> 'w heap \<Rightarrow> (bytes \<times> string) result option \<times> 'w heap" where
  "read_run L stdin a s =
     (case read_input stdin a of
        Inl e \<Rightarrow> (Some (Inl e), s)
      | Inr wire \<Rightarrow>
          try_drop L [] (let (cap, s) = query_device L (cm_dev (ca_mode a)) s in (cli_preflight (\<lambda>_. cap) (ca_mode a), s))
            (\<lambda>m s. read_wire L a wire m s))"

section \<open>The commands\<close>

datatype cli_cmd = CliList bool | CliServe CliServeArgs | CliRead CliReadArgs

datatype cli_out = Listed "line list" | Serving string | Data bytes string

text \<open>What the program is given by its surroundings.\<close>

record surroundings =
  sr_lossy :: "bytes \<Rightarrow> string"
  sr_os_text :: "i32 \<Rightarrow> string"
  sr_host :: string
  sr_tty :: bool
  sr_stdin :: "string result"

definition out_as :: "('a \<Rightarrow> cli_out) \<Rightarrow> 'a result \<Rightarrow> cli_out result" where
  "out_as f r = rbind r (\<lambda>x. Inr (f x))"

fun run_cli ::
  "'w liburma \<Rightarrow> surroundings \<Rightarrow> cli_cmd \<Rightarrow> 'w heap \<Rightarrow> (cli_out result option \<times> 'w heap) option" where
  "run_cli L e (CliList caps) s =
     (case list_run L (sr_lossy e) (sr_os_text e) caps s of (r, s) \<Rightarrow> Some (Some (out_as Listed r), s))"
| "run_cli L e (CliServe a) s =
     map_option (\<lambda>(r, s). (map_option (out_as Serving) r, s)) (serve_run L (sr_host e) (sr_tty e) a s)"
| "run_cli L e (CliRead a) s =
     (case read_run L (sr_stdin e) a s of (r, s) \<Rightarrow>
        Some (map_option (out_as (\<lambda>(d, h). Data d h)) r, s))"

text \<open>The exit code.\<close>

fun cli_exit :: "cli_out result option \<Rightarrow> nat" where
  "cli_exit (Some (Inr _)) = 0"
| "cli_exit (Some (Inl _)) = 1"
| "cli_exit None = 101"

end
