(* ===== verification/CliCommands.thy ===== *)
theory CliCommands
  imports CliRun
begin

text \<open>
  The command line tool releases what it creates on every way out; what \<open>read\<close> asks the library for and
  what it shows; \<open>list\<close> against the probe; and one run of \<open>read\<close> evaluated.
\<close>

section \<open>Clean up\<close>

lemma inv_list_each:
  assumes "inv False {#} V s"
  shows "inv False {#} V (snd (list_each L block caps names s))"
  using assms
proof (induction names arbitrary: s)
  case (Cons name names)
  have "inv False {#} V (snd (if caps then let (r, s) = query_device L name s in (block r, s) else ([], s)))"
    using inv_queried [OF Cons.prems, of L name block] Cons.prems by simp
  then show ?case using Cons.IH by (simp add: split_beta Let_def)
qed simp

lemma inv_list_run:
  assumes "inv False {#} V s"
  shows "inv False {#} V (snd (list_run L lossy os_text caps s))"
proof -
  obtain r s' where l: "list_devices L lossy s = (r, s')" by force
  have "inv False {#} V s'" by (rule inv_list_devices [OF l assms])
  then show ?thesis
    using inv_list_each by (auto simp: list_run_def l split_beta split: sum.split)
qed

fun setup_vals :: "(CliDesc \<times> val list) result option \<Rightarrow> val multiset" where
  "setup_vals (Some (Inr (w, held))) = mset held"
| "setup_vals _ = {#}"

lemma cli_opts_priority: "opt_priority (cli_opts mode multi) \<le> URMA_MAX_PRIORITY"
  by (simp add: cli_opts_def default_JettyOpts_def)

lemma inv_serve_setup_cli:
  fixes s :: "'w heap"
  assumes inv: "inv False {#} V s"
  shows "case serve_setup L a msg m s of (r, s') \<Rightarrow> inv False {#} (setup_vals r + V) s'"
proof -
  obtain mode tp multi where m: "m = (mode, tp, multi)" by (cases m)
  define P where "P = (\<lambda>(r, s' :: 'w heap). inv False {#} (setup_vals r + V) s')"
  have err: "\<forall>e s. inv False {#} V s \<longrightarrow> P (Some (Inl e), s)" by (simp add: P_def)
  have panic: "P (None, unwind L vs s)" if "inv False {#} (mset vs + V) s" for vs s
    using inv_unwind [OF that] by (simp add: P_def)
  note rule = try_drop_rule [where P = P and ex = False and V = V, OF _ err]
  have "P (serve_setup L a msg m s)"
    unfolding serve_setup_def m Let_def prod.case
    apply (rule rule [where mk = "\<lambda>u. [VUrma u]"])
    subgoal using create_steps(1) inv by (simp add: new_vals_eq)
    apply (rule rule [where mk = "\<lambda>c. [VCtx c]"])
    subgoal premises I using create_steps(2) [OF I(3)] by (simp add: new_vals_eq)
    apply (rule rule [where mk = "\<lambda>q. [VCq q]"])
    subgoal premises I using inv_cq_held [OF I(6)] by (simp add: new_vals_eq)
    apply (rule rule [where mk = "\<lambda>j. [VJetty j]"])
    subgoal premises I
      using inv_jetty_held [OF I(9) _ _ I(7,8) cli_opts_priority] by (simp add: new_vals_eq)
    apply (rule rule [where mk = "\<lambda>g. [VSeg g]"])
    subgoal premises I using inv_buf_new [OF I(12)] by (simp add: new_vals_eq)
    apply (rule if_split [THEN iffD2], intro conjI impI)
    subgoal premises I by (rule panic) (use I(15) in simp)
    apply (rule rule [where mk = "\<lambda>_. []"])
    subgoal premises I
      using inv_exports(2) [OF inv_set_lib [OF I(15)]] by (simp add: new_vals_eq write_prefix_def)
    apply (rule rule [where mk = "\<lambda>_. []"])
    subgoal premises I using inv_exports(1) [OF I(19)] by (simp add: new_vals_eq)
    subgoal premises I using I(22) by (simp add: P_def)
    done
  then show ?thesis by (simp add: P_def)
qed

lemma inv_serve_run:
  assumes "inv False {#} V s" and "serve_run L host tty a s = Some (r, s')"
  shows "inv False {#} V s'"
proof -
  obtain cap s1 where q: "query_device L (cm_dev (cs_mode a)) s = (cap, s1)" by force
  have I1: "inv False {#} V s1" using inv_queried [OF assms(1), of L _ id] q by (metis prod.case snd_conv)
  show ?thesis
  proof (cases "cli_preflight (\<lambda>_. cap) (cs_mode a)")
    case (Inl e)
    then show ?thesis using assms(2) I1 by (simp add: serve_run_def q)
  next
    case (Inr m)
    obtain q2 s2 where f: "serve_setup L a (serve_msg host a) m s1 = (q2, s2)" by force
    have I2: "inv False {#} (setup_vals q2 + V) s2" using inv_serve_setup_cli [OF I1, of L a "serve_msg host a" m] by (simp add: f)
    show ?thesis
      using assms(2) I1 I2
      by (auto simp: serve_run_def q Inr Let_def f inv_unwind split: if_splits option.splits sum.splits prod.splits)
  qed
qed

lemma inv_read_data:
  fixes s :: "'w heap"
  assumes inv: "inv False {#} (mset held + V) s" and "VCq cq \<in> set held" "VJetty jetty \<in> set held" "VPeer peer \<in> set held"
  shows "inv False {#} V (snd (read_data L a wire cq jetty peer landing held s))"
proof -
  define P where "P = (\<lambda>(r :: (bytes \<times> string) result option, s' :: 'w heap). inv False {#} V s')"
  have err: "\<forall>e s. inv False {#} V s \<longrightarrow> P (Some (Inl e), s)" by (simp add: P_def)
  have mem: "VCq cq \<in># mset held + V" "VJetty jetty \<in># mset held + V" "VPeer peer \<in># mset held + V"
    using assms(2-4) by simp_all
  note rule = try_drop_rule [where P = P and ex = False and V = V and mk = "\<lambda>_. []", OF _ err]
  have "P (read_data L a wire cq jetty peer landing held s)"
    unfolding read_data_def Let_def
    apply (rule rule)
    subgoal using inv by (simp add: new_vals_eq)
    apply (rule rule)
    subgoal premises I using inv_one_sided(1) [OF _ mem(2,3)] I(3) by (simp add: new_vals_eq)
    apply (rule rule)
    subgoal premises I using inv_wait_read [OF _ mem(1)] I(6) by (simp add: new_vals_eq)
    subgoal premises I using inv_unwind I(9) by (auto simp: P_def split: option.split)
    done
  then show ?thesis by (simp add: P_def split_beta)
qed

lemma inv_read_wire:
  fixes s :: "'w heap"
  assumes inv: "inv False {#} V s"
  shows "inv False {#} V (snd (read_wire L a wire m s))"
proof -
  obtain mode tp multi where m: "m = (mode, tp, multi)" by (cases m)
  define P where "P = (\<lambda>(r :: (bytes \<times> string) result option, s' :: 'w heap). inv False {#} V s')"
  have err: "\<forall>e s. inv False {#} V s \<longrightarrow> P (Some (Inl e), s)" by (simp add: P_def)
  note rule = try_drop_rule [where P = P and ex = False and V = V, OF _ err]
  have "P (read_wire L a wire m s)"
    unfolding read_wire_def m Let_def prod.case
    apply (rule rule [where mk = "\<lambda>u. [VUrma u]"])
    subgoal using create_steps(1) inv by (simp add: new_vals_eq)
    apply (rule rule [where mk = "\<lambda>c. [VCtx c]"])
    subgoal premises I using create_steps(2) [OF I(3)] by (simp add: new_vals_eq)
    apply (rule if_split [THEN iffD2], intro conjI impI)
    subgoal premises I using inv_unwind [of False "[VCtx _, VUrma _]" V] I(6) by (simp add: P_def)
    apply (rule rule [where mk = "\<lambda>q. [VCq q]"])
    subgoal premises I using inv_cq_held [OF I(6)] by (simp add: new_vals_eq)
    apply (rule rule [where mk = "\<lambda>j. [VJetty j]"])
    subgoal premises I
      using inv_jetty_held [OF I(10) _ _ I(8,9) cli_opts_priority] by (simp add: new_vals_eq)
    apply (rule rule [where mk = "\<lambda>p. [VPeer p]"])
    subgoal premises I using inv_import_ctx [OF I(13)] by (simp add: new_vals_eq)
    apply (rule rule [where mk = "\<lambda>g. [VSeg g]"])
    subgoal premises I using inv_buf_new [OF I(16)] by (simp add: new_vals_eq)
    subgoal premises I unfolding P_def split_beta by (rule inv_read_data) (use I(19) in simp_all)
    done
  then show ?thesis by (simp add: P_def split_beta)
qed

lemma inv_read_run:
  fixes s :: "'w heap"
  assumes inv: "inv False {#} V s"
  shows "inv False {#} V (snd (read_run L stdin a s))"
proof (cases "read_input stdin a")
  case (Inr wire)
  define P where "P = (\<lambda>(r :: (bytes \<times> string) result option, s' :: 'w heap). inv False {#} V s')"
  have err: "\<forall>e s. inv False {#} V s \<longrightarrow> P (Some (Inl e), s)" by (simp add: P_def)
  note rule = try_drop_rule [where P = P and ex = False and V = V and mk = "\<lambda>_. []", OF _ err]
  have "P (read_run L stdin a s)"
    unfolding read_run_def Inr sum.case
    apply (rule rule)
    subgoal using inv_queried [OF inv] by (simp add: new_vals_eq)
    subgoal premises I using inv_read_wire I(3) by (simp add: P_def split_beta)
    done
  then show ?thesis by (simp add: P_def split_beta)
qed (use inv in \<open>simp add: read_run_def\<close>)

lemma inv_run_cli:
  assumes "inv False {#} V s" and "run_cli L e c s = Some (r, s')"
  shows "inv False {#} V s'"
proof (cases c)
  case (CliList caps)
  then show ?thesis
    using assms inv_list_run [OF assms(1), of L "sr_lossy e" "sr_os_text e" caps] by (simp add: split_beta)
next
  case (CliServe a)
  then show ?thesis using assms inv_serve_run [OF assms(1)] by auto
next
  case (CliRead a)
  then show ?thesis
    using assms inv_read_run [OF assms(1), of L "sr_stdin e" a] by (simp add: split_beta)
qed


section \<open>No panic\<close>

lemma no_panic_read: "fst (read_run L stdin a s) \<noteq> None"
proof -
  have data: "fst (read_data L a wire cq jetty peer landing held s) \<noteq> None"
    if "RegisteredBuf_new L ctx (max PAGE_SIZE (ca_len a)) TOKEN_VALUE s0 = (Inr landing, s)"
    for wire cq jetty peer landing held s ctx s0
  proof -
    have "ca_len a \<le> landing_len landing" using registered_len [OF that] by simp
    then show ?thesis
      unfolding read_data_def Let_def by (intro try_drop_safe) (auto simp: read_prefix_def)
  qed
  have "fst (read_wire L a wire m s) \<noteq> None" for wire m s
  proof (cases m)
    case (fields mode tp multi)
    show ?thesis
      unfolding read_wire_def fields Let_def prod.case
      apply (intro try_drop_safe)
      apply (rule if_split [where P = "\<lambda>r. fst r \<noteq> None", THEN iffD2], intro conjI impI, simp)
      apply (intro try_drop_safe, erule data)
      done
  qed
  then show ?thesis
    unfolding read_run_def by (cases "read_input stdin a") (simp, simp only: sum.case, rule try_drop_safe)
qed

lemma no_panic_serve:
  assumes "serve_run L host tty a s = Some (r, s')"
  shows "r \<noteq> None"
proof -
  have made: "fst (serve_setup L a msg m s) \<noteq> None" if "length msg \<le> unat (cs_buf_len a)" for msg m s
  proof (cases m)
    case (fields mode tp multi)
    have short: "\<not> length msg > unat (landing_len buf)"
      if "RegisteredBuf_new L ctx (cs_buf_len a) TOKEN_VALUE s0 = (Inr buf, s)" for ctx buf s0 s
      using registered_len [OF that] \<open>length msg \<le> unat (cs_buf_len a)\<close> by simp
    show ?thesis
      unfolding serve_setup_def fields Let_def prod.case
      apply (intro try_drop_safe)
      apply (subst if_not_P, erule short)
      apply (intro try_drop_safe, simp)
      done
  qed
  obtain cap s1 where q: "query_device L (cm_dev (cs_mode a)) s = (cap, s1)" by force
  show ?thesis
  proof (cases "cli_preflight (\<lambda>_. cap) (cs_mode a)")
    case (Inr m)
    show ?thesis
      using assms made [of "serve_msg host a" m s1]
      by (auto simp: serve_run_def q Inr Let_def split: sum.splits if_splits option.splits prod.splits)
  qed (use assms in \<open>auto simp: serve_run_def q\<close>)
qed

lemma no_panic_cli: "run_cli L e c s = Some (r, s') \<Longrightarrow> r \<noteq> None"
proof (cases c)
  case (CliServe a)
  then show "run_cli L e c s = Some (r, s') \<Longrightarrow> r \<noteq> None" using no_panic_serve by auto
next
  case (CliRead a)
  then show "run_cli L e c s = Some (r, s') \<Longrightarrow> r \<noteq> None"
    using no_panic_read [of L "sr_stdin e" a s] by (auto simp: split_beta)
qed (auto simp: split_beta)

section \<open>Properties\<close>

text \<open>
  C18 (the command line tool). Whatever its arguments, its input and the library's answers, a command
  that returns does not panic, and has by the end of its thread deleted every library object it
  created, none before an object that depends on it, and left the library uninitialised.
\<close>

theorem cli_commands_clean:
  assumes "run_cli L e c (pheap (start w)) = Some (r, s)" and "honest (event_log (thread_exit L s))"
  shows "r \<noteq> None \<and> prun proto_init (event_log (thread_exit L s)) = Some proto_init"
  using inv_thread_exit_clean [OF inv_run_cli [OF inv_fresh assms(1)] assms(2)] no_panic_cli [OF assms(1)] by simp

text \<open>
  C19 (what read asks for and shows). A run that shows data posted one READ of the length asked for, as
  a 32-bit number, at the peer's segment address plus the offset, waited for it and took as many bytes
  as were asked for from the start of its buffer. If the sum of offset and length does not wrap, the
  window lies in the peer's segment.
\<close>

theorem read_window:
  "case read_run L stdin a s of
     (Some (Inr (data, _)), _) \<Rightarrow>
       \<exists>wire cq jetty peer (landing :: RegisteredSeg) s1 s2 s3 cr.
         read_input stdin a = Inr wire
         \<and> post_read L jetty peer (sd_va (cd_seg wire) + ca_offset a)
             [\<lparr>ls_tseg = rs_tseg landing, ls_addr = rs_va landing, ls_len = ucast (ca_len a)\<rparr>] CLI_READ_CTX s1 = (Inr (), s2)
         \<and> wait_read L cq CLI_READ_CTX s2 = (Inr cr, s3)
         \<and> data = l_read_bytes L (rs_va landing) (unat (ca_len a)) (lib_state s3)
         \<and> (if unat (ca_offset a) + unat (ca_len a) < 2 ^ 64
            then unat (ca_offset a) + unat (ca_len a) \<le> unat (sd_len (cd_seg wire)) else True)
   | _ \<Rightarrow> True"
proof (cases "\<exists>data h s'. read_run L stdin a s = (Some (Inr (data, h)), s')")
  case True
  then obtain data h s' where run: "read_run L stdin a s = (Some (Inr (data, h)), s')" by blast
  then obtain wire where wire: "read_input stdin a = Inr wire"
    by (cases "read_input stdin a") (auto simp: read_run_def)
  have win: "if unat (ca_offset a) + unat (ca_len a) < 2 ^ 64
      then unat (ca_offset a) + unat (ca_len a) \<le> unat (sd_len (cd_seg wire)) else True"
    using wire by (auto simp: read_input_def res_simps word_less_nat_alt unat_word_ariths not_less split: if_splits)
  obtain m s0 where "read_wire L a wire m s0 = (Some (Inr (data, h)), s')"
    using run by (auto simp: read_run_def wire try_drop_Inr)
  then obtain cq jetty peer landing held s1 where
    "read_data L a wire cq jetty peer landing held s1 = (Some (Inr (data, h)), s')"
    by (cases m) (auto simp: read_wire_def try_drop_Inr Let_def split: if_splits)
  then obtain s2 s3 cr where
    "post_read L jetty peer (sd_va (cd_seg wire) + ca_offset a)
        [\<lparr>ls_tseg = rs_tseg landing, ls_addr = rs_va landing, ls_len = ucast (ca_len a)\<rparr>] CLI_READ_CTX s1 = (Inr (), s2)"
      "wait_read L cq CLI_READ_CTX s2 = (Inr cr, s3)"
      "data = l_read_bytes L (rs_va landing) (unat (ca_len a)) (lib_state s3)"
    by (auto simp: read_data_def Let_def try_drop_Inr seg_sge_def LocalSge_new_def read_prefix_def
        split: if_splits option.splits)
  with wire win show ?thesis
    unfolding run prod.case option.case sum.case
    by (intro exI [of _ wire] exI [of _ cq] exI [of _ jetty] exI [of _ peer] exI [of _ landing] exI [of _ s1]
        exI [of _ s2] exI [of _ s3] exI [of _ cr] conjI)
next
  case False
  then show ?thesis by (auto split: prod.splits option.splits sum.splits)
qed

text \<open>
  On list and the probe: The list command succeeds exactly when the probe exits with 0, and both leave
  the library alike; without --caps both print exactly the device names, with it equally many lines.
\<close>

theorem list_agrees_with_probe:
  "case (list_run L lossy os_text caps s, probe_main L lossy os_text (if caps then [''--caps''] else []) s) of
     ((r, s1), ((ls, code), s2)) \<Rightarrow>
       s1 = s2 \<and> (case r of Inl _ \<Rightarrow> code = 1 \<and> length ls = 1
         | Inr ls' \<Rightarrow> code = 0 \<and> (\<exists>names. fst (list_devices L lossy s) = Inr names
             \<and> (if caps then length ls = length ls' else ls = ls' \<and> ls = map StdOut names)))"
proof -
  have same: "snd (list_each L b1 caps ns s) = snd (list_each L b2 caps ns s)" for b1 b2 caps ns s
    by (induction ns arbitrary: s) (auto simp: split_beta Let_def)
  have plain: "fst (list_each L b False ns s) = map StdOut ns" for b ns s
    by (induction ns arbitrary: s) (auto simp: split_beta Let_def)
  have lens: "length (fst (list_each L (caps_block m1 c1 l1 os_text) caps ns s))
      = length (fst (list_each L (caps_block m2 c2 l2 os_text) caps ns s))" for m1 c1 l1 m2 c2 l2 caps ns s
  proof (induction ns arbitrary: s)
    case (Cons n ns)
    have "length (caps_block m1 c1 l1 os_text r) = length (caps_block m2 c2 l2 os_text r)" for r
      by (simp add: caps_block_def split: sum.split)
    then show ?case using Cons.IH by (simp add: split_beta Let_def)
  qed simp
  show ?thesis
    by (cases "list_devices L lossy s"; cases "fst (list_devices L lossy s)"; cases caps)
      (auto simp: list_run_def probe_main_def split_beta plain intro: same lens [simplified])
qed

end
