(* ===== verification/CliDemo.thy ===== *)
theory CliDemo
  imports BenchCommands CliCommands
begin

text \<open>
  One run of \<open>read\<close>, evaluated from the descriptor line to the data, with an offset that makes the
  window's end wrap around. The library takes only READs at the address 4 bytes below the segment.
\<close>

definition outside_lib :: "demo liburma" where
  "outside_lib = bench_lib\<lparr>l_post_send_wr := \<lambda>_ wr sges _ d.
     (if sge_addr (sges (SrcSge 0)) = 0x12345674 then 0 else 1, d\<lparr>d_sent := d_sent d @ [wr]\<rparr>)\<rparr>"

definition cli_wire :: CliDesc where
  "cli_wire = \<lparr>cd_seg = wd_seg demo_wire, cd_seg_ctx = replicate 48 0xaa, cd_rjetty = replicate 55 0xbb\<rparr>"

definition wrapped_read :: CliReadArgs where
  "wrapped_read = \<lparr>ca_mode = \<lparr>cm_dev = ''udma0'', cm_mode = Rm, cm_tp = Ctp, cm_multi_path = False\<rparr>,
     ca_desc = cli_pack_desc cli_wire, ca_offset = - 4, ca_len = 4\<rparr>"

definition cli_cr :: urma_cr_t where
  "cli_cr = default_urma_cr_t\<lparr>cr_user_ctx := CLI_READ_CTX\<rparr>"

definition cli_s0 :: "demo heap" where
  "cli_s0 = pheap (start (demo_start [] [[cli_cr]]))"

lemma outside_lib_eq: "outside_lib = demo_lib\<lparr>l_query_device := \<lambda>_ d. (0, rm_attr, d),
    l_read_bytes := \<lambda>_ n _. fill_pat (replicate n 0),
    l_post_send_wr := \<lambda>_ wr sges _ d.
     (if sge_addr (sges (SrcSge 0)) = 0x12345674 then 0 else 1, d\<lparr>d_sent := d_sent d @ [wr]\<rparr>)\<rparr>"
  by (simp add: outside_lib_def bench_lib_eq)

lemma wrapped_input: "read_input stdin wrapped_read = Inr cli_wire"
proof -
  have ok: "cli_ok cli_wire" by (simp add: cli_ok_def cli_wire_def)
  have "cli_unpack_desc (cli_pack_desc cli_wire) = Inr cli_wire"
    using ok by (simp add: cli_unpack_desc_def cli_pack_desc_def hex_dec_enc cli_desc.whole_iff)
  moreover have "cli_pack_desc cli_wire \<noteq> ''-''"
  proof
    assume "cli_pack_desc cli_wire = ''-''"
    then have "length (cli_pack_desc cli_wire) = 1" by simp
    then show False by (simp add: cli_pack_desc_def length_hex_enc)
  qed
  ultimately show ?thesis
    by (simp add: read_input_def wrapped_read_def cli_wire_def)
qed

lemma wrapped_mode: "cli_preflight (\<lambda>_. Inr (DeviceCap_from_raw (da_dev_cap rm_attr))) (ca_mode wrapped_read)
    = Inr (Rm, Ctp, False)"
proof -
  have "missing_combo (DeviceCap_from_raw (da_dev_cap rm_attr)) Rm Ctp = []"
    unfolding missing_combo_empty
    by (simp add: supports_def supports_mode_def DeviceCap_from_raw_def rm_attr_def
      default_urma_device_cap_t_def tp_cap_of_def ffi_const cap_ctp_def ctp_en_def)
  then show ?thesis by (simp add: cli_preflight_def wrapped_read_def Let_def starts_with_def)
qed

definition cli_s1 :: "demo heap" where
  "cli_s1 = \<lparr>lib_state = demo_start [] [[cli_cr]], event_log = [EInit, EUse [], EUse []],
     urma_cells = [1], init_slot = Some 0, ctx_cells = [], cq_cells = []\<rparr>"

definition cli_held :: "val list" where
  "cli_held = [VSeg \<lparr>rs_tseg = 10, rs_va = 9, rs_len = 4096, rs_ctx = demo_ctx, rs_buf = Some \<lparr>pb_ptr = 9, pb_size = 4096\<rparr>\<rparr>,
     VPeer \<lparr>peer_tseg = 7, peer_tjetty = 8, peer_ctx = demo_ctx\<rparr>,
     VJetty \<lparr>j_jfr = 5, j_raw = 6, j_id = JettyId_from_raw default_urma_jetty_id_t, j_max_sge = 1, j_cq = \<lparr>cq_inner = 0\<rparr>\<rparr>,
     VCq \<lparr>cq_inner = 0\<rparr>, VCtx demo_ctx, VUrma \<lparr>urma_inner = 0\<rparr>]"

lemma cli_query: "query_device outside_lib ''udma0'' cli_s0 = (Inr (DeviceCap_from_raw (da_dev_cap rm_attr)), cli_s1)"
  by (simp add: query_device_def exec_defs outside_lib_eq cli_s0_def cli_s1_def ffi_const cong: let_weak_cong)

lemma cli_import: "Peer_import_ctx outside_lib c (replicate 48 0xaa) (replicate 55 0xbb) tp tok s =
    (let b = 0xaa; r = 0xbb in import_both outside_lib c (InBytes (replicate 48 b))
       (InBytes (write_u32 TP_TYPE_OFFSET (tp_raw tp) (replicate 55 r @ [0]))) tok s)"
  by (simp add: Peer_import_ctx_def aligned_blob_def)

lemma wrapped_args [simp]:
  "cm_dev (ca_mode wrapped_read) = ''udma0''" "ca_offset wrapped_read = - 4" "ca_len wrapped_read = 4"
  by (simp_all add: wrapped_read_def)

lemma cli_wire_simps [simp]:
  "sd_eid (cd_seg cli_wire) = replicate 16 0x11" "sd_va (cd_seg cli_wire) = 0x12345678"
  "cd_seg_ctx cli_wire = replicate 48 0xaa" "cd_rjetty cli_wire = replicate 55 0xbb"
  by (simp_all add: cli_wire_def)

definition cli_jetty :: Jetty where
  "cli_jetty = \<lparr>j_jfr = 5, j_raw = 6, j_id = JettyId_from_raw default_urma_jetty_id_t, j_max_sge = 1, j_cq = \<lparr>cq_inner = 0\<rparr>\<rparr>"

definition cli_peer :: Peer where
  "cli_peer = \<lparr>peer_tseg = 7, peer_tjetty = 8, peer_ctx = demo_ctx\<rparr>"

definition cli_landing :: RegisteredSeg where
  "cli_landing = \<lparr>rs_tseg = 10, rs_va = 9, rs_len = 4096, rs_ctx = demo_ctx, rs_buf = Some \<lparr>pb_ptr = 9, pb_size = 4096\<rparr>\<rparr>"

lemma cli_setup: "read_wire outside_lib wrapped_read cli_wire (Rm, Ctp, False) cli_s1
    = read_data outside_lib wrapped_read cli_wire \<lparr>cq_inner = 0\<rparr> cli_jetty cli_peer cli_landing cli_held
       (demo_s2 [] [[cli_cr]] [])"
  unfolding read_wire_def
  using demo_eid
  by (simp add: exec_defs outside_lib_eq ffi_const try_drop_simps
    cli_import [unfolded outside_lib_eq] cli_s1_def cli_opts_def cli_jetty_def cli_peer_def cli_landing_def
    cli_held_def demo_s2_def demo_ctx_def cong: let_weak_cong try_drop_weak_cong)
   (simp add: eval_nat_numeral)

definition cli_sge :: LocalSge where
  "cli_sge = \<lparr>ls_tseg = 10, ls_addr = 9, ls_len = 4\<rparr>"

lemma cli_post: "\<exists>wr. post_read outside_lib cli_jetty cli_peer 0x12345674 [cli_sge] CLI_READ_CTX (demo_s2 [] polls [])
    = (Inr (), demo_s2 [wr] polls [EUse [OJetty 6, OImpJetty 8]])"
  by (simp add: post_read_def post_read_signaled_def check_local_def ffi_post_send_def demo_s2_def outside_lib_eq exec_defs
      cli_jetty_def cli_peer_def cli_sge_def ffi_const checked_add_def remote_sge_def default_urma_sge_t_def cong: let_weak_cong)

lemma cli_wait_loop: "wait_read_loop outside_lib \<lparr>cq_inner = 0\<rparr> CLI_READ_CTX (Suc k) (demo_s2 sent [[cli_cr]] es)
    = (Inr (completion_of cli_cr), demo_s2 sent [] (es @ [EUse [OJfc 4]]))"
  by (simp add: demo_s2_def outside_lib_eq exec_defs cli_cr_def default_urma_cr_t_def completion_of_def
      is_success_def written_def ffi_const cong: let_weak_cong)

lemma cli_wait: "wait_read outside_lib \<lparr>cq_inner = 0\<rparr> CLI_READ_CTX (demo_s2 sent [[cli_cr]] es)
    = (Inr (completion_of cli_cr), demo_s2 sent [] (es @ [EUse [OJfc 4]]))"
  using cli_wait_loop [of 99 sent es] by (simp add: wait_read_def POLL_RETRIES_def)

lemma cli_read: "\<exists>sent. read_wire outside_lib wrapped_read cli_wire (Rm, Ctp, False) cli_s1
    = (Some (Inr (fill_pat [0, 0, 0, 0], hex_enc (fill_pat [0, 0, 0, 0]))),
       unwind outside_lib cli_held (demo_s2 sent [] [EUse [OJetty 6, OImpJetty 8], EUse [OJfc 4]]))"
proof -
  obtain wr where wr: "post_read outside_lib cli_jetty cli_peer 0x12345674 [cli_sge] CLI_READ_CTX (demo_s2 [] [[cli_cr]] [])
    = (Inr (), demo_s2 [wr] [[cli_cr]] [EUse [OJetty 6, OImpJetty 8]])" using cli_post by blast
  have sge: "seg_sge cli_landing 0 4 = Inr cli_sge"
    by (simp add: seg_sge_def LocalSge_new_def cli_landing_def cli_sge_def checked_add_def)
  have read: "read_prefix outside_lib cli_landing 4 s = Some (fill_pat [0, 0, 0, 0])" for s
  proof -
    have "replicate 4 (0 :: u8) = [0, 0, 0, 0]" by (simp add: numeral_eq_Suc)
    then show ?thesis by (simp add: read_prefix_def cli_landing_def landing_len_def outside_lib_eq)
  qed
  have short: "take HEX_PREVIEW (fill_pat [0, 0, 0, 0]) = fill_pat [0, 0, 0, 0]"
    by (simp add: HEX_PREVIEW_def fill_pat_def)
  show ?thesis
    by (intro exI [of _ "[wr]"])
      (simp add: cli_setup read_data_def Let_def sge wr cli_wait read short try_drop_simps cong: try_drop_weak_cong)
qed


theorem cli_commands_clean_witness:
  "\<exists>s. run_cli outside_lib \<lparr>sr_lossy = \<lambda>_. [], sr_os_text = \<lambda>_. [], sr_host = [], sr_tty = False, sr_stdin = Inl (Io [])\<rparr>
        (CliRead wrapped_read) (pheap (start (demo_start [] [[cli_cr]])))
      = Some (Some (Inr (Data (fill_pat [0, 0, 0, 0]) (hex_enc (fill_pat [0, 0, 0, 0])))), s)
    \<and> prun proto_init (event_log (thread_exit outside_lib s)) = Some proto_init"
proof -
  let ?e = "\<lparr>sr_lossy = \<lambda>_. [], sr_os_text = \<lambda>_. [], sr_host = [], sr_tty = False, sr_stdin = Inl (Io [])\<rparr>"
  obtain sent where sent: "read_wire outside_lib wrapped_read cli_wire (Rm, Ctp, False) cli_s1
    = (Some (Inr (fill_pat [0, 0, 0, 0], hex_enc (fill_pat [0, 0, 0, 0]))),
       unwind outside_lib cli_held (demo_s2 sent [] [EUse [OJetty 6, OImpJetty 8], EUse [OJfc 4]]))"
    using cli_read by blast
  define s where "s = unwind outside_lib cli_held (demo_s2 sent [] [EUse [OJetty 6, OImpJetty 8], EUse [OJfc 4]])"
  have run: "run_cli outside_lib ?e (CliRead wrapped_read) (pheap (start (demo_start [] [[cli_cr]])))
      = Some (Some (Inr (Data (fill_pat [0, 0, 0, 0]) (hex_enc (fill_pat [0, 0, 0, 0])))), s)"
    unfolding cli_s0_def [symmetric]
    by (simp add: read_run_def wrapped_input cli_query wrapped_mode try_drop_simps sent s_def out_as_def
        cong: try_drop_weak_cong)
  have "honest (event_log (thread_exit outside_lib s))"
    by (simp add: s_def exec_defs outside_lib_eq cli_held_def demo_s2_def demo_ctx_def ffi_const honest_def
      cong: let_weak_cong)
  then show ?thesis using run cli_commands_clean [OF run] by blast
qed

end
