(* ===== verification/UrmaLookup.thy ===== *)
theory UrmaLookup
  imports LookupRuns Holding
begin

text \<open>
  The data plane of the lookup demo over URMA (\<open>UrmaTransport\<close> of \<open>examples/urma_lookup.rs\<close>). Every
  client is a process with a library and a heap of its own, so the state of the transport is the struct
  together with that heap. What clients hold stays owned whatever the others do, and where the records
  are that a client reads.
\<close>

section \<open>The transport\<close>

record UrmaTransport =
  ut_ctx :: Context
  ut_cq :: CompletionQueue
  ut_jetty :: Jetty
  ut_buf :: RegisteredSeg
  ut_seg_ctx :: bytes
  ut_rjetty :: bytes
  ut_peers :: "Peer option list"
  ut_urma :: Urma

definition UrmaTransport_new ::
  "'w liburma \<Rightarrow> string \<Rightarrow> 'w heap \<Rightarrow> UrmaTransport result option \<times> 'w heap" where
  "UrmaTransport_new L dev s =
     try_drop L [] (let (cap, s) = query_device L dev s in (check_mode_support (\<lambda>_. cap) dev, s)) (\<lambda>_ s.
     try_drop L [] (Urma_init L s) (\<lambda>urma s.
     try_drop L [VUrma urma] (Context_create L urma dev s) (\<lambda>ctx s.
     try_drop L [VCtx ctx, VUrma urma] (CompletionQueue_new L ctx DEFAULT_DEPTH s) (\<lambda>cq s.
     try_drop L [VCq cq, VCtx ctx, VUrma urma]
       (Jetty_new L ctx cq (default_JettyOpts\<lparr>opt_multi_path := starts_with dev ''bonding''\<rparr>) s) (\<lambda>jetty s.
     try_drop L [VJetty jetty, VCq cq, VCtx ctx, VUrma urma]
       (RegisteredBuf_new L ctx (of_nat buf_len) TOKEN_VALUE s) (\<lambda>buf s.
     try_drop L [VSeg buf, VJetty jetty, VCq cq, VCtx ctx, VUrma urma] (export_seg_ctx L buf s) (\<lambda>seg_ctx s.
     try_drop L [VSeg buf, VJetty jetty, VCq cq, VCtx ctx, VUrma urma] (export_rjetty L jetty s) (\<lambda>rjetty s.
       (Some (Inr \<lparr>ut_ctx = ctx, ut_cq = cq, ut_jetty = jetty, ut_buf = buf, ut_seg_ctx = seg_ctx,
          ut_rjetty = rjetty, ut_peers = [], ut_urma = urma\<rparr>), s)))))))))"

type_synonym 'w urma_node = "UrmaTransport \<times> 'w heap"

definition urma_desc :: "'w liburma \<Rightarrow> 'w urma_node \<Rightarrow> PeerDesc" where
  "urma_desc L n =
     (case n of (t, s) \<Rightarrow> PeerDesc_of (descriptor L (ut_buf t) s) (j_id (ut_jetty t)) (ut_seg_ctx t) (ut_rjetty t))"

definition urma_with_buf :: "'w liburma \<Rightarrow> (bytes \<Rightarrow> bytes option) \<Rightarrow> 'w urma_node \<Rightarrow> 'w urma_node option" where
  "urma_with_buf L f n =
     (case n of (t, s) \<Rightarrow>
        map_option (\<lambda>bs. (t, set_lib (l_write_bytes L (rs_va (ut_buf t)) bs (lib_state s)) s))
          (f (l_read_bytes L (rs_va (ut_buf t)) (unat (landing_len (ut_buf t))) (lib_state s))))"

definition grow_peers :: "nat \<Rightarrow> Peer option list \<Rightarrow> Peer option list" where
  "grow_peers idx ps = (if length ps \<le> idx then ps @ replicate (idx + 1 - length ps) None else ps)"

text \<open>Assigning to a slot drops the peer it held.\<close>

definition drop_slot :: "'w liburma \<Rightarrow> Peer option \<Rightarrow> 'w heap \<Rightarrow> 'w heap" where
  "drop_slot L old s = (case old of None \<Rightarrow> s | Some p \<Rightarrow> drop_val L (VPeer p) s)"

definition urma_import ::
  "'w liburma \<Rightarrow> nat \<Rightarrow> OwnerInfo \<Rightarrow> 'w urma_node \<Rightarrow> unit result option \<times> 'w urma_node" where
  "urma_import L idx o' n =
     (case check_loopback (urma_desc L n) (oi_desc o') of
        Inl e \<Rightarrow> (Some (Inl e), n)
      | Inr _ \<Rightarrow>
          (case n of (t, s) \<Rightarrow>
             let ps = grow_peers idx (ut_peers t) in
             case import_peer L (ut_ctx t) (oi_desc o') s of
               (Inl e, s) \<Rightarrow> (Some (Inl e), (t\<lparr>ut_peers := ps\<rparr>, s))
             | (Inr peer, s) \<Rightarrow>
                 (Some (Inr ()), (t\<lparr>ut_peers := ps[idx := Some peer]\<rparr>, drop_slot L (ps ! idx) s))))"

text \<open>The answer of a call that cannot panic, and one that can, on the heap.\<close>

definition then_ok ::
  "'a result \<times> 'w heap \<Rightarrow> ('a \<Rightarrow> 'w heap \<Rightarrow> 'b result option \<times> 'w heap) \<Rightarrow> 'b result option \<times> 'w heap" where
  "then_ok r k = (case r of (Inl e, s) \<Rightarrow> (Some (Inl e), s) | (Inr x, s) \<Rightarrow> k x s)"

definition read_scratch :: "'w liburma \<Rightarrow> RegisteredSeg \<Rightarrow> 'w heap \<Rightarrow> bytes option" where
  "read_scratch L g s =
     (if SCRATCH_OFF_lookup + MSG_SIZE > unat (landing_len g) then None
      else Some (l_read_bytes L (rs_va g + of_nat SCRATCH_OFF_lookup) MSG_SIZE (lib_state s)))"

definition urma_read_record ::
  "'w liburma \<Rightarrow> nat \<Rightarrow> OwnerInfo \<Rightarrow> u32 \<Rightarrow> 'w urma_node \<Rightarrow> bytes result option \<times> 'w urma_node" where
  "urma_read_record L idx o' rid n =
     (case n of (t, s) \<Rightarrow>
        let remote_va = pd_seg_va (oi_desc o') + ucast (rid - oi_first o') * of_nat MSG_SIZE;
            user_ctx = ucast rid :: u64 in
        if idx \<ge> length (ut_peers t) then (None, (t, s))
        else case ut_peers t ! idx of
          None \<Rightarrow> (Some (Inl (Invalid ''owner not imported'')), (t, s))
        | Some peer \<Rightarrow>
            let (r, s) =
              then_ok (seg_sge (ut_buf t) (of_nat SCRATCH_OFF_lookup) (of_nat MSG_SIZE), s) (\<lambda>sge s.
              then_ok (post_read L (ut_jetty t) peer remote_va [sge] user_ctx s) (\<lambda>_ s.
              then_ok (wait_read L (ut_cq t) user_ctx s) (\<lambda>_ s.
                (map_option Inr (read_scratch L (ut_buf t) s), s))))
            in (r, (t, s)))"

definition urma_transport :: "'w liburma \<Rightarrow> 'w urma_node Transport" where
  "urma_transport L =
     \<lparr>tr_init = (\<lambda>n. (Inr (), n)),
      tr_data_port = (\<lambda>_. 0),
      tr_desc = urma_desc L,
      tr_set_first = (\<lambda>_ n. n),
      tr_with_buf = urma_with_buf L,
      tr_import = urma_import L,
      tr_read_record = (\<lambda>_. urma_read_record L)\<rparr>"

text \<open>The fields are dropped in declaration order.\<close>

definition peer_vals :: "Peer option list \<Rightarrow> val list" where
  "peer_vals ps = concat (map (\<lambda>p. case p of None \<Rightarrow> [] | Some p \<Rightarrow> [VPeer p]) ps)"

definition transport_vals :: "UrmaTransport \<Rightarrow> val list" where
  "transport_vals t = [VCtx (ut_ctx t), VCq (ut_cq t), VJetty (ut_jetty t), VSeg (ut_buf t)]
     @ peer_vals (ut_peers t) @ [VUrma (ut_urma t)]"

definition drop_UrmaTransport :: "'w liburma \<Rightarrow> 'w urma_node \<Rightarrow> 'w heap" where
  "drop_UrmaTransport L n = (case n of (t, s) \<Rightarrow> unwind L (transport_vals t) s)"

section \<open>What every operation of a transport keeps\<close>

locale kept_transport =
  fixes T :: "'t Transport" and K :: "'t \<Rightarrow> bool"
  assumes keep_init: "K t \<Longrightarrow> K (snd (tr_init T t))"
    and keep_first: "K t \<Longrightarrow> K (tr_set_first T f t)"
    and keep_buf: "K t \<Longrightarrow> tr_with_buf T g t = Some t' \<Longrightarrow> K t'"
    and keep_import: "K t \<Longrightarrow> K (snd (tr_import T idx o' t))"
    and keep_read: "K t \<Longrightarrow> K (snd (tr_read_record T net idx o' rid t))"
begin

lemma keep_call:
  assumes "after_call c m r k = (c', m')" and "K (snd r)" and "\<And>x c. cl_tr (k x c) = cl_tr c"
  shows "K (cl_tr c')"
  using assms by (auto simp: after_call_def Let_def split: prod.splits option.splits sum.splits)

lemma keep_turn:
  assumes "run_client B T net (cl_phase c) c m = Some (c', m')" and "K (cl_tr c)"
  shows "K (cl_tr c')"
proof (cases "cl_phase c")
  case Initial
  then show ?thesis
    using assms keep_init [OF assms(2)] by (auto simp: turn_init_def split_beta dest!: keep_call)
next
  case (Ranged f)
  then show ?thesis
    using assms keep_buf [OF assms(2)] by (auto simp: turn_write_def split: option.splits)
next
  case (Importing f os idx)
  then show ?thesis
    using assms keep_import [OF assms(2)] by (auto simp: turn_import_def dest!: keep_call split: if_splits)
next
  case (Fetching f os rid)
  then show ?thesis
    using assms keep_read [OF assms(2)] by (auto simp: turn_fetch_def dest!: keep_call split: if_splits option.splits)
qed (use assms keep_first [OF assms(2)] in \<open>auto simp: turn_register_def turn_publish_def m_register_publish_def turn_set_first_def
    turn_ready_def m_ready_arrive_def turn_directory_def turn_done_def m_done_arrive_def turn_leave_def
    split: if_splits sum.splits prod.splits\<close>)

lemma keep_step:
  assumes "lookup_step B T s s'" and "\<forall>c \<in> set (lk_clients s). K (cl_tr c)"
  shows "\<forall>c \<in> set (lk_clients s'). K (cl_tr c)"
  using assms(1)
proof (rule lookup_stepE)
  fix i assume "client_turn B T i s = Some s'"
  then obtain c' m' where c: "run_client B T (net_of T (lk_clients s)) (cl_phase (lk_clients s ! i)) (lk_clients s ! i)
      (lk_master s) = Some (c', m')" "s' = \<lparr>lk_master = m', lk_clients = (lk_clients s)[i := c']\<rparr>" "i < length (lk_clients s)"
    by (auto simp: client_turn_def Let_def split: if_splits)
  then show ?thesis
    using keep_turn [OF c(1)] assms(2) by (auto dest!: subsetD [OF set_update_subset_insert])
next
  fix i e assume "s' = client_fails i e s" "i < length (lk_clients s)"
  then show ?thesis
    using assms(2) by (auto simp: client_fails_def dest!: subsetD [OF set_update_subset_insert])
qed

lemma keep_run:
  assumes "(lookup_step B T)\<^sup>*\<^sup>* s s'" and "\<forall>c \<in> set (lk_clients s). K (cl_tr c)"
  shows "\<forall>c \<in> set (lk_clients s'). K (cl_tr c)"
  using assms by (induction rule: rtranclp_induct) (auto dest: keep_step)

end

section \<open>The URMA transport keeps what it holds\<close>

definition holds :: "'w urma_node \<Rightarrow> bool" where
  "holds n \<longleftrightarrow> (case n of (t, s) \<Rightarrow> inv False {#} (mset (transport_vals t)) s)"

lemma peer_vals_grow [simp]: "peer_vals (grow_peers idx ps) = peer_vals ps"
  by (simp add: peer_vals_def grow_peers_def concat_eq_Nil_conv)

lemma peer_vals_update:
  "i < length ps \<Longrightarrow> mset (peer_vals (ps[i := Some p])) + mset (peer_vals [ps ! i]) = add_mset (VPeer p) (mset (peer_vals ps))"
  by (induction ps arbitrary: i) (auto simp: peer_vals_def split: nat.split option.split)

lemma holds_mem:
  "VCtx (ut_ctx t) \<in># mset (transport_vals t)" "VCq (ut_cq t) \<in># mset (transport_vals t)"
  "VJetty (ut_jetty t) \<in># mset (transport_vals t)" "VSeg (ut_buf t) \<in># mset (transport_vals t)"
  "i < length (ut_peers t) \<Longrightarrow> ut_peers t ! i = Some p \<Longrightarrow> VPeer p \<in># mset (transport_vals t)"
  by (auto simp: transport_vals_def peer_vals_def in_set_conv_nth intro!: bexI [of _ "Some p"])

lemma inv_drop_slot:
  "inv False {#} (mset (peer_vals [old]) + V) s \<Longrightarrow> inv False {#} V (drop_slot L old s)"
  using inv_drop_val [of False "VPeer (the old)" V s L] by (cases old) (auto simp: drop_slot_def peer_vals_def)


lemma inv_then_ok:
  assumes "inv False {#} V (snd r)" and "\<And>x s. r = (Inr x, s) \<Longrightarrow> inv False {#} V s \<Longrightarrow> inv False {#} V (snd (k x s))"
  shows "inv False {#} V (snd (then_ok r k))"
  using assms by (cases r; cases "fst r") (auto simp: then_ok_def)

lemma holds_read:
  assumes "holds n"
  shows "holds (snd (urma_read_record L idx o' rid n))"
proof -
  obtain t s where n: "n = (t, s)" by (cases n)
  have I: "inv False {#} (mset (transport_vals t)) s" using assms by (simp add: n holds_def)
  note mem = holds_mem [where t = t]
  have reads: "inv False {#} (mset (transport_vals t)) (snd (then_ok (seg_sge (ut_buf t) off len, s) (\<lambda>sge s.
      then_ok (post_read L (ut_jetty t) peer va [sge] ctx s) (\<lambda>_ s.
      then_ok (wait_read L (ut_cq t) ctx s) (\<lambda>_ s. (map_option Inr (read_scratch L (ut_buf t) s), s))))))"
    if "VPeer peer \<in># mset (transport_vals t)" for peer va ctx off len
    by (intro inv_then_ok inv_one_sided(1) [OF _ mem(3) that] inv_wait_read [OF _ mem(2)]) (simp_all add: I)
  have "holds (snd (urma_read_record L idx o' rid (t, s)))"
  proof (cases "idx < length (ut_peers t)")
    case True
    show ?thesis
    proof (cases "ut_peers t ! idx")
      case (Some p)
      show ?thesis
        using reads [OF mem(5) [OF True Some]] True Some by (simp add: urma_read_record_def holds_def Let_def split_beta)
    qed (use True I in \<open>simp add: urma_read_record_def holds_def Let_def\<close>)
  qed (use I in \<open>simp add: urma_read_record_def holds_def Let_def\<close>)
  then show ?thesis by (simp add: n)
qed

lemma holds_import:
  assumes "holds n"
  shows "holds (snd (urma_import L idx o' n))"
proof -
  obtain t s where n: "n = (t, s)" by (cases n)
  let ?ps = "grow_peers idx (ut_peers t)"
  have I: "inv False {#} (mset (transport_vals t)) s" using assms by (simp add: n holds_def)
  obtain r s' where imp: "import_peer L (ut_ctx t) (oi_desc o') s = (r, s')" by force
  have I': "inv False {#} (res_val VPeer r + mset (transport_vals t)) s'"
    using inv_import_peer [OF I holds_mem(1), of L "oi_desc o'"] by (simp add: imp)
  have idx: "idx < length ?ps" by (simp add: grow_peers_def)
  show ?thesis
  proof (cases r)
    case (Inl e)
    then show ?thesis
      using I I' by (auto simp: n urma_import_def holds_def Let_def imp transport_vals_def split: sum.split)
  next
    case (Inr p)
    have "mset (transport_vals (t\<lparr>ut_peers := ?ps[idx := Some p]\<rparr>)) + mset (peer_vals [?ps ! idx])
        = add_mset (VPeer p) (mset (transport_vals t))"
      using peer_vals_update [OF idx, of p] by (simp add: transport_vals_def)
    then have "inv False {#} (mset (peer_vals [?ps ! idx]) + mset (transport_vals (t\<lparr>ut_peers := ?ps[idx := Some p]\<rparr>))) s'"
      using I' by (simp add: Inr add.commute)
    then have "holds (t\<lparr>ut_peers := ?ps[idx := Some p]\<rparr>, drop_slot L (?ps ! idx) s')"
      using inv_drop_slot by (simp add: holds_def)
    then show ?thesis
      using I by (simp add: n urma_import_def holds_def Let_def imp Inr split: sum.split)
  qed
qed

lemma holds_buf: "holds n \<Longrightarrow> urma_with_buf L g n = Some n' \<Longrightarrow> holds n'"
  by (auto simp: urma_with_buf_def holds_def inv_set_lib split: prod.splits)

interpretation urma: kept_transport "urma_transport L" holds for L :: "'w liburma"
  by unfold_locales (auto simp: urma_transport_def holds_import holds_read holds_buf)

fun node_vals :: "UrmaTransport result option \<Rightarrow> val multiset" where
  "node_vals (Some (Inr t)) = mset (transport_vals t)"
| "node_vals _ = {#}"

lemma inv_UrmaTransport_new:
  fixes s :: "'w heap"
  assumes inv: "inv False {#} V s"
  shows "case UrmaTransport_new L dev s of (r, s') \<Rightarrow> inv False {#} (node_vals r + V) s'"
proof -
  define P where "P = (\<lambda>(r, s' :: 'w heap). inv False {#} (node_vals r + V) s')"
  have err: "\<forall>e s. inv False {#} V s \<longrightarrow> P (Some (Inl e), s)" by (simp add: P_def)
  note rule = try_drop_rule [where P = P and ex = False and V = V, OF _ err]
  have "P (UrmaTransport_new L dev s)"
    unfolding UrmaTransport_new_def
    apply (rule rule [where mk = "\<lambda>_. []"])
    subgoal using inv_queried [OF inv] by (simp add: new_vals_eq)
    apply (rule rule [where mk = "\<lambda>u. [VUrma u]"])
    subgoal premises I using create_steps(1) I(3) by (simp add: new_vals_eq)
    apply (rule rule [where mk = "\<lambda>c. [VCtx c]"])
    subgoal premises I using create_steps(2) [OF I(6)] by (simp add: new_vals_eq)
    apply (rule rule [where mk = "\<lambda>q. [VCq q]"])
    subgoal premises I using inv_cq_held [OF I(9)] by (simp add: new_vals_eq)
    apply (rule rule [where mk = "\<lambda>j. [VJetty j]"])
    subgoal premises I
      using inv_jetty_held [OF I(12) _ _ I(10,11)] by (simp add: new_vals_eq default_JettyOpts_def)
    apply (rule rule [where mk = "\<lambda>g. [VSeg g]"])
    subgoal premises I using inv_buf_new [OF I(15)] by (simp add: new_vals_eq)
    apply (rule rule [where mk = "\<lambda>_. []"])
    subgoal premises I using inv_exports(2) [OF I(18)] by (simp add: new_vals_eq)
    apply (rule rule [where mk = "\<lambda>_. []"])
    subgoal premises I using inv_exports(1) [OF I(21)] by (simp add: new_vals_eq)
    subgoal premises I using I(24) by (simp add: P_def transport_vals_def peer_vals_def add_mset_commute)
    done
  then show ?thesis by (simp add: P_def)
qed

section \<open>Properties\<close>

text \<open>
  C21 (a client of the lookup demo over URMA). However the clients and the master take their turns and
  whatever fails, a client that at any moment drops its transport and ends its thread has deleted every
  library object it created, none before an object that depends on it, also the peers that it imported
  twice.
\<close>

theorem urma_client_clean:
  assumes "(lookup_step B (urma_transport L))\<^sup>*\<^sup>* s s'"
    and "\<forall>c \<in> set (lk_clients s). \<exists>dev w t h. UrmaTransport_new L dev (pheap (start w)) = (Some (Inr t), h) \<and> cl_tr c = (t, h)"
    and "c \<in> set (lk_clients s')" and "honest (event_log (thread_exit L (drop_UrmaTransport L (cl_tr c))))"
  shows "prun proto_init (event_log (thread_exit L (drop_UrmaTransport L (cl_tr c)))) = Some proto_init"
proof -
  have "holds (cl_tr c)" if "c \<in> set (lk_clients s)" for c
  proof -
    obtain dev w t h where new: "UrmaTransport_new L dev (pheap (start w)) = (Some (Inr t), h)" "cl_tr c = (t, h)"
      using assms(2) \<open>c \<in> set (lk_clients s)\<close> by blast
    then show ?thesis using inv_UrmaTransport_new [OF inv_fresh [of w], of L dev] by (simp add: holds_def)
  qed
  then have "holds (cl_tr c)" using urma.keep_run [OF assms(1)] assms(3) by blast
  then have "inv False {#} {#} (drop_UrmaTransport L (cl_tr c))"
    using inv_unwind [of False "transport_vals (fst (cl_tr c))" "{#}" "snd (cl_tr c)" L]
    by (simp add: holds_def drop_UrmaTransport_def split_beta)
  then show ?thesis using assms(4) by (rule inv_thread_exit_clean)
qed


end
