(* ===== verification/UrmaLookupDemo.thy ===== *)
theory UrmaLookupDemo
  imports UrmaLookup BenchCommands
begin

text \<open>Concrete runs of the lookup demo over URMA.\<close>

lemma buf_len_word: "(of_nat buf_len :: u64) = 8192"
  by (simp add: buf_len_def div_ceil_def SCRATCH_OFF_lookup_def MAX_RECORDS_PER_CLIENT_def MSG_SIZE_def PAGE_SIZE_def)

definition node_t :: UrmaTransport where
  "node_t = \<lparr>ut_ctx = demo_ctx, ut_cq = \<lparr>cq_inner = 0\<rparr>,
     ut_jetty = \<lparr>j_jfr = 5, j_raw = 6, j_id = JettyId_from_raw default_urma_jetty_id_t, j_max_sge = 1, j_cq = \<lparr>cq_inner = 0\<rparr>\<rparr>,
     ut_buf = \<lparr>rs_tseg = 8, rs_va = 7, rs_len = 8192, rs_ctx = demo_ctx, rs_buf = Some \<lparr>pb_ptr = 7, pb_size = 8192\<rparr>\<rparr>,
     ut_seg_ctx = replicate 48 0, ut_rjetty = replicate 48 0, ut_peers = [], ut_urma = \<lparr>urma_inner = 0\<rparr>\<rparr>"

definition node_h :: "demo heap" where
  "node_h = \<lparr>lib_state = (demo_start [] [])\<lparr>d_next := 10\<rparr>,
     event_log =
       [EInit, EUse [], EUse [], EUse [], ECreate (OEidList 1) [], EDelete (OEidList 1), ECreate (OCtx 2) [],
        ECreate (OJfce 3) [OCtx 2], ECreate (OJfc 4) [OCtx 2, OJfce 3], ECreate (OJfr 5) [OCtx 2, OJfc 4],
        ECreate (OJetty 6) [OCtx 2, OJfr 5, OJfc 4], ECreate (OMem 7) [], ECreate (OSeg 8) [OCtx 2, OMem 7],
        ECreate (OSegBlob 9) [OSeg 8], EDelete (OSegBlob 9), ECreate (OJettyBlob 10) [OJetty 6], EDelete (OJettyBlob 10)],
     urma_cells = [3], init_slot = Some 0, ctx_cells = [\<lparr>cc_raw = 2, cc_urma = 0, cc_strong = 3\<rparr>],
     cq_cells = [\<lparr>qc_jfce = 3, qc_jfc = 4, qc_ctx = demo_ctx, qc_strong = 2\<rparr>]\<rparr>"

lemma node_new: "UrmaTransport_new rm_lib ''udma0'' (pheap (start (demo_start [] []))) = (Some (Inr node_t), node_h)"
  by (simp add: exec_defs query_device_def rm_lib_mode try_drop_simps rm_lib_def ffi_const buf_len_word
      UrmaTransport_new_def export_seg_ctx_def node_t_def node_h_def demo_ctx_def cong: let_weak_cong try_drop_weak_cong)

lemma node_drop: "drop_UrmaTransport rm_lib (node_t, node_h) = unwind rm_lib
    [VCtx demo_ctx, VCq \<lparr>cq_inner = 0\<rparr>, VJetty (ut_jetty node_t), VSeg (ut_buf node_t), VUrma \<lparr>urma_inner = 0\<rparr>] node_h"
  by (simp add: drop_UrmaTransport_def transport_vals_def peer_vals_def node_t_def)

lemma node_honest: "honest (event_log (thread_exit rm_lib (drop_UrmaTransport rm_lib (node_t, node_h))))"
  unfolding node_drop
  by (simp add: exec_defs rm_lib_def node_t_def node_h_def demo_ctx_def ffi_const honest_def cong: let_weak_cong)

theorem urma_client_clean_witness:
  "UrmaTransport_new rm_lib ''udma0'' (pheap (start (demo_start [] []))) = (Some (Inr node_t), node_h)
    \<and> prun proto_init (event_log (thread_exit rm_lib (drop_UrmaTransport rm_lib (node_t, node_h)))) = Some proto_init"
proof -
  let ?c = "\<lparr>cl_cfg = \<lparr>cc_name = ''A'', cc_records = 1\<rparr>, cl_addr = V4 [10, 0, 0, 1], cl_tr = (node_t, node_h), cl_phase = Initial,
      cl_out = [], cl_end = None\<rparr>"
  let ?s = "\<lparr>lk_master = \<lparr>ms_clients = [], ms_next_rid = 0, ms_expect = 1, ms_ready = 0, ms_done = 0, ms_shutdown = False\<rparr>,
      lk_clients = [?c]\<rparr>"
  have "prun proto_init (event_log (thread_exit rm_lib (drop_UrmaTransport rm_lib (cl_tr ?c)))) = Some proto_init"
  proof (rule urma_client_clean)
    show "(lookup_step B (urma_transport rm_lib))\<^sup>*\<^sup>* ?s ?s" for B by simp
    show "\<forall>c \<in> set (lk_clients ?s). \<exists>dev w t h. UrmaTransport_new rm_lib dev (pheap (start w)) = (Some (Inr t), h)
        \<and> cl_tr c = (t, h)"
      using node_new by auto
  qed (use node_honest in simp_all)
  then show ?thesis using node_new by simp
qed

definition owner_B :: OwnerInfo where
  "owner_B = \<lparr>oi_name = ''B'', oi_first = 4, oi_cnt = 4,
     oi_desc = default_PeerDesc\<lparr>pd_seg_va := 0x1000\<rparr>, oi_addr = [10, 0, 0, 2], oi_port = 0\<rparr>"

definition record_cr :: urma_cr_t where
  "record_cr = default_urma_cr_t\<lparr>cr_user_ctx := 6\<rparr>"

definition reader :: UrmaTransport where
  "reader = \<lparr>ut_ctx = demo_ctx, ut_cq = \<lparr>cq_inner = 0\<rparr>,
     ut_jetty = \<lparr>j_jfr = 5, j_raw = 6, j_id = JettyId_from_raw default_urma_jetty_id_t, j_max_sge = 1, j_cq = \<lparr>cq_inner = 0\<rparr>\<rparr>,
     ut_buf = \<lparr>rs_tseg = 10, rs_va = 9, rs_len = 8192, rs_ctx = demo_ctx, rs_buf = Some \<lparr>pb_ptr = 9, pb_size = 8192\<rparr>\<rparr>,
     ut_seg_ctx = [], ut_rjetty = [], ut_peers = [Some \<lparr>peer_tseg = 7, peer_tjetty = 8, peer_ctx = demo_ctx\<rparr>],
     ut_urma = \<lparr>urma_inner = 0\<rparr>\<rparr>"

lemma reader_run: "\<exists>n'. urma_read_record demo_lib 0 owner_B 6 (reader, demo_s2 [] [[record_cr]] []) = (Some (Inr (replicate 64 0)), n')"
proof -
  have wait: "\<exists>h. wait_read_loop demo_lib \<lparr>cq_inner = 0\<rparr> 6 (Suc k) (demo_s2 sent [[record_cr]] es) = (Inr (completion_of record_cr), h)"
    for k sent es
    by (simp add: demo_s2_def exec_defs record_cr_def default_urma_cr_t_def completion_of_def
        is_success_def written_def ffi_const cong: let_weak_cong)
  obtain wr where "post_read demo_lib (ut_jetty reader) \<lparr>peer_tseg = 7, peer_tjetty = 8, peer_ctx = demo_ctx\<rparr> 4224
      [\<lparr>ls_tseg = 10, ls_addr = 4105, ls_len = 64\<rparr>] 6 (demo_s2 [] [[record_cr]] [])
      = (Inr (), demo_s2 [wr] [[record_cr]] [EUse [OJetty 6, OImpJetty 8]])"
    by (simp add: post_read_def post_read_signaled_def check_local_def ffi_post_send_def demo_s2_def exec_defs
      reader_def ffi_const checked_add_def cong: let_weak_cong)
  moreover obtain h where "wait_read demo_lib \<lparr>cq_inner = 0\<rparr> 6 (demo_s2 [wr] [[record_cr]] [EUse [OJetty 6, OImpJetty 8]])
      = (Inr (completion_of record_cr), h)"
    using wait [of 99] by (auto simp: wait_read_def POLL_RETRIES_def)
  moreover have "seg_sge (ut_buf reader) 4096 64 = Inr \<lparr>ls_tseg = 10, ls_addr = 4105, ls_len = 64\<rparr>"
    by (simp add: seg_sge_def LocalSge_new_def reader_def checked_add_def)
  ultimately show ?thesis
    by (auto simp: urma_read_record_def reader_def then_ok_def owner_B_def default_PeerDesc_def
        SCRATCH_OFF_lookup_def MAX_RECORDS_PER_CLIENT_def MSG_SIZE_def read_scratch_def landing_len_def)
qed


end
