(* ===== verification/Http.thy ===== *)
theory Http
  imports Common Text
begin

text \<open>
  The HTTP helpers of the examples (\<open>examples/common/mod.rs\<close>). What becomes of one try to send a
  request is given: the connection was refused, something else went wrong, or an answer arrived. The
  texts of status codes and the JSON parser are parameters.
\<close>

section \<open>Requests\<close>

datatype 'b http_try = Refused | Broken string | Answered nat 'b

definition http_err :: "string \<Rightarrow> error" where
  "http_err e = Io e"

text \<open>What \<open>send_retry\<close> does after one try; \<open>None\<close> is to try again.\<close>

fun try_outcome :: "(nat \<Rightarrow> string) \<Rightarrow> 'b http_try \<Rightarrow> 'b result option" where
  "try_outcome status Refused = None"
| "try_outcome status (Broken e) = Some (Inl (http_err e))"
| "try_outcome status (Answered st b) =
     Some (if 200 \<le> st \<and> st < 300 then Inr b else Inl (Invalid (''http status '' @ status st)))"

text \<open>The tries are numbered; the loop ends with the first that is not refused, if there is one.\<close>

partial_function (option) send_loop ::
  "(nat \<Rightarrow> string) \<Rightarrow> (nat \<Rightarrow> 'b http_try) \<Rightarrow> nat \<Rightarrow> 'b result option" where
  "send_loop status tries k =
     (case try_outcome status (tries k) of None \<Rightarrow> send_loop status tries (k + 1) | Some r \<Rightarrow> Some r)"

definition send_retry :: "(nat \<Rightarrow> string) \<Rightarrow> (nat \<Rightarrow> 'b http_try) \<Rightarrow> 'b result option" where
  "send_retry status tries = send_loop status tries 0"

definition json_retry ::
  "(nat \<Rightarrow> string) \<Rightarrow> ('b \<Rightarrow> string + 'a) \<Rightarrow> (nat \<Rightarrow> 'b http_try) \<Rightarrow> 'a result option" where
  "json_retry status parse tries =
     (case send_retry status tries of
        None \<Rightarrow> None
      | Some (Inl e) \<Rightarrow> Some (Inl e)
      | Some (Inr b) \<Rightarrow> Some (case parse b of Inl e \<Rightarrow> Inl (Invalid (''bad json: '' @ e)) | Inr x \<Rightarrow> Inr x))"

text \<open>The tries to fetch the peer's descriptor, and those to announce the own one.\<close>

definition exchange_desc ::
  "(nat \<Rightarrow> string) \<Rightarrow> ('b \<Rightarrow> string + PeerDesc) \<Rightarrow> (nat \<Rightarrow> 'b http_try) \<Rightarrow> (nat \<Rightarrow> 'c http_try)
     \<Rightarrow> PeerDesc result option" where
  "exchange_desc status parse infos imports =
     (case json_retry status parse infos of
        None \<Rightarrow> None
      | Some (Inl e) \<Rightarrow> Some (Inl e)
      | Some (Inr peer) \<Rightarrow>
          (case send_retry status imports of
             None \<Rightarrow> None
           | Some (Inl e) \<Rightarrow> Some (Inl e)
           | Some (Inr _) \<Rightarrow> Some (Inr peer)))"

text \<open>Whether a server that waits for the end of its round, or to be stopped, shuts down.\<close>

definition graceful_shutdown :: "bool \<Rightarrow> bool \<Rightarrow> bool" where
  "graceful_shutdown finished stop \<longleftrightarrow> finished \<or> stop"

section \<open>Identity and exit code\<close>

datatype shown = Shown string | Complained string

text \<open>The host name file, if it can be read, and the process id.\<close>

definition default_name :: "string option \<Rightarrow> string option \<Rightarrow> nat \<Rightarrow> string" where
  "default_name arg file pid =
     (case arg of
        Some n \<Rightarrow> n
      | None \<Rightarrow> let h = (case file of None \<Rightarrow> [] | Some h \<Rightarrow> trim h)
                in if h = [] then ''pid-'' @ show_nat pid else h)"

definition report_result :: "(i32 \<Rightarrow> string) \<Rightarrow> unit result \<Rightarrow> shown \<times> nat" where
  "report_result os_text r =
     (case r of
        Inr _ \<Rightarrow> (Shown ''[main] demo finished'', 0)
      | Inl e \<Rightarrow> (Complained (''[client] error: '' @ fmt_error os_text e), 1))"

section \<open>When a request returns\<close>

lemma try_outcome_None [simp]: "try_outcome status t = None \<longleftrightarrow> t = Refused"
  by (cases t) simp_all

lemma send_loop_finds:
  assumes "\<forall>j < n. tries (k + j) = Refused" and "tries (k + n) \<noteq> Refused"
  shows "send_loop status tries k = try_outcome status (tries (k + n))"
  using assms
proof (induction n arbitrary: k)
  case 0
  then show ?case by (cases "tries k") (simp_all add: send_loop.simps)
next
  case (Suc n)
  have "tries (k + 0) = Refused" using Suc.prems(1) by blast
  moreover have "\<forall>j < n. tries (k + 1 + j) = Refused" using Suc.prems(1) by auto
  ultimately show ?case using Suc.IH [of "k + 1"] Suc.prems(2) by (simp add: send_loop.simps [of _ _ k])
qed

lemma send_loop_only:
  assumes "send_loop status tries k = Some r"
  shows "\<exists>n. tries (k + n) \<noteq> Refused \<and> (\<forall>j < n. tries (k + j) = Refused)"
proof -
  let ?P = "\<lambda>status (tries :: nat \<Rightarrow> 'a http_try) k r. \<exists>n. tries (k + n) \<noteq> Refused \<and> (\<forall>j < n. tries (k + j) = Refused)"
  show ?thesis
  proof (rule send_loop.raw_induct [of ?P, OF _ assms])
    fix loop status tries k r
    assume IH: "\<And>status tries k r. loop status tries k = Some r \<Longrightarrow> ?P status tries k r"
      and step: "(case try_outcome status (tries k) of None \<Rightarrow> loop status tries (k + 1) | Some r \<Rightarrow> Some r) = Some r"
    show "?P status tries k r"
    proof (cases "tries k = Refused")
      case True
      then have "loop status tries (k + 1) = Some r" using step by simp
      then obtain n where n: "tries (k + 1 + n) \<noteq> Refused" "\<forall>j < n. tries (k + 1 + j) = Refused" using IH by blast
      have "tries (k + j) = Refused" if "j < Suc n" for j
        using that n(2) True by (cases j) auto
      then show ?thesis using n(1) by (intro exI [of _ "Suc n"]) simp
    qed (intro exI [of _ 0], simp)
  qed
qed

lemma first_try:
  fixes tries :: "nat \<Rightarrow> 'b http_try"
  assumes "tries k \<noteq> Refused"
  obtains n where "tries n \<noteq> Refused" and "\<forall>j < n. tries j = Refused"
  using exists_least_iff [of "\<lambda>k. tries k \<noteq> Refused"] assms by blast

lemma send_retry_None: "send_retry status tries = None \<longleftrightarrow> (\<forall>k. tries k = Refused)"
proof
  assume none: "send_retry status tries = None"
  show "\<forall>k. tries k = Refused"
  proof (rule ccontr)
    assume "\<not> (\<forall>k. tries k = Refused)"
    then obtain n where n: "tries n \<noteq> Refused" "\<forall>j < n. tries j = Refused" using first_try by blast
    have "send_retry status tries = try_outcome status (tries n)"
      unfolding send_retry_def using send_loop_finds [of n tries 0 status] n by simp
    then show False using none n(1) try_outcome_None [of status "tries n"] by simp
  qed
next
  assume all: "\<forall>k. tries k = Refused"
  show "send_retry status tries = None"
  proof (cases "send_retry status tries")
    case (Some r)
    then show ?thesis using send_loop_only [of status tries 0 r] all unfolding send_retry_def by blast
  qed
qed

section \<open>Properties\<close>

text \<open>
  C28 (sending with retries). The call returns exactly when some try is not refused; it then reports what
  became of the first such try: the body of an answer with a status from 200 to 299, an error for any
  other status and for any other failure. It never reports a refused connection.
\<close>

theorem send_retry_outcome:
  "case send_retry status tries of
     None \<Rightarrow> (\<forall>k. tries k = Refused)
   | Some r \<Rightarrow> (\<exists>n. tries ` {..<n} \<subseteq> {Refused} \<and>
       (case tries n of
          Refused \<Rightarrow> False
        | Broken e \<Rightarrow> r = Inl (Io e)
        | Answered st b \<Rightarrow>
            r = (if st \<in> {200..<300} then Inr b else Inl (Invalid (''http status '' @ status st)))))"
proof (cases "send_retry status tries")
  case None
  then have "\<forall>k. tries k = Refused" using send_retry_None by blast
  then show ?thesis unfolding None by simp
next
  case (Some r)
  then obtain n where n: "tries n \<noteq> Refused" "\<forall>j < n. tries j = Refused"
    using send_loop_only [of status tries 0 r] by (auto simp: send_retry_def)
  then have "send_retry status tries = try_outcome status (tries n)"
    using send_loop_finds [of n tries 0] by (simp add: send_retry_def)
  then show ?thesis
    using n Some by (cases "tries n") (auto simp: http_err_def intro!: exI [of _ n])
qed

end
