(* ===== verification/Hello.thy ===== *)
theory Hello
  imports Holding Http
begin

text \<open>
  The one-sided READ demo (\<open>examples/urma_hello.rs\<close>): two nodes, each a process with a server task and
  a client task over one set of URMA resources. The two nodes are a transition system. A step is one
  request with its handler, one stretch of the client between two requests, or an end of the server;
  the processes have a library and a heap of their own. Printing and sleeping are left out.
\<close>

section \<open>Nodes\<close>

definition HELLO_READ_CTX :: u64 where "HELLO_READ_CTX = 0x1234"

text \<open>In seconds.\<close>

definition BYE_TIMEOUT :: nat where "BYE_TIMEOUT = 120"

datatype SrvEnd = Bye | Aborted | Stopped | Timeout

datatype server = Unbound | Serving | Ended SrvEnd | BindFailed error

text \<open>
  Where the client task is: asking for the peer's descriptor; with an answer in hand, which bears a
  descriptor or not; announcing its own; reading; saying bye with the bytes it read; telling the peer
  of its failure; or finished.
\<close>

datatype hello_client =
    Polling
  | Replied "PeerDesc option"
  | Announcing PeerDesc
  | Reading PeerDesc
  | Parting bytes
  | Aborting error
  | ClientEnd "unit result"
  | Panicked

record hello_cfg =
  hc_dev :: string
  hc_name :: bytes
  hc_hook :: bool

record 'w node =
  hn_up :: bool
  hn_heap :: "'w heap"
  hn_res :: "UrmaRes option"
  hn_desc :: "PeerDesc option"
  hn_srv :: server
  hn_done :: bool
  hn_abort :: bool
  hn_stop :: bool
  hn_age :: nat
  hn_cli :: hello_client
  hn_exit :: "unit result option"

text \<open>The two nodes, each by the peer of the other.\<close>

type_synonym 'w hello = "bool \<Rightarrow> 'w node"

definition hello_msg :: "hello_cfg \<Rightarrow> bytes" where
  "hello_msg c = fill_msg (map of_char ''hello world from '' @ hc_name c)"

definition node_start :: "hello_cfg \<Rightarrow> 'w \<Rightarrow> 'w node" where
  "node_start c w =
     \<lparr>hn_up = False, hn_heap = pheap (start w), hn_res = None,
      hn_desc = (if hc_hook c then Some default_PeerDesc else None), hn_srv = Unbound,
      hn_done = False, hn_abort = False, hn_stop = False, hn_age = 0, hn_cli = Polling, hn_exit = None\<rparr>"

section \<open>The server's handlers\<close>

definition get_info :: "'w node \<Rightarrow> nat \<times> PeerDesc option" where
  "get_info p = (case hn_desc p of Some d \<Rightarrow> (200, Some d) | None \<Rightarrow> (503, None))"

definition get_msg :: "hello_cfg \<Rightarrow> bytes" where
  "get_msg c = hello_msg c"

definition post_bye :: "'w node \<Rightarrow> 'w node" where
  "post_bye p = p\<lparr>hn_done := True\<rparr>"

definition post_abort :: "'w node \<Rightarrow> 'w node" where
  "post_abort p = p\<lparr>hn_abort := True\<rparr>"

text \<open>When the server may stop serving, for which reason, and what it returns then.\<close>

definition srv_may_end :: "SrvEnd \<Rightarrow> 'w node \<Rightarrow> bool" where
  "srv_may_end e n =
     (case e of
        Bye \<Rightarrow> hn_done n
      | Aborted \<Rightarrow> hn_abort n
      | Stopped \<Rightarrow> hn_stop n
      | Timeout \<Rightarrow> hn_age n \<ge> BYE_TIMEOUT)"

fun srv_result :: "server \<Rightarrow> unit result option" where
  "srv_result Unbound = None"
| "srv_result Serving = None"
| "srv_result (BindFailed e) = Some (Inl e)"
| "srv_result (Ended Aborted) = Some (Inl (Invalid ''peer aborted before finishing the read''))"
| "srv_result (Ended Timeout) =
     Some (Inl (Invalid ''peer did not finish reading within 120s; it may have died''))"
| "srv_result (Ended _) = Some (Inr ())"

section \<open>The client's steps\<close>

definition my_desc :: "'w liburma \<Rightarrow> 'w node \<Rightarrow> PeerDesc" where
  "my_desc L n = (case hn_res n of None \<Rightarrow> default_PeerDesc | Some r \<Rightarrow> res_desc L r (hn_heap n))"

definition drop_res_opt :: "'w liburma \<Rightarrow> UrmaRes option \<Rightarrow> 'w heap \<Rightarrow> 'w heap" where
  "drop_res_opt L r s = (case r of None \<Rightarrow> s | Some r \<Rightarrow> drop_UrmaRes L r s)"

definition ensure_resources :: "'w liburma \<Rightarrow> hello_cfg \<Rightarrow> 'w node \<Rightarrow> unit result option \<times> 'w node" where
  "ensure_resources L c n =
     (if hn_desc n \<noteq> None then (Some (Inr ()), n)
      else if hc_hook c then (Some (Inr ()), n\<lparr>hn_desc := Some (my_desc L n)\<rparr>)
      else case UrmaRes_create L (hc_dev c) (hello_msg c) (hn_heap n) of
          (None, s) \<Rightarrow> (None, n\<lparr>hn_heap := s\<rparr>)
        | (Some (Inl e), s) \<Rightarrow> (Some (Inl e), n\<lparr>hn_heap := s\<rparr>)
        | (Some (Inr r), s) \<Rightarrow>
            let n = n\<lparr>hn_heap := drop_res_opt L (hn_res n) s, hn_res := Some r\<rparr>
            in (Some (Inr ()), n\<lparr>hn_desc := Some (my_desc L n)\<rparr>))"

text \<open>The client task returns an error: the own server is stopped, then the peer told.\<close>

definition node_fails :: "error \<Rightarrow> 'w node \<Rightarrow> 'w node" where
  "node_fails e n = n\<lparr>hn_cli := Aborting e, hn_stop := True\<rparr>"

definition announced :: "'w liburma \<Rightarrow> hello_cfg \<Rightarrow> PeerDesc \<Rightarrow> 'w node \<Rightarrow> 'w node" where
  "announced L c d n =
     (if hc_hook c then n\<lparr>hn_cli := Reading d\<rparr>
      else case check_loopback (my_desc L n) d of
          Inl e \<Rightarrow> node_fails e n
        | Inr _ \<Rightarrow> n\<lparr>hn_cli := Reading d\<rparr>)"

definition read_landing :: "'w liburma \<Rightarrow> RegisteredSeg \<Rightarrow> 'w heap \<Rightarrow> bytes option" where
  "read_landing L g s =
     (if SCRATCH_OFF + MSG_SIZE > unat (landing_len g) then None
      else Some (l_read_bytes L (rs_va g + of_nat SCRATCH_OFF) MSG_SIZE (lib_state s)))"

definition read_peer :: "'w liburma \<Rightarrow> UrmaRes \<Rightarrow> PeerDesc \<Rightarrow> 'w heap \<Rightarrow> bytes result option \<times> 'w heap" where
  "read_peer L r d s =
     (let (seg, _) = to_pair d in
     try_drop L [] (import_peer L (res_ctx r) d s) (\<lambda>p s.
     try_drop L [VPeer p] (seg_sge (res_buf r) (of_nat SCRATCH_OFF) (of_nat MSG_SIZE), s) (\<lambda>sge s.
     try_drop L [VPeer p] (post_read L (res_jetty r) p (sd_va seg) [sge] HELLO_READ_CTX s) (\<lambda>_ s.
     try_drop L [VPeer p] (wait_read L (res_cq r) HELLO_READ_CTX s) (\<lambda>_ s.
       (map_option Inr (read_landing L (res_buf r) s), unwind L [VPeer p] s))))))"

text \<open>What the client does between two requests.\<close>

definition client_local :: "'w liburma \<Rightarrow> hello_cfg \<Rightarrow> 'w node \<Rightarrow> 'w node option" where
  "client_local L c n =
     (case hn_cli n of
        Replied d \<Rightarrow>
          (case ensure_resources L c n of
             (None, n) \<Rightarrow> Some (n\<lparr>hn_cli := Panicked\<rparr>)
           | (Some (Inl e), n) \<Rightarrow> Some (node_fails e n)
           | (Some (Inr _), n) \<Rightarrow>
               Some (n\<lparr>hn_cli := (case d of None \<Rightarrow> Polling | Some d \<Rightarrow> Announcing d)\<rparr>))
      | Reading d \<Rightarrow>
          (if hc_hook c then None
           else case hn_res n of
             None \<Rightarrow> Some (n\<lparr>hn_cli := Panicked\<rparr>)
           | Some r \<Rightarrow>
               (case read_peer L r d (hn_heap n) of
                  (None, s) \<Rightarrow> Some (n\<lparr>hn_heap := s, hn_cli := Panicked\<rparr>)
                | (Some (Inl e), s) \<Rightarrow> Some (node_fails e (n\<lparr>hn_heap := s\<rparr>))
                | (Some (Inr m), s) \<Rightarrow> Some (n\<lparr>hn_heap := s, hn_cli := Parting m\<rparr>)))
      | _ \<Rightarrow> None)"

text \<open>The request the client is at reaches the peer \<open>p\<close>, of which \<open>cp\<close> is the configuration.\<close>

definition client_request ::
  "'w liburma \<Rightarrow> hello_cfg \<Rightarrow> hello_cfg \<Rightarrow> 'w node \<Rightarrow> 'w node \<Rightarrow> ('w node \<times> 'w node) option" where
  "client_request L c cp n p =
     (case hn_cli n of
        Polling \<Rightarrow> (let (st, d) = get_info p in Some (n\<lparr>hn_cli := Replied (if st = 200 then d else None)\<rparr>, p))
      | Announcing d \<Rightarrow> Some (announced L c d n, p)
      | Reading d \<Rightarrow> (if hc_hook c then Some (n\<lparr>hn_cli := Parting (get_msg cp)\<rparr>, p) else None)
      | Parting m \<Rightarrow> Some (n\<lparr>hn_cli := ClientEnd (Inr ())\<rparr>, post_bye p)
      | Aborting e \<Rightarrow> Some (n\<lparr>hn_cli := ClientEnd (Inl e)\<rparr>, post_abort p)
      | _ \<Rightarrow> None)"

text \<open>The connection is refused: every request but the notice of an abort is tried again.\<close>

definition client_refused :: "hello_cfg \<Rightarrow> 'w node \<Rightarrow> 'w node option" where
  "client_refused c n =
     (case hn_cli n of
        Polling \<Rightarrow> Some n
      | Announcing d \<Rightarrow> Some n
      | Reading d \<Rightarrow> (if hc_hook c then Some n else None)
      | Parting m \<Rightarrow> Some n
      | Aborting e \<Rightarrow> Some (n\<lparr>hn_cli := ClientEnd (Inl e)\<rparr>)
      | _ \<Rightarrow> None)"

text \<open>The request fails in another way, or the answer's body does.\<close>

definition client_broken :: "hello_cfg \<Rightarrow> string \<Rightarrow> 'w node \<Rightarrow> 'w node option" where
  "client_broken c e n =
     (case hn_cli n of
        Polling \<Rightarrow> Some (node_fails (http_err e) n)
      | Announcing d \<Rightarrow> Some (node_fails (http_err e) n)
      | Reading d \<Rightarrow> (if hc_hook c then Some (node_fails (http_err e) n) else None)
      | Parting m \<Rightarrow> Some (node_fails (http_err e) n)
      | Aborting e' \<Rightarrow> Some (n\<lparr>hn_cli := ClientEnd (Inl e')\<rparr>)
      | _ \<Rightarrow> None)"

definition client_bad_json :: "'w liburma \<Rightarrow> hello_cfg \<Rightarrow> string \<Rightarrow> 'w node \<Rightarrow> 'w node option" where
  "client_bad_json L c e n =
     (case hn_cli n of
        Replied (Some d) \<Rightarrow>
          (case ensure_resources L c n of
             (None, n) \<Rightarrow> Some (n\<lparr>hn_cli := Panicked\<rparr>)
           | (Some (Inl e), n) \<Rightarrow> Some (node_fails e n)
           | (Some (Inr _), n) \<Rightarrow> Some (node_fails (Invalid (''bad json: '' @ e)) n))
      | _ \<Rightarrow> None)"

section \<open>The two nodes together\<close>

datatype hello_event =
    Start bool
  | Bind bool "error option"
  | Request bool
  | Retry bool
  | Break bool string
  | BadJson bool string
  | Local bool
  | Stop bool SrvEnd
  | Second
  | Exit bool

text \<open>Both tasks are over: \<open>combined\<close> returns and drops the resources.\<close>

definition node_exit :: "'w liburma \<Rightarrow> 'w node \<Rightarrow> 'w node option" where
  "node_exit L n =
     (case (hn_cli n, srv_result (hn_srv n), hn_exit n) of
        (ClientEnd rc, Some rs, None) \<Rightarrow>
          Some (n\<lparr>hn_heap := drop_res_opt L (hn_res n) (hn_heap n), hn_res := None,
                  hn_exit := Some (case rc of Inl e \<Rightarrow> Inl e | Inr _ \<Rightarrow> rs)\<rparr>)
      | _ \<Rightarrow> None)"

definition step_node :: "bool \<Rightarrow> ('w node \<Rightarrow> 'w node option) \<Rightarrow> 'w hello \<Rightarrow> 'w hello option" where
  "step_node i f s = (if hn_up (s i) then map_option (\<lambda>n. s(i := n)) (f (s i)) else None)"

fun hello_act :: "'w liburma \<Rightarrow> (bool \<Rightarrow> hello_cfg) \<Rightarrow> hello_event \<Rightarrow> 'w hello \<Rightarrow> 'w hello option" where
  "hello_act L cfg (Start i) s = (if hn_up (s i) then None else Some (s(i := (s i)\<lparr>hn_up := True\<rparr>)))"
| "hello_act L cfg (Bind i r) s =
     step_node i (\<lambda>n. if hn_srv n = Unbound
       then Some (n\<lparr>hn_srv := (case r of None \<Rightarrow> Serving | Some e \<Rightarrow> BindFailed e)\<rparr>) else None) s"
| "hello_act L cfg (Request i) s =
     (if hn_up (s i) \<and> hn_srv (s (\<not> i)) = Serving
      then map_option (\<lambda>(n, p). s(i := n, (\<not> i) := p)) (client_request L (cfg i) (cfg (\<not> i)) (s i) (s (\<not> i)))
      else None)"
| "hello_act L cfg (Retry i) s = (if hn_srv (s (\<not> i)) = Serving then None else step_node i (client_refused (cfg i)) s)"
| "hello_act L cfg (Break i e) s = step_node i (client_broken (cfg i) e) s"
| "hello_act L cfg (BadJson i e) s = step_node i (client_bad_json L (cfg i) e) s"
| "hello_act L cfg (Local i) s = step_node i (client_local L (cfg i)) s"
| "hello_act L cfg (Stop i e) s =
     step_node i (\<lambda>n. if hn_srv n = Serving \<and> srv_may_end e n then Some (n\<lparr>hn_srv := Ended e\<rparr>) else None) s"
| "hello_act L cfg Second s =
     Some (\<lambda>i. if hn_srv (s i) = Serving then (s i)\<lparr>hn_age := hn_age (s i) + 1\<rparr> else s i)"
| "hello_act L cfg (Exit i) s = step_node i (node_exit L) s"

text \<open>The states a pair of nodes can get to, with what happened on the way.\<close>

inductive hello_run :: "'w liburma \<Rightarrow> (bool \<Rightarrow> hello_cfg) \<Rightarrow> 'w hello \<Rightarrow> hello_event list \<Rightarrow> 'w hello \<Rightarrow> bool"
  for L cfg s0 where
  begun: "hello_run L cfg s0 [] s0"
| act: "hello_run L cfg s0 evs s \<Longrightarrow> hello_act L cfg ev s = Some s' \<Longrightarrow> hello_run L cfg s0 (evs @ [ev]) s'"

definition hello_start :: "(bool \<Rightarrow> hello_cfg) \<Rightarrow> (bool \<Rightarrow> 'w) \<Rightarrow> 'w hello" where
  "hello_start cfg w = (\<lambda>i. node_start (cfg i) (w i))"

text \<open>The arguments the program accepts.\<close>

definition validate_args :: "bool \<Rightarrow> string option \<Rightarrow> string option \<Rightarrow> string + unit" where
  "validate_args tcp_hook dev peer =
     (if \<not> tcp_hook \<and> dev = None then Inl ''URMA mode requires -d <device> (or use --tcp-hook)''
      else if peer = None then Inl ''requires -i <peer_ip>''
      else Inr ())"

text \<open>
  The entry: the exit code 2 for bad arguments, otherwise the configuration the node runs with and the
  ports it listens on and connects to.
\<close>

record node_args =
  na_dev :: "string option"
  na_peer :: "string option"
  na_name :: "string option"
  na_hook :: bool
  na_port :: u16
  na_listen :: "u16 option"

definition node_main :: "string option \<Rightarrow> nat \<Rightarrow> node_args \<Rightarrow> nat + hello_cfg \<times> u16 \<times> u16" where
  "node_main host pid a =
     (case validate_args (na_hook a) (na_dev a) (na_peer a) of
        Inl _ \<Rightarrow> Inl 2
      | Inr _ \<Rightarrow>
          Inr (\<lparr>hc_dev = (case na_dev a of None \<Rightarrow> [] | Some d \<Rightarrow> d),
                hc_name = map of_char (default_name (na_name a) host pid), hc_hook = na_hook a\<rparr>,
               (case na_listen a of None \<Rightarrow> na_port a | Some p \<Rightarrow> p), na_port a))"

end
