(* ===== verification/HelloRuns.thy ===== *)
theory HelloRuns
  imports Hello
begin

text \<open>
  What holds in every state of the one-sided READ demo: what the processes own, and how far each may be
  while the other is where it is. On that rest: clean up, that no memory is freed under a reader
  that still counts on it, that two nodes that are up can always finish, and the ways in which a
  client is left waiting for ever.
\<close>

section \<open>What a process owns\<close>

definition opt_vals :: "UrmaRes option \<Rightarrow> val list" where
  "opt_vals r = (case r of None \<Rightarrow> []
     | Some r \<Rightarrow> [VCtx (res_ctx r), VCq (res_cq r), VJetty (res_jetty r), VSeg (res_buf r), VUrma (res_urma r)])"

lemma opt_vals_simps [simp]:
  "opt_vals None = []"
  "opt_vals (Some r) = [VCtx (res_ctx r), VCq (res_cq r), VJetty (res_jetty r), VSeg (res_buf r), VUrma (res_urma r)]"
  by (simp_all add: opt_vals_def)

definition owns :: "'w node \<Rightarrow> bool" where
  "owns n \<longleftrightarrow> inv False {#} (mset (opt_vals (hn_res n))) (hn_heap n)
     \<and> (\<forall>r. hn_res n = Some r \<longrightarrow> landing_len (res_buf r) = BUF_SIZE)"

lemma drop_res_unwind: "drop_res_opt L r s = unwind L (opt_vals r) s"
  by (simp add: drop_res_opt_def drop_UrmaRes_def split: option.split)

lemma inv_drop_res: "inv False {#} (mset (opt_vals r) + V) s \<Longrightarrow> inv False {#} V (drop_res_opt L r s)"
  unfolding drop_res_unwind by (rule inv_unwind)

lemma inv_read_peer:
  fixes s :: "'w heap"
  assumes inv: "inv False {#} V s" and mem: "VCtx (res_ctx r) \<in># V" "VCq (res_cq r) \<in># V" "VJetty (res_jetty r) \<in># V"
  shows "inv False {#} V (snd (read_peer L r d s))"
proof -
  define P where "P = (\<lambda>(r :: bytes result option, s' :: 'w heap). inv False {#} V s')"
  have err: "\<forall>e s. inv False {#} V s \<longrightarrow> P (Some (Inl e), s)" by (simp add: P_def)
  note rule = try_drop_rule [where P = P and ex = False and V = V, OF _ err]
  have "P (read_peer L r d s)"
    unfolding read_peer_def to_pair_def Let_def prod.case
    apply (rule rule [where mk = "\<lambda>p. [VPeer p]"])
    subgoal using inv_import_peer [OF inv mem(1)] by (simp add: new_vals_eq)
    apply (rule rule [where mk = "\<lambda>_. []"])
    subgoal premises I using I(3) by (simp add: new_vals_eq)
    apply (rule rule [where mk = "\<lambda>_. []"])
    subgoal premises I using inv_one_sided(1) [OF I(6)] mem by (simp add: new_vals_eq)
    apply (rule rule [where mk = "\<lambda>_. []"])
    subgoal premises I using inv_wait_read [OF I(9)] mem by (simp add: new_vals_eq)
    subgoal premises I using inv_unwind [where vs = "[VPeer _]"] I(12) by (simp add: P_def)
    done
  then show ?thesis by (simp add: P_def split_beta)
qed

lemma length_hello_msg [simp]: "length (hello_msg c) = MSG_SIZE"
  by (simp add: hello_msg_def fill_msg_def Let_def MSG_SIZE_def)

lemma create_no_panic:
  assumes "MSG_SIZE \<le> length msg"
  shows "fst (UrmaRes_create L dev msg s) \<noteq> None"
  unfolding UrmaRes_create_def by (intro try_drop_safe) (use assms in simp)

lemma create_len:
  assumes "UrmaRes_create L dev msg s = (Some (Inr r), s')"
  shows "landing_len (res_buf r) = BUF_SIZE"
proof -
  have len: "landing_len g = BUF_SIZE" if "RegisteredBuf_new L c BUF_SIZE tok s = (Inr g, s')" for c tok s g s'
    using registered_len [OF that] by simp
  show ?thesis
    using assms by (auto simp: UrmaRes_create_def try_drop_Inr split: if_splits dest!: len)
qed

lemma read_no_panic:
  assumes "landing_len (res_buf r) = BUF_SIZE"
  shows "fst (read_peer L r d s) \<noteq> None"
  unfolding read_peer_def to_pair_def Let_def prod.case
  by (intro try_drop_safe) (use assms in \<open>simp add: read_landing_def BUF_SIZE_def SCRATCH_OFF_def MSG_SIZE_def\<close>)

lemma owns_ensure:
  assumes "owns n" and "hn_desc n = None \<Longrightarrow> hn_res n = None" and "ensure_resources L c n = (r, n')"
  shows "owns n'" and "r \<noteq> None"
proof -
  obtain q s where q: "UrmaRes_create L (hc_dev c) (hello_msg c) (hn_heap n) = (q, s)" by force
  have created: "inv False {#} (bundle_vals q) s" if "hn_desc n = None"
    using inv_UrmaRes_create [of "{#}" "hn_heap n" L "hc_dev c" "hello_msg c"] assms(1,2) that q by (simp add: owns_def)
  have safe: "q \<noteq> None" using create_no_panic [of "hello_msg c" L "hc_dev c" "hn_heap n"] q by simp
  have len: "q = Some (Inr b) \<Longrightarrow> landing_len (res_buf b) = BUF_SIZE" for b using create_len [of L _ _ _ b s] q by simp
  show "owns n'"
    using assms created len safe
    by (cases q rule: bundle_vals.cases)
      (auto simp: ensure_resources_def q owns_def drop_res_opt_def Let_def split: if_splits)
  show "r \<noteq> None"
    using assms(3) safe by (auto simp: ensure_resources_def q Let_def split: if_splits option.splits sum.splits)
qed

lemma ensure_frame:
  assumes "ensure_resources L c n = (r, n')"
  shows "hn_up n' = hn_up n" "hn_srv n' = hn_srv n" "hn_done n' = hn_done n" "hn_abort n' = hn_abort n"
    "hn_stop n' = hn_stop n" "hn_age n' = hn_age n" "hn_cli n' = hn_cli n" "hn_exit n' = hn_exit n"
    "hn_desc n = Some d \<Longrightarrow> hn_desc n' = Some d" "hn_desc n = Some d \<Longrightarrow> n' = n"
    "r = Some (Inr ()) \<Longrightarrow> hn_desc n' \<noteq> None"
    "hc_hook c \<Longrightarrow> hn_res n' = hn_res n" "hc_hook c \<Longrightarrow> r = Some (Inr ())"
    "\<not> hc_hook c \<Longrightarrow> hn_desc n = None \<Longrightarrow> hn_desc n' \<noteq> None \<Longrightarrow> hn_res n' \<noteq> None"
    "hn_desc n' = None \<Longrightarrow> hn_res n' = hn_res n"
  using assms
  by (auto simp: ensure_resources_def Let_def split: if_splits option.splits sum.splits prod.splits)

section \<open>The invariant\<close>

fun client_failed :: "hello_client \<Rightarrow> bool" where
  "client_failed (Aborting e) = True"
| "client_failed (ClientEnd r) = (r \<noteq> Inr ())"
| "client_failed Panicked = True"
| "client_failed _ = False"

text \<open>The peer's descriptor, as far as a client has it.\<close>

fun heard :: "hello_client \<Rightarrow> PeerDesc option" where
  "heard (Replied d) = d"
| "heard (Announcing d) = Some d"
| "heard (Reading d) = Some d"
| "heard _ = None"

fun past_polling :: "hello_client \<Rightarrow> bool" where
  "past_polling (Announcing d) = True"
| "past_polling (Reading d) = True"
| "past_polling (Parting m) = True"
| "past_polling (ClientEnd r) = (r = Inr ())"
| "past_polling _ = False"

fun ended_by :: "server \<Rightarrow> bool \<Rightarrow> bool \<Rightarrow> bool \<Rightarrow> bool" where
  "ended_by (Ended Bye) d a s = d"
| "ended_by (Ended Aborted) d a s = a"
| "ended_by (Ended Stopped) d a s = s"
| "ended_by _ d a s = True"

fun exit_ok :: "hello_client \<Rightarrow> server \<Rightarrow> unit result option \<Rightarrow> bool" where
  "exit_ok cli srv None = True"
| "exit_ok (ClientEnd (Inl e)) srv (Some r) = (srv_result srv \<noteq> None \<and> r = Inl e)"
| "exit_ok (ClientEnd (Inr u)) srv (Some r) = (srv_result srv = Some r)"
| "exit_ok _ srv (Some r) = False"

definition node_ok :: "hello_cfg \<Rightarrow> 'w node \<Rightarrow> bool" where
  "node_ok c n \<longleftrightarrow> owns n \<and> hn_cli n \<noteq> Panicked
     \<and> (hn_desc n = None \<longrightarrow> hn_res n = None)
     \<and> (hc_hook c \<longrightarrow> hn_desc n \<noteq> None \<and> hn_res n = None)
     \<and> (\<not> hc_hook c \<and> hn_desc n \<noteq> None \<and> hn_exit n = None \<longrightarrow> hn_res n \<noteq> None)
     \<and> (past_polling (hn_cli n) \<longrightarrow> hn_desc n \<noteq> None)
     \<and> (hn_stop n \<longrightarrow> client_failed (hn_cli n))
     \<and> ended_by (hn_srv n) (hn_done n) (hn_abort n) (hn_stop n)
     \<and> exit_ok (hn_cli n) (hn_srv n) (hn_exit n)
     \<and> (\<not> hn_up n \<longrightarrow> hn_cli n = Polling \<and> hn_srv n = Unbound \<and> (hc_hook c \<or> hn_desc n = None))"

text \<open>What the peer \<open>p\<close> has been told by the client of \<open>n\<close>, and that client by the peer.\<close>

definition link :: "'w node \<Rightarrow> 'w node \<Rightarrow> bool" where
  "link n p \<longleftrightarrow> (hn_done p \<longleftrightarrow> hn_cli n = ClientEnd (Inr ()))
     \<and> (past_polling (hn_cli n) \<longrightarrow> hn_desc p \<noteq> None)
     \<and> (hn_abort p \<longrightarrow> client_failed (hn_cli n))
     \<and> (heard (hn_cli n) \<noteq> None \<longrightarrow> hn_desc p = heard (hn_cli n))"

definition hello_ok :: "(bool \<Rightarrow> hello_cfg) \<Rightarrow> 'w hello \<Rightarrow> bool" where
  "hello_ok cfg s \<longleftrightarrow> (\<forall>i. node_ok (cfg i) (s i) \<and> link (s i) (s (\<not> i)))"

text \<open>What no step of the client changes on its own node.\<close>

definition same_side :: "'w node \<Rightarrow> 'w node \<Rightarrow> bool" where
  "same_side n n' \<longleftrightarrow> hn_up n' = hn_up n \<and> hn_srv n' = hn_srv n \<and> hn_done n' = hn_done n
     \<and> hn_abort n' = hn_abort n \<and> hn_age n' = hn_age n \<and> hn_exit n' = hn_exit n
     \<and> (hn_desc n = None \<or> hn_desc n' = hn_desc n)"

lemma link_same_side: "link p n \<Longrightarrow> same_side n n' \<Longrightarrow> link p n'"
  by (auto simp: link_def same_side_def)

lemma ensure_same_side: "ensure_resources L c n = (r, n') \<Longrightarrow> same_side n n' \<and> hn_cli n' = hn_cli n \<and> hn_stop n' = hn_stop n"
  by (auto simp: ensure_resources_def same_side_def Let_def split: if_splits option.splits sum.splits prod.splits)

lemma exit_none: "exit_ok cli srv r \<Longrightarrow> (\<And>x. cli \<noteq> ClientEnd x) \<Longrightarrow> r = None"
  by (cases "(cli, srv, r)" rule: exit_ok.cases) auto

lemma ensure_ok:
  assumes "node_ok c n" and "ensure_resources L c n = (r, n')" and "hn_cli n = Replied d"
  shows "r \<noteq> None" and "owns n'" and "hn_desc n' = None \<longrightarrow> hn_res n' = None"
    and "hc_hook c \<longrightarrow> hn_desc n' \<noteq> None \<and> hn_res n' = None"
    and "\<not> hc_hook c \<and> hn_desc n' \<noteq> None \<longrightarrow> hn_res n' \<noteq> None"
    and "r = Some (Inr ()) \<longrightarrow> hn_desc n' \<noteq> None"
proof -
  have o: "owns n" "hn_desc n = None \<Longrightarrow> hn_res n = None" "hc_hook c \<Longrightarrow> hn_desc n \<noteq> None \<and> hn_res n = None"
    "hn_exit n = None" "\<not> hc_hook c \<and> hn_desc n \<noteq> None \<Longrightarrow> hn_res n \<noteq> None"
    using assms(1,3) exit_none [of "hn_cli n" "hn_srv n" "hn_exit n"] by (auto simp: node_ok_def)
  show "r \<noteq> None" "owns n'" using owns_ensure [OF o(1) o(2) assms(2)] by simp_all
  note f = ensure_frame [OF assms(2)]
  show "hn_desc n' = None \<longrightarrow> hn_res n' = None"
    using f(9,15) o(2) by (cases "hn_desc n") auto
  show "hc_hook c \<longrightarrow> hn_desc n' \<noteq> None \<and> hn_res n' = None"
    using f(10) o(3) by (cases "hn_desc n") auto
  show "\<not> hc_hook c \<and> hn_desc n' \<noteq> None \<longrightarrow> hn_res n' \<noteq> None"
    using f(10,14) o(5) by (cases "hn_desc n") auto
  show "r = Some (Inr ()) \<longrightarrow> hn_desc n' \<noteq> None" using f(11) by blast
qed

section \<open>Every step keeps it\<close>

lemma fails_ok:
  assumes "node_ok c n" and "\<And>x. hn_cli n \<noteq> ClientEnd x" and "hn_up n"
  shows "node_ok c (node_fails e n)"
  using assms exit_none [of "hn_cli n" "hn_srv n" "hn_exit n"]
  by (cases "hn_srv n" ; cases "hn_exit n") (auto simp: node_ok_def node_fails_def owns_def elim: ended_by.elims)

lemma fails_link: "link n p \<Longrightarrow> hn_cli n \<noteq> ClientEnd (Inr ()) \<Longrightarrow> link (node_fails e n) p"
  by (auto simp: link_def node_fails_def)

text \<open>A client step is good: it keeps the node, what the peer knows of it, and its server's side.\<close>

definition good_step :: "hello_cfg \<Rightarrow> 'w node \<Rightarrow> 'w node \<Rightarrow> 'w node \<Rightarrow> bool" where
  "good_step c p n n' \<longleftrightarrow> node_ok c n' \<and> link n' p \<and> same_side n n'"

lemma same_side_refl [simp]: "same_side n n"
  by (simp add: same_side_def)

lemma fails_good:
  assumes "node_ok c n" and "link n p" and "hn_up n" and "\<And>x. hn_cli n \<noteq> ClientEnd x"
  shows "good_step c p n (node_fails e n)"
  using fails_ok [OF assms(1,4,3)] fails_link [OF assms(2)] assms(4)
  by (simp add: good_step_def same_side_def node_fails_def)

text \<open>A move to a phase without failure.\<close>

lemma moves_good:
  assumes "node_ok c n" and "link n p" and "hn_up n" and "\<And>x. hn_cli n \<noteq> ClientEnd x"
    and "\<not> client_failed (hn_cli n)" and "\<not> client_failed cli"
    and "past_polling cli \<Longrightarrow> hn_desc n \<noteq> None \<and> hn_desc p \<noteq> None" and "\<And>x. cli \<noteq> ClientEnd x" and "heard cli \<noteq> None \<Longrightarrow> hn_desc p = heard cli"
  shows "good_step c p n (n\<lparr>hn_cli := cli\<rparr>)"
proof -
  have "hn_exit n = None" using exit_none [of "hn_cli n" "hn_srv n" "hn_exit n"] assms(1,4) by (auto simp: node_ok_def)
  moreover have "\<not> hn_stop n" "\<not> hn_done p" "\<not> hn_abort p"
    using assms(1,2,4,5) by (auto simp: node_ok_def link_def)
  ultimately show ?thesis
    using assms by (auto simp: good_step_def node_ok_def link_def same_side_def owns_def)
qed

lemma aborting_good:
  assumes "node_ok c n" and "link n p" and "hn_up n" and "hn_cli n = Aborting e"
  shows "good_step c p n (n\<lparr>hn_cli := ClientEnd (Inl e)\<rparr>)"
  using assms exit_none [of "hn_cli n" "hn_srv n" "hn_exit n"]
  by (auto simp: good_step_def node_ok_def link_def same_side_def owns_def)

lemma refused_good:
  assumes "client_refused c n = Some n'" and "node_ok c n" and "link n p" and "hn_up n"
  shows "good_step c p n n'"
  using assms aborting_good [OF assms(2-4)]
  by (auto simp: client_refused_def good_step_def split: hello_client.splits if_splits)

lemma broken_good:
  assumes "client_broken c e n = Some n'" and "node_ok c n" and "link n p" and "hn_up n"
  shows "good_step c p n n'"
  using assms aborting_good [OF assms(2-4)] fails_good [OF assms(2-4)]
  by (auto simp: client_broken_def split: hello_client.splits if_splits)

lemma ensured:
  assumes "ensure_resources L c n = (r, n')" and "node_ok c n" and "link n p" and "hn_up n" and "hn_cli n = Replied d"
  shows "r \<noteq> None" and "node_ok c n'" and "link n' p" and "same_side n n'" and "hn_up n'" and "hn_cli n' = Replied d"
    and "r = Some (Inr ()) \<Longrightarrow> hn_desc n' \<noteq> None"
proof -
  note f = ensure_same_side [OF assms(1)] and g = ensure_ok [OF assms(2,1,5)]
  show "r \<noteq> None" "same_side n n'" "hn_up n'" "hn_cli n' = Replied d" using f g assms(4,5) by (auto simp: same_side_def)
  show "link n' p" using f assms(3,5) by (simp add: link_def)
  have "ended_by (hn_srv n) (hn_done n) (hn_abort n) (hn_stop n)" "exit_ok (hn_cli n) (hn_srv n) (hn_exit n)"
    "hn_stop n \<longrightarrow> client_failed (hn_cli n)"
    using assms(2) by (simp_all add: node_ok_def)
  then show "node_ok c n'" using f assms(4,5) g unfolding node_ok_def same_side_def by simp
  show "r = Some (Inr ()) \<Longrightarrow> hn_desc n' \<noteq> None" using g(6) by blast
qed

lemma good_trans: "same_side n n1 \<Longrightarrow> good_step c p n1 n' \<Longrightarrow> good_step c p n n'"
  by (auto simp: good_step_def same_side_def)

lemma bad_json_good:
  assumes "client_bad_json L c e n = Some n'" and "node_ok c n" and "link n p" and "hn_up n"
  shows "good_step c p n n'"
proof -
  obtain d where d: "hn_cli n = Replied (Some d)"
    using assms(1) by (auto simp: client_bad_json_def split: hello_client.splits option.splits)
  obtain r n1 where r: "ensure_resources L c n = (r, n1)" by force
  note E = ensured [OF r assms(2-4) d]
  have "good_step c p n (node_fails e' n1)" for e'
    by (rule good_trans [OF E(4) fails_good [OF E(2,3,5)]]) (simp add: E(6))
  then show ?thesis
    using assms(1) E(1) by (auto simp: client_bad_json_def d r split: option.splits sum.splits)
qed

lemma replied_good:
  assumes "client_local L c n = Some n'" and "node_ok c n" and "link n p" and "hn_up n" and d: "hn_cli n = Replied d"
  shows "good_step c p n n'"
proof -
  obtain r n1 where r: "ensure_resources L c n = (r, n1)" by force
  note E = ensured [OF r assms(2-4) d]
  have fails: "good_step c p n (node_fails e' n1)" for e'
    by (rule good_trans [OF E(4) fails_good [OF E(2,3,5)]]) (simp add: E(6))
  have moves: "good_step c p n (n1\<lparr>hn_cli := (case d of None \<Rightarrow> Polling | Some d \<Rightarrow> Announcing d)\<rparr>)"
    if "r = Some (Inr ())"
    using E(3,6,7) that
    by (intro good_trans [OF E(4) moves_good [OF E(2,3,5)]]) (auto simp: link_def split: option.splits)
  show ?thesis
  proof (cases "the r")
    case (Inl e)
    then have "n' = node_fails e n1" using assms(1) E(1) by (auto simp: client_local_def d r)
    then show ?thesis using fails by simp
  next
    case (Inr u)
    then have "r = Some (Inr ())" using E(1) by auto
    then show ?thesis using assms(1) moves by (simp add: client_local_def d r)
  qed
qed

lemma heap_ok:
  assumes "node_ok c n" and "inv False {#} (mset (opt_vals (hn_res n))) s"
  shows "node_ok c (n\<lparr>hn_heap := s\<rparr>)"
  using assms by (simp add: node_ok_def owns_def)

lemma reading_good:
  assumes "client_local L c n = Some n'" and "node_ok c n" and "link n p" and "hn_up n" and d: "hn_cli n = Reading d"
  shows "good_step c p n n'"
proof -
  have hook: "\<not> hc_hook c" using assms(1) d by (auto simp: client_local_def split: if_splits)
  have "hn_exit n = None" using assms(2) d exit_none by (auto simp: node_ok_def)
  then obtain r where r: "hn_res n = Some r" using assms(2) d hook by (auto simp: node_ok_def)
  obtain q s where q: "read_peer L r d (hn_heap n) = (q, s)" by force
  have "q \<noteq> None"
    using read_no_panic [of r L d "hn_heap n"] assms(2) q by (auto simp: node_ok_def owns_def r)
  moreover have "inv False {#} (mset (opt_vals (hn_res n))) s"
    using inv_read_peer [of "mset (opt_vals (hn_res n))" "hn_heap n" r L d] assms(2) q by (simp add: node_ok_def owns_def r)
  then have ok: "node_ok c (n\<lparr>hn_heap := s\<rparr>)" by (rule heap_ok [OF assms(2)])
  have link: "link (n\<lparr>hn_heap := s\<rparr>) p" using assms(3) by (simp add: link_def)
  have same: "same_side n (n\<lparr>hn_heap := s\<rparr>)" by (simp add: same_side_def)
  have "good_step c p n (node_fails e (n\<lparr>hn_heap := s\<rparr>))" for e
    by (rule good_trans [OF same fails_good [OF ok link]]) (use assms(4) d in simp_all)
  moreover have "hn_desc n \<noteq> None" "hn_desc p \<noteq> None" using assms(2,3) d by (auto simp: node_ok_def link_def)
  then have "good_step c p n (n\<lparr>hn_heap := s, hn_cli := Parting m\<rparr>)" for m
    using good_trans [OF same moves_good [OF ok link, of "Parting m"]] assms(4) d by simp
  ultimately show ?thesis
    using assms(1) by (auto simp: client_local_def d r q hook split: option.splits sum.splits)
qed

lemma local_good:
  assumes "client_local L c n = Some n'" and "node_ok c n" and "link n p" and "hn_up n"
  shows "good_step c p n n'"
  using replied_good [OF assms] reading_good [OF assms] assms(1)
  by (cases "hn_cli n") (auto simp: client_local_def)

lemma hello_okD:
  assumes "hello_ok cfg s"
  shows "node_ok (cfg i) (s i)" and "link (s i) (s (\<not> i))" and "link (s (\<not> i)) (s i)"
  using assms spec [of _ "\<not> i"] by (auto simp: hello_ok_def dest!: spec [of _ "\<not> i"])

text \<open>Setting both nodes, and one of them.\<close>

lemma hello_ok_pair:
  assumes "node_ok (cfg i) n" and "node_ok (cfg (\<not> i)) p" and "link n p" and "link p n"
  shows "hello_ok cfg (s(i := n, (\<not> i) := p))"
  unfolding hello_ok_def
proof
  fix j show "node_ok (cfg j) ((s(i := n, (\<not> i) := p)) j)
      \<and> link ((s(i := n, (\<not> i) := p)) j) ((s(i := n, (\<not> i) := p)) (\<not> j))"
    using assms by (cases i; cases j) auto
qed

lemma hello_ok_one:
  assumes "hello_ok cfg s" and "node_ok (cfg i) n" and "link n (s (\<not> i))" and "link (s (\<not> i)) n"
  shows "hello_ok cfg (s(i := n))"
proof -
  have "s(i := n) = s(i := n, (\<not> i) := s (\<not> i))" by auto
  then show ?thesis using hello_ok_pair [of cfg i n "s (\<not> i)" s] hello_okD(1) [OF assms(1)] assms(2-4) by simp
qed

lemma good_ok:
  assumes "hello_ok cfg s" and "good_step (cfg i) (s (\<not> i)) (s i) n"
  shows "hello_ok cfg (s(i := n))"
  using hello_ok_one [OF assms(1), of i n] assms(2) link_same_side [OF hello_okD(3) [OF assms(1), of i]]
  by (simp add: good_step_def)

text \<open>The server's side of a node: its client and what it holds stay.\<close>

lemma server_ok:
  assumes "hello_ok cfg s" and "node_ok (cfg i) n" and "hn_cli n = hn_cli (s i)" and "hn_desc n = hn_desc (s i)"
    and "hn_done n = hn_done (s i)" and "hn_abort n = hn_abort (s i)"
  shows "hello_ok cfg (s(i := n))"
  using hello_okD(2,3) [OF assms(1), of i] by (intro hello_ok_one assms(1,2)) (simp_all add: link_def assms)

lemma request_ok:
  assumes "hello_ok cfg s" and "hn_up (s i)" and "hn_srv (s (\<not> i)) = Serving"
    and "client_request L (cfg i) (cfg (\<not> i)) (s i) (s (\<not> i)) = Some (n, p)"
  shows "hello_ok cfg (s(i := n, (\<not> i) := p))"
proof -
  note ok = hello_okD [OF assms(1), of i] and okp = hello_okD(1) [OF assms(1), of "\<not> i"]
  have step: ?thesis if "p = s (\<not> i)" "good_step (cfg i) (s (\<not> i)) (s i) n"
    using good_ok [OF assms(1) that(2)] that(1) fun_upd_idem_iff [of "s(i := n)" "\<not> i" p] by auto
  have none: "hn_exit (s i) = None" if "\<And>x. hn_cli (s i) \<noteq> ClientEnd x"
    using exit_none [of "hn_cli (s i)" "hn_srv (s i)" "hn_exit (s i)"] ok(1) that by (auto simp: node_ok_def)
  show ?thesis
  proof (cases "hn_cli (s i)")
    case Polling
    then have "n = (s i)\<lparr>hn_cli := Replied (if fst (get_info (s (\<not> i))) = 200 then snd (get_info (s (\<not> i))) else None)\<rparr>"
      "p = s (\<not> i)" using assms(4) by (auto simp: client_request_def split_beta)
    moreover have "good_step (cfg i) (s (\<not> i)) (s i)
        ((s i)\<lparr>hn_cli := Replied (if fst (get_info (s (\<not> i))) = 200 then snd (get_info (s (\<not> i))) else None)\<rparr>)"
      by (rule moves_good [OF ok(1,2) assms(2)]) (simp_all add: Polling get_info_def split: option.splits)
    ultimately show ?thesis using step by simp
  next
    case (Announcing d)
    then have n: "n = announced L (cfg i) d (s i)" "p = s (\<not> i)" using assms(4) by (auto simp: client_request_def)
    have "hn_desc (s i) \<noteq> None" "hn_desc (s (\<not> i)) = Some d" using ok(1,2) Announcing by (auto simp: node_ok_def link_def)
    then have "good_step (cfg i) (s (\<not> i)) (s i) ((s i)\<lparr>hn_cli := Reading d\<rparr>)"
      by (intro moves_good [OF ok(1,2) assms(2)]) (simp_all add: Announcing)
    then show ?thesis
      using step n fails_good [OF ok(1,2) assms(2)] Announcing by (simp add: announced_def split: sum.splits)
  next
    case (Reading d)
    then have "n = (s i)\<lparr>hn_cli := Parting (get_msg (cfg (\<not> i)))\<rparr>" "p = s (\<not> i)"
      using assms(4) by (auto simp: client_request_def split: if_splits)
    moreover have "hn_desc (s i) \<noteq> None" "hn_desc (s (\<not> i)) \<noteq> None" using ok(1,2) Reading by (auto simp: node_ok_def link_def)
    ultimately show ?thesis using step moves_good [OF ok(1,2) assms(2), of "Parting (get_msg (cfg (\<not> i)))"] Reading by simp
  next
    case (Parting m)
    then have eq: "n = (s i)\<lparr>hn_cli := ClientEnd (Inr ())\<rparr>" "p = (s (\<not> i))\<lparr>hn_done := True\<rparr>"
      using assms(4) by (auto simp: client_request_def post_bye_def)
    have "node_ok (cfg i) n" using ok(1) none Parting by (auto simp: eq node_ok_def owns_def)
    moreover have "node_ok (cfg (\<not> i)) p" using okp assms(3) by (simp add: eq node_ok_def owns_def)
    moreover have "link n p" using ok(2) Parting by (simp add: eq link_def)
    moreover have "link p n" using ok(3) by (simp add: eq link_def)
    ultimately show ?thesis by (rule hello_ok_pair)
  next
    case (Aborting e)
    then have eq: "n = (s i)\<lparr>hn_cli := ClientEnd (Inl e)\<rparr>" "p = (s (\<not> i))\<lparr>hn_abort := True\<rparr>"
      using assms(4) by (auto simp: client_request_def post_abort_def)
    have "node_ok (cfg i) n" using ok(1) none Aborting by (auto simp: eq node_ok_def owns_def)
    moreover have "node_ok (cfg (\<not> i)) p" using okp assms(3) by (simp add: eq node_ok_def owns_def)
    moreover have "link n p" using ok(2) Aborting by (simp add: eq link_def)
    moreover have "link p n" using ok(3) by (simp add: eq link_def)
    ultimately show ?thesis by (rule hello_ok_pair)
  qed (use assms(4) in \<open>simp_all add: client_request_def\<close>)
qed

lemma exit_keeps:
  assumes "node_exit L n = Some n'" and "node_ok c n"
  shows "node_ok c n'" and "hn_cli n' = hn_cli n" and "hn_desc n' = hn_desc n" and "hn_done n' = hn_done n"
    and "hn_abort n' = hn_abort n"
proof -
  obtain rc rs where ends: "hn_cli n = ClientEnd rc" "srv_result (hn_srv n) = Some rs" "hn_exit n = None"
    using assms(1) by (auto simp: node_exit_def split: hello_client.splits option.splits)
  then have n': "n' = n\<lparr>hn_heap := drop_res_opt L (hn_res n) (hn_heap n), hn_res := None,
      hn_exit := Some (case rc of Inl e \<Rightarrow> Inl e | Inr _ \<Rightarrow> rs)\<rparr>" using assms(1) by (simp add: node_exit_def)
  have "inv False {#} {#} (drop_res_opt L (hn_res n) (hn_heap n))"
    using inv_drop_res [of "hn_res n" "{#}" "hn_heap n" L] assms(2) by (simp add: node_ok_def owns_def)
  then show "node_ok c n'" using assms(2) ends unfolding n' by (cases rc) (auto simp: node_ok_def owns_def)
qed (use assms(1) in \<open>auto simp: node_exit_def split: hello_client.splits option.splits\<close>)

lemma age_irrelevant:
  "node_ok c (if b then n\<lparr>hn_age := a\<rparr> else n) = node_ok c n"
  "link (if b then n\<lparr>hn_age := a\<rparr> else n) (if b' then p\<lparr>hn_age := a'\<rparr> else p) = link n p"
  by (simp_all add: node_ok_def owns_def link_def)

lemma act_ok:
  assumes "hello_act L cfg ev s = Some s'" and "hello_ok cfg s"
  shows "hello_ok cfg s'"
proof -
  note ok = hello_okD [OF assms(2)]
  have step: ?thesis if "step_node i f s = Some s'" and "\<And>n. f (s i) = Some n \<Longrightarrow> hn_up (s i) \<Longrightarrow> hello_ok cfg (s(i := n))" for i f
    using that by (auto simp: step_node_def split: if_splits)
  have good: ?thesis if "step_node i f s = Some s'"
    and "\<And>n. f (s i) = Some n \<Longrightarrow> hn_up (s i) \<Longrightarrow> good_step (cfg i) (s (\<not> i)) (s i) n" for i f
    by (rule step [OF that(1)], rule good_ok [OF assms(2) that(2)])
  show ?thesis
  proof (cases ev)
    case (Start i)
    then have "s' = s(i := (s i)\<lparr>hn_up := True\<rparr>)" using assms(1) by (auto split: if_splits)
    moreover have "node_ok (cfg i) ((s i)\<lparr>hn_up := True\<rparr>)" using ok(1) [of i] by (simp add: node_ok_def owns_def)
    ultimately show ?thesis using server_ok [OF assms(2), of i] by simp
  next
    case (Bind i r)
    show ?thesis
    proof (rule step [OF assms(1) [unfolded Bind hello_act.simps]])
      fix n assume "(if hn_srv (s i) = Unbound
        then Some ((s i)\<lparr>hn_srv := (case r of None \<Rightarrow> Serving | Some e \<Rightarrow> BindFailed e)\<rparr>) else None) = Some n" and up: "hn_up (s i)"
      then have n: "n = (s i)\<lparr>hn_srv := (case r of None \<Rightarrow> Serving | Some e \<Rightarrow> BindFailed e)\<rparr>" "hn_srv (s i) = Unbound"
        by (auto split: if_splits)
      have "hn_exit (s i) = None"
        using ok(1) [of i] n(2) by (cases "(hn_cli (s i), hn_srv (s i), hn_exit (s i))" rule: exit_ok.cases) (auto simp: node_ok_def)
      then have "node_ok (cfg i) n" using ok(1) [of i] up n by (auto simp: node_ok_def owns_def split: option.split)
      then show "hello_ok cfg (s(i := n))" by (rule server_ok [OF assms(2)]) (simp_all add: n)
    qed
  next
    case (Request i)
    then show ?thesis using assms(1) request_ok [OF assms(2)] by (auto split: if_splits)
  next
    case (Retry i)
    then show ?thesis using assms(1) refused_good [OF _ ok(1,2)] by (auto intro!: good split: if_splits)
  next
    case (Break i e)
    then show ?thesis using assms(1) broken_good [OF _ ok(1,2)] by (auto intro!: good)
  next
    case (BadJson i e)
    then show ?thesis using assms(1) bad_json_good [OF _ ok(1,2)] by (auto intro!: good)
  next
    case (Local i)
    then show ?thesis using assms(1) local_good [OF _ ok(1,2)] by (auto intro!: good)
  next
    case (Stop i e)
    show ?thesis
    proof (rule step [OF assms(1) [unfolded Stop hello_act.simps]])
      fix n assume "(if hn_srv (s i) = Serving \<and> srv_may_end e (s i) then Some ((s i)\<lparr>hn_srv := Ended e\<rparr>) else None) = Some n"
        and up: "hn_up (s i)"
      then have n: "n = (s i)\<lparr>hn_srv := Ended e\<rparr>" "hn_srv (s i) = Serving" "srv_may_end e (s i)" by (auto split: if_splits)
      have "hn_exit (s i) = None"
        using ok(1) [of i] n(2) by (cases "(hn_cli (s i), hn_srv (s i), hn_exit (s i))" rule: exit_ok.cases) (auto simp: node_ok_def)
      then have "node_ok (cfg i) n"
        using ok(1) [of i] n up by (cases e) (auto simp: node_ok_def owns_def srv_may_end_def)
      then show "hello_ok cfg (s(i := n))" by (rule server_ok [OF assms(2)]) (simp_all add: n)
    qed
  next
    case Second
    then have s': "s' = (\<lambda>i. if hn_srv (s i) = Serving then (s i)\<lparr>hn_age := hn_age (s i) + 1\<rparr> else s i)"
      using assms(1) by simp
    show ?thesis using ok(1,2) by (simp add: hello_ok_def s' age_irrelevant)
  next
    case (Exit i)
    show ?thesis
    proof (rule step [OF assms(1) [unfolded Exit hello_act.simps]])
      fix n assume "node_exit L (s i) = Some n"
      then show "hello_ok cfg (s(i := n))" using exit_keeps [OF _ ok(1)] by (intro server_ok [OF assms(2)])
    qed
  qed
qed

lemma run_ok:
  assumes "hello_run L cfg s0 evs s" and "hello_ok cfg s0"
  shows "hello_ok cfg s"
  using assms by (induction rule: hello_run.induct) (auto intro: act_ok)

lemma start_ok: "hello_ok cfg (hello_start cfg w)"
  using inv_fresh by (auto simp: hello_ok_def hello_start_def node_start_def node_ok_def link_def owns_def)

end
