(* ===== verification/HelloEnds.thy ===== *)
theory HelloEnds
  imports HelloRuns
begin

text \<open>
  How the one-sided READ demo ends: two nodes that are up can finish as long as nothing failed, and the
  ways in which a client is left waiting for ever.
\<close>

section \<open>Two nodes that are up can finish\<close>

definition going_well :: "'w hello \<Rightarrow> bool" where
  "going_well s \<longleftrightarrow> (\<forall>i. hn_up (s i) \<and> \<not> client_failed (hn_cli (s i))
     \<and> hn_srv (s i) \<in> {Unbound, Serving, Ended Bye})"

fun calm :: "hello_event \<Rightarrow> bool" where
  "calm (Bind i r) = (r = None)"
| "calm (Request i) = True"
| "calm (Local i) = True"
| "calm (Stop i e) = (e = Bye)"
| "calm (Exit i) = True"
| "calm _ = False"

fun rank :: "hello_client \<Rightarrow> bool \<Rightarrow> nat" where
  "rank Polling False = 10"
| "rank (Replied d) False = 9"
| "rank (Replied None) True = 8"
| "rank Polling True = 7"
| "rank (Replied (Some d)) True = 6"
| "rank (Announcing d) b = 5"
| "rank (Reading d) b = 4"
| "rank (Parting m) b = 3"
| "rank _ b = 0"

lemma rank_reply [simp]: "rank (Replied (Some d)) b < rank Polling b"
  by (cases b) simp_all

fun srv_rank :: "server \<Rightarrow> nat" where
  "srv_rank Unbound = 2"
| "srv_rank Serving = 1"
| "srv_rank _ = 0"

definition node_rank :: "'w node \<Rightarrow> nat" where
  "node_rank n = rank (hn_cli n) (hn_desc n \<noteq> None) + srv_rank (hn_srv n) + (if hn_exit n = None then 1 else 0)"

definition hello_rank :: "'w hello \<Rightarrow> nat" where
  "hello_rank s = node_rank (s True) + node_rank (s False)"

lemma rank_one: "node_rank n < node_rank (s i) \<Longrightarrow> hello_rank (s(i := n)) < hello_rank s"
  by (cases i) (simp_all add: hello_rank_def)

lemma rank_two: "node_rank n + node_rank p < node_rank (s i) + node_rank (s (\<not> i)) \<Longrightarrow>
    hello_rank (s(i := n, (\<not> i) := p)) < hello_rank s"
  by (cases i) (simp_all add: hello_rank_def)

lemma hello_rank_le: "hello_rank s \<le> 26"
proof -
  have le: "rank c b \<le> 10" "srv_rank r \<le> 2" for c b r
    by (cases "(c, b)" rule: rank.cases; simp) (cases r; simp)
  have last: "(if b then 1 else 0) \<le> (1 :: nat)" for b by simp
  have "node_rank n \<le> 13" for n
    using last [of "hn_exit n = None"] le(1) [of "hn_cli n" "hn_desc n \<noteq> None"] le(2) [of "hn_srv n"] unfolding node_rank_def by linarith
  from this [of "s True"] this [of "s False"] show ?thesis unfolding hello_rank_def by linarith
qed

definition over_urma :: "(bool \<Rightarrow> hello_cfg) \<Rightarrow> 'w hello \<Rightarrow> bool" where
  "over_urma cfg s \<longleftrightarrow> (\<exists>i. \<not> hc_hook (cfg i) \<and> client_failed (hn_cli (s i)))"

text \<open>A step forward: all is still well and less is left, or a call of the library failed.\<close>

definition forward :: "(bool \<Rightarrow> hello_cfg) \<Rightarrow> 'w hello \<Rightarrow> 'w hello \<Rightarrow> bool" where
  "forward cfg s s' \<longleftrightarrow> (going_well s' \<and> hello_rank s' < hello_rank s) \<or> over_urma cfg s'"

lemma going_one:
  assumes "going_well s" and "hn_up n" and "\<not> client_failed (hn_cli n)" and "hn_srv n \<in> {Unbound, Serving, Ended Bye}"
    and "node_rank n < node_rank (s i)"
  shows "forward cfg s (s(i := n))"
  using assms rank_one [of n s i] by (simp add: forward_def going_well_def)

lemma local_forward:
  assumes ok: "hello_ok cfg s" and well: "going_well s" and "(\<exists>d. hn_cli (s i) = Replied d) \<or> (\<exists>d. hn_cli (s i) = Reading d \<and> \<not> hc_hook (cfg i))"
  shows "\<exists>s'. hello_act L cfg (Local i) s = Some s' \<and> forward cfg s s'"
proof -
  have up: "hn_up (s i)" "hn_srv (s i) \<in> {Unbound, Serving, Ended Bye}" using well by (auto simp: going_well_def)
  have "client_local L (cfg i) (s i) \<noteq> None"
    using assms(3) by (auto simp: client_local_def split: prod.split option.split sum.split)
  then obtain n where n: "client_local L (cfg i) (s i) = Some n" by blast
  have good: "good_step (cfg i) (s (\<not> i)) (s i) n"
    using local_good [OF n hello_okD(1,2) [OF ok] up(1)] .
  then have kept: "hn_up n" "hn_srv n = hn_srv (s i)" "hn_exit n = hn_exit (s i)"
    "hn_desc (s i) = None \<or> hn_desc n = hn_desc (s i)"
    using up by (auto simp: good_step_def same_side_def)
  have "forward cfg s (s(i := n))"
  proof (cases "client_failed (hn_cli n)")
    case True
    have "\<not> hc_hook (cfg i)"
    proof
      assume hook: "hc_hook (cfg i)"
      then obtain d where d: "hn_cli (s i) = Replied d" using assms(3) by auto
      obtain r n1 where r: "ensure_resources L (cfg i) (s i) = (r, n1)" by force
      show False
        using n True ensure_frame(13) [OF r hook] by (auto simp: client_local_def d r split: option.splits)
    qed
    then show ?thesis using True by (auto simp: forward_def over_urma_def)
  next
    case False
    have "rank (hn_cli n) (hn_desc n \<noteq> None) < rank (hn_cli (s i)) (hn_desc (s i) \<noteq> None)"
      using assms(3)
    proof
      assume "\<exists>d. hn_cli (s i) = Replied d"
      then obtain d where d: "hn_cli (s i) = Replied d" ..
      obtain r n1 where r: "ensure_resources L (cfg i) (s i) = (r, n1)" by force
      have "n = n1\<lparr>hn_cli := (case d of None \<Rightarrow> Polling | Some d \<Rightarrow> Announcing d)\<rparr>" "r = Some (Inr ())"
        using n False by (auto simp: client_local_def d r node_fails_def split: option.splits sum.splits)
      then show ?thesis using ensure_frame(11) [OF r] d by (cases d; cases "hn_desc (s i)") auto
    next
      assume "\<exists>d. hn_cli (s i) = Reading d \<and> \<not> hc_hook (cfg i)"
      then show ?thesis
        using n False by (auto simp: client_local_def node_fails_def split: option.splits prod.splits sum.splits)
    qed
    then show ?thesis using kept up False by (intro going_one [OF well]) (simp_all add: node_rank_def)
  qed
  then show ?thesis using n up(1) by (simp add: step_node_def)
qed

lemma request_forward:
  assumes ok: "hello_ok cfg s" and well: "going_well s" and srv: "hn_srv (s (\<not> i)) \<noteq> Unbound"
    and "(hn_cli (s i) = Polling \<and> (hn_desc (s i) = None \<or> hn_desc (s (\<not> i)) \<noteq> None)) \<or> (\<exists>d. hn_cli (s i) = Announcing d)
      \<or> (\<exists>d. hn_cli (s i) = Reading d \<and> hc_hook (cfg i)) \<or> (\<exists>m. hn_cli (s i) = Parting m)"
  shows "\<exists>s'. hello_act L cfg (Request i) s = Some s' \<and> forward cfg s s'"
proof -
  have up: "hn_up (s i)" using well by (simp add: going_well_def)
  have "\<not> hn_done (s (\<not> i))" using hello_okD(2) [OF ok, of i] assms(4) by (auto simp: link_def)
  then have "hn_srv (s (\<not> i)) \<noteq> Ended Bye" using hello_okD(1) [OF ok, of "\<not> i"] by (auto simp: node_ok_def)
  then have serving: "hn_srv (s (\<not> i)) = Serving" using well srv by (auto simp: going_well_def)
  have "client_request L (cfg i) (cfg (\<not> i)) (s i) (s (\<not> i)) \<noteq> None"
    using assms(4) by (auto simp: client_request_def split: prod.split)
  then obtain n p where np: "client_request L (cfg i) (cfg (\<not> i)) (s i) (s (\<not> i)) = Some (n, p)" by force
  have p: "node_rank p = node_rank (s (\<not> i))" "hn_up p = hn_up (s (\<not> i))" "hn_cli p = hn_cli (s (\<not> i))" "hn_srv p = hn_srv (s (\<not> i))"
    using np by (auto simp: client_request_def node_rank_def post_bye_def post_abort_def split: hello_client.splits if_splits prod.splits)
  have "forward cfg s (s(i := n, (\<not> i) := p))"
  proof (cases "client_failed (hn_cli n)")
    case True
    then obtain d where d: "hn_cli (s i) = Announcing d"
      using np assms(4) by (auto simp: client_request_def split: prod.splits)
    then have "\<not> hc_hook (cfg i)" using np True by (auto simp: client_request_def announced_def)
    then have "over_urma cfg (s(i := n, (\<not> i) := p))" using True by (auto simp: over_urma_def intro!: exI [of _ i])
    then show ?thesis by (simp add: forward_def)
  next
    case False
    have "node_rank n < node_rank (s i)"
      using np False assms(4)
      by (auto simp: client_request_def node_rank_def announced_def node_fails_def get_info_def
          split: prod.splits if_splits sum.splits option.splits)
    then have "hello_rank (s(i := n, (\<not> i) := p)) < hello_rank s" by (intro rank_two) (simp add: p)
    moreover have "hn_up n" "hn_srv n = hn_srv (s i)"
      using np up by (auto simp: client_request_def announced_def node_fails_def split: hello_client.splits if_splits prod.splits sum.splits)
    then have "going_well (s(i := n, (\<not> i) := p))" using well False p by (simp add: going_well_def)
    ultimately show ?thesis by (simp add: forward_def)
  qed
  then show ?thesis using np up serving by simp
qed

lemma some_step:
  assumes ok: "hello_ok cfg s" and well: "going_well s" and "hn_exit (s j) = None"
  shows "\<exists>ev s'. calm ev \<and> hello_act L cfg ev s = Some s' \<and> forward cfg s s'"
proof -
  have up: "hn_up (s i)" "\<not> client_failed (hn_cli (s i))" "hn_srv (s i) \<in> {Unbound, Serving, Ended Bye}" for i
    using well by (auto simp: going_well_def)
  have request: ?thesis if "hn_srv (s (\<not> i)) \<noteq> Unbound" "(hn_cli (s i) = Polling \<and> (hn_desc (s i) = None \<or> hn_desc (s (\<not> i)) \<noteq> None))
      \<or> (\<exists>d. hn_cli (s i) = Announcing d) \<or> (\<exists>d. hn_cli (s i) = Reading d \<and> hc_hook (cfg i)) \<or> (\<exists>m. hn_cli (s i) = Parting m)" for i
    using request_forward [OF ok well that] calm.simps(2) by blast
  have here: ?thesis if "(\<exists>d. hn_cli (s i) = Replied d) \<or> (\<exists>d. hn_cli (s i) = Reading d \<and> \<not> hc_hook (cfg i))" for i
    using local_forward [OF ok well that] calm.simps(3) by blast
  show ?thesis
  proof (cases "\<exists>i. hn_srv (s i) = Unbound")
    case True
    then obtain i where i: "hn_srv (s i) = Unbound" ..
    have "forward cfg s (s(i := (s i)\<lparr>hn_srv := Serving\<rparr>))"
      by (rule going_one [OF well]) (use up i in \<open>simp_all add: node_rank_def\<close>)
    then show ?thesis using i up by (intro exI [of _ "Bind i None"]) (simp add: step_node_def)
  next
    case bound: False
    show ?thesis
    proof (cases "\<forall>i. hn_cli (s i) = ClientEnd (Inr ())")
      case True
      then have flags: "hn_done (s i)" for i
        using hello_okD(3) [OF ok, of i] by (simp add: link_def)
      show ?thesis
      proof (cases "hn_srv (s j) = Serving")
        case serving: True
        have "forward cfg s (s(j := (s j)\<lparr>hn_srv := Ended Bye\<rparr>))"
          by (rule going_one [OF well]) (use up serving in \<open>simp_all add: node_rank_def\<close>)
        then show ?thesis
          using serving up flags by (intro exI [of _ "Stop j Bye"]) (simp add: step_node_def srv_may_end_def)
      next
        case False
        then have srv: "hn_srv (s j) = Ended Bye" using up(3) [of j] bound by auto
        let ?n = "(s j)\<lparr>hn_heap := drop_res_opt L (hn_res (s j)) (hn_heap (s j)), hn_res := None, hn_exit := Some (Inr ())\<rparr>"
        have "forward cfg s (s(j := ?n))"
          by (rule going_one [OF well]) (use up srv True assms(3) in \<open>simp_all add: node_rank_def\<close>)
        then show ?thesis
          using srv up assms(3) True by (intro exI [of _ "Exit j"]) (simp add: step_node_def node_exit_def)
      qed
    next
      case False
      then obtain i where i: "hn_cli (s i) \<noteq> ClientEnd (Inr ())" by blast
      show ?thesis
      proof (cases "hn_cli (s i)")
        case Polling
        show ?thesis
        proof (cases "hn_desc (s i) = None \<or> hn_desc (s (\<not> i)) \<noteq> None")
          case True
          then show ?thesis using request [of i] Polling bound by blast
        next
          case quiet: False
          then have "\<not> past_polling (hn_cli (s (\<not> i)))"
            using hello_okD(1) [OF ok, of "\<not> i"] by (auto simp: node_ok_def)
          then have "hn_cli (s (\<not> i)) = Polling \<or> (\<exists>d. hn_cli (s (\<not> i)) = Replied d)"
            using up(2) [of "\<not> i"] by (cases "hn_cli (s (\<not> i))") auto
          then show ?thesis using here [of "\<not> i"] request [of "\<not> i"] bound quiet by auto
        qed
      next
        case (Reading d)
        then show ?thesis using here [of i] request [of i] bound by blast
      qed (use here [of i] request [of i] bound up(2) [of i] i in auto)
    qed
  qed
qed

lemma run_cons:
  assumes "hello_run L cfg s1 evs s'" and "hello_act L cfg ev s = Some s1"
  shows "hello_run L cfg s (ev # evs) s'"
  using assms
proof (induction rule: hello_run.induct)
  case begun
  then show ?case using hello_run.act [OF hello_run.begun] by force
next
  case (act evs s2 ev' s3)
  then show ?case using hello_run.act [of L cfg s "ev # evs" s2 ev' s3] by simp
qed

lemma can_finish:
  assumes "hello_ok cfg s" and "going_well s"
  shows "\<exists>evs s'. list_all calm evs \<and> length evs \<le> hello_rank s \<and> hello_run L cfg s evs s'
    \<and> (over_urma cfg s' \<or> (\<forall>i. hn_exit (s' i) = Some (Inr ())))"
  using assms
proof (induction "hello_rank s" arbitrary: s rule: less_induct)
  case less
  show ?case
  proof (cases "\<exists>j. hn_exit (s j) = None")
    case True
    then obtain ev s1 where ev: "calm ev" "hello_act L cfg ev s = Some s1" "forward cfg s s1"
      using some_step [OF less.prems] by blast
    show ?thesis
    proof (cases "over_urma cfg s1")
      case True
      moreover obtain j where "hn_exit (s j) = None" using \<open>\<exists>j. hn_exit (s j) = None\<close> ..
      then have "1 \<le> hello_rank s" by (cases j) (simp_all add: hello_rank_def node_rank_def)
      ultimately show ?thesis
        using ev run_cons [OF hello_run.begun ev(2)] by (intro exI [of _ "[ev]"] exI [of _ s1]) simp
    next
      case False
      then have "hello_rank s1 < hello_rank s" "going_well s1" using ev(3) by (simp_all add: forward_def)
      then obtain evs s' where "list_all calm evs" "length evs \<le> hello_rank s1" "hello_run L cfg s1 evs s'"
        "over_urma cfg s' \<or> (\<forall>i. hn_exit (s' i) = Some (Inr ()))"
        using less.hyps act_ok [OF ev(2) less.prems(1)] by blast
      then show ?thesis
        using ev(1) run_cons [OF _ ev(2)] \<open>hello_rank s1 < hello_rank s\<close>
        by (intro exI [of _ "ev # evs"] exI [of _ s']) simp
    qed
  next
    case False
    have "hn_exit (s i) = Some (Inr ())" for i
    proof -
      obtain r where r: "hn_exit (s i) = Some r" using False by auto
      have "exit_ok (hn_cli (s i)) (hn_srv (s i)) (Some r)" "\<not> client_failed (hn_cli (s i))" "hn_srv (s i) \<in> {Unbound, Serving, Ended Bye}"
        using hello_okD(1) [OF less.prems(1), of i] less.prems(2) r by (auto simp: node_ok_def going_well_def)
      then have "r = Inr ()" by (cases "(hn_cli (s i), hn_srv (s i), Some r)" rule: exit_ok.cases) auto
      then show ?thesis using r by simp
    qed
    then show ?thesis by (intro exI [of _ "[]"] exI [of _ s]) (simp add: hello_run.begun)
  qed
qed

section \<open>Waiting for ever\<close>

definition srv_over :: "server \<Rightarrow> bool" where
  "srv_over srv \<longleftrightarrow> srv \<noteq> Unbound \<and> srv \<noteq> Serving"

text \<open>A request that is repeated until the connection is accepted.\<close>

fun retries :: "hello_cfg \<Rightarrow> hello_client \<Rightarrow> bool" where
  "retries c Polling = True"
| "retries c (Announcing d) = True"
| "retries c (Reading d) = hc_hook c"
| "retries c (Parting m) = True"
| "retries c _ = False"

fun breaks :: "bool \<Rightarrow> hello_event \<Rightarrow> bool" where
  "breaks i (Break j e) = (i = j)"
| "breaks i _ = False"

lemma client_same_side:
  "client_local L c n = Some n' \<Longrightarrow> same_side n n'"
  "client_refused c n = Some n' \<Longrightarrow> same_side n n'"
  "client_broken c e n = Some n' \<Longrightarrow> same_side n n'"
  "client_bad_json L c e n = Some n' \<Longrightarrow> same_side n n'"
  "client_request L c cp n p = Some (n', p') \<Longrightarrow> same_side n n'"
  by (auto simp: client_local_def client_refused_def client_broken_def client_bad_json_def client_request_def
      node_fails_def announced_def same_side_def
      split: hello_client.splits option.splits if_splits prod.splits sum.splits dest!: ensure_same_side)

lemma request_peer:
  "client_request L c cp n p = Some (n', p') \<Longrightarrow> hn_srv p' = hn_srv p \<and> hn_cli p' = hn_cli p \<and> hn_desc p' = hn_desc p
     \<and> hn_exit p' = hn_exit p"
  by (auto simp: client_request_def post_bye_def post_abort_def split: hello_client.splits if_splits prod.splits)

text \<open>Steps of the client that cannot make it end well.\<close>

lemma client_no_end:
  "client_local L c n = Some n' \<Longrightarrow> hn_cli n' \<noteq> ClientEnd (Inr ())"
  "client_refused c n = Some n' \<Longrightarrow> hn_cli n' \<noteq> ClientEnd (Inr ())"
  "client_broken c e n = Some n' \<Longrightarrow> hn_cli n' \<noteq> ClientEnd (Inr ())"
  "client_bad_json L c e n = Some n' \<Longrightarrow> hn_cli n' \<noteq> ClientEnd (Inr ())"
  by (auto simp: client_local_def client_refused_def client_broken_def client_bad_json_def node_fails_def
      split: hello_client.splits option.splits if_splits prod.splits sum.splits)

lemma step_node_cases:
  assumes "step_node j f s = Some s'"
  obtains n where "f (s j) = Some n" and "s' = s(j := n)" and "hn_up (s j)"
  using assms by (auto simp: step_node_def split: if_splits)

text \<open>What becomes of one node: nothing, but its age and a notice; or a step of its own.\<close>

lemma node_step:
  assumes "hello_act L cfg ev s = Some s'"
  obtains (same) "hn_srv (s' i) = hn_srv (s i)" "hn_cli (s' i) = hn_cli (s i)" "hn_exit (s' i) = hn_exit (s i)"
      "hn_desc (s' i) = hn_desc (s i)"
  | (bind) r where "ev = Bind i r" "hn_srv (s i) = Unbound" "hn_cli (s' i) = hn_cli (s i)" "hn_exit (s' i) = hn_exit (s i)"
      "hn_desc (s' i) = hn_desc (s i)"
  | (stop) e where "ev = Stop i e" "hn_srv (s i) = Serving" "hn_cli (s' i) = hn_cli (s i)" "hn_exit (s' i) = hn_exit (s i)"
      "hn_desc (s' i) = hn_desc (s i)"
  | (request) p where "ev = Request i" "hn_srv (s (\<not> i)) = Serving"
      "client_request L (cfg i) (cfg (\<not> i)) (s i) (s (\<not> i)) = Some (s' i, p)"
  | (client) "hn_up (s i)" "(ev = Retry i \<and> client_refused (cfg i) (s i) = Some (s' i))
      \<or> (\<exists>e. ev = Break i e \<and> client_broken (cfg i) e (s i) = Some (s' i))
      \<or> (\<exists>e. ev = BadJson i e \<and> client_bad_json L (cfg i) e (s i) = Some (s' i))
      \<or> (ev = Local i \<and> client_local L (cfg i) (s i) = Some (s' i))"
  | (exit) "ev = Exit i" "node_exit L (s i) = Some (s' i)"
proof (cases ev)
  case (Request j)
  then obtain n p where np: "client_request L (cfg j) (cfg (\<not> j)) (s j) (s (\<not> j)) = Some (n, p)"
    "s' = s(j := n, (\<not> j) := p)" "hn_srv (s (\<not> j)) = Serving"
    using assms by (auto split: if_splits)
  show ?thesis
  proof (cases "j = i")
    case True
    then show ?thesis using np Request request [of p] by simp
  next
    case False
    then have "i = (\<not> j)" by auto
    then show ?thesis using np(2) request_peer [OF np(1)] same by simp
  qed
next
  case (Start j)
  then show ?thesis using assms same by (auto split: if_splits)
next
  case Second
  then show ?thesis using assms same by auto
next
  case (Bind j r)
  then show ?thesis
    using assms same bind [of r] by (cases "j = i") (auto elim!: step_node_cases split: if_splits)
next
  case (Stop j e)
  then show ?thesis
    using assms same stop [of e] by (cases "j = i") (auto elim!: step_node_cases split: if_splits)
next
  case (Exit j)
  then show ?thesis using assms same exit by (cases "j = i") (auto elim!: step_node_cases)
next
  case (Retry j)
  then show ?thesis using assms same client by (cases "j = i") (auto elim!: step_node_cases split: if_splits)
next
  case (Break j e)
  then show ?thesis using assms same client by (cases "j = i") (auto elim!: step_node_cases)
next
  case (BadJson j e)
  then show ?thesis using assms same client by (cases "j = i") (auto elim!: step_node_cases)
next
  case (Local j)
  then show ?thesis using assms same client by (cases "j = i") (auto elim!: step_node_cases)
qed

lemma exit_needs_end: "node_exit L n = Some n' \<Longrightarrow> hn_srv n' = hn_srv n \<and> hn_cli n' = hn_cli n \<and> hn_desc n' = hn_desc n
    \<and> (\<exists>rc rs. hn_cli n = ClientEnd rc \<and> srv_result (hn_srv n) = Some rs \<and> hn_exit n' = Some (case rc of Inl e \<Rightarrow> Inl e | Inr _ \<Rightarrow> rs))"
  by (auto simp: node_exit_def split: hello_client.splits option.splits)

lemma over_stays:
  assumes "hello_act L cfg ev s = Some s'" and "srv_over (hn_srv (s i))"
  shows "hn_srv (s' i) = hn_srv (s i)"
  using assms(1)
proof (cases rule: node_step [of L cfg ev s s' i])
  case client
  then show ?thesis using client_same_side unfolding same_side_def by metis
next
  case (request p)
  then show ?thesis using client_same_side(5) unfolding same_side_def by metis
qed (use assms(2) exit_needs_end in \<open>auto simp: srv_over_def\<close>)

text \<open>A client that needs the peer's server once that is over.\<close>

lemma stuck_stays:
  assumes "hello_act L cfg ev s = Some s'" and "srv_over (hn_srv (s (\<not> i)))" and "\<not> breaks i ev"
    and "retries (cfg i) (hn_cli (s i))" and "hn_exit (s i) = None"
  shows "hn_cli (s' i) = hn_cli (s i) \<and> hn_exit (s' i) = None \<and> hn_desc (s' i) = hn_desc (s i)"
  using assms(1)
proof (cases rule: node_step [of L cfg ev s s' i])
  case client
  then have "client_refused (cfg i) (s i) = Some (s' i) \<or> (\<exists>e. client_bad_json L (cfg i) e (s i) = Some (s' i))
      \<or> client_local L (cfg i) (s i) = Some (s' i)" using assms(3) by auto
  then have "s' i = s i"
    using assms(4) by (auto simp: client_refused_def client_bad_json_def client_local_def split: hello_client.splits if_splits)
  then show ?thesis using assms(5) by simp
next
  case (exit)
  then show ?thesis using assms(4) exit_needs_end [OF exit(2)] by auto
qed (use assms(2,5) in \<open>auto simp: srv_over_def\<close>)

text \<open>No node ends well with a client that has not.\<close>

definition never_well :: "bool \<Rightarrow> 'w hello \<Rightarrow> bool" where
  "never_well i s \<longleftrightarrow> srv_over (hn_srv (s (\<not> i))) \<and> hn_cli (s i) \<noteq> ClientEnd (Inr ()) \<and> hn_exit (s i) \<noteq> Some (Inr ())"

lemma never_well_stays:
  assumes "hello_act L cfg ev s = Some s'" and "never_well i s"
  shows "never_well i s'"
proof -
  have "srv_over (hn_srv (s' (\<not> i)))" using over_stays [OF assms(1)] assms(2) by (simp add: never_well_def)
  moreover have "hn_cli (s' i) \<noteq> ClientEnd (Inr ()) \<and> hn_exit (s' i) \<noteq> Some (Inr ())"
    using assms(1)
  proof (cases rule: node_step [of L cfg ev s s' i])
    case client
    then have "hn_exit (s' i) = hn_exit (s i)" using client_same_side unfolding same_side_def by metis
    then show ?thesis using client assms(2) by (auto simp: never_well_def dest: client_no_end)
  next
    case exit
    obtain rc where "hn_cli (s i) = ClientEnd rc" "hn_cli (s' i) = hn_cli (s i)"
      "\<exists>rs. hn_exit (s' i) = Some (case rc of Inl e \<Rightarrow> Inl e | Inr _ \<Rightarrow> rs)"
      using exit_needs_end [OF exit(2)] by blast
    then show ?thesis using assms(2) by (cases rc) (auto simp: never_well_def)
  qed (use assms(2) in \<open>auto simp: never_well_def srv_over_def\<close>)
  ultimately show ?thesis by (simp add: never_well_def)
qed

lemma run_stays:
  assumes "hello_run L cfg s evs s'" and "P s" and "\<And>ev s s'. ev \<in> set evs \<Longrightarrow> hello_act L cfg ev s = Some s' \<Longrightarrow> P s \<Longrightarrow> P s'"
  shows "P s'"
  using assms
proof (induction rule: hello_run.induct)
  case (act evs s ev s')
  then show ?case by (metis Un_iff list.set_intros(1) set_append)
qed simp

lemma wait_for_ever:
  assumes "hello_run L cfg s evs s'" and "srv_over (hn_srv (s (\<not> i)))" and "retries (cfg i) (hn_cli (s i))"
    and "hn_exit (s i) = None" and "\<not> list_ex (breaks i) evs"
  shows "hn_cli (s' i) = hn_cli (s i) \<and> hn_exit (s' i) = None \<and> hn_desc (s' i) = hn_desc (s i)"
proof -
  have "srv_over (hn_srv (s' (\<not> i))) \<and> hn_cli (s' i) = hn_cli (s i) \<and> hn_exit (s' i) = None \<and> hn_desc (s' i) = hn_desc (s i)"
  proof (rule run_stays [OF assms(1)])
    fix ev s1 s2 assume ev: "ev \<in> set evs" "hello_act L cfg ev s1 = Some s2"
      and now: "srv_over (hn_srv (s1 (\<not> i))) \<and> hn_cli (s1 i) = hn_cli (s i) \<and> hn_exit (s1 i) = None \<and> hn_desc (s1 i) = hn_desc (s i)"
    have "\<not> breaks i ev" using assms(5) ev(1) by (auto simp: list_ex_iff)
    then show "srv_over (hn_srv (s2 (\<not> i))) \<and> hn_cli (s2 i) = hn_cli (s i) \<and> hn_exit (s2 i) = None \<and> hn_desc (s2 i) = hn_desc (s i)"
      using stuck_stays [OF ev(2), of i] over_stays [OF ev(2), of "\<not> i"] now assms(3) by simp
  qed (use assms(2,4) in simp)
  then show ?thesis by blast
qed

lemma not_up:
  assumes "hello_ok cfg s" and "\<not> hn_up (s i)"
  shows "hn_cli (s i) = Polling" and "hn_exit (s i) = None" and "hc_hook (cfg i) \<or> hn_desc (s i) = None"
proof -
  have n: "node_ok (cfg i) (s i)" by (rule hello_okD(1) [OF assms(1)])
  show "hn_cli (s i) = Polling" "hc_hook (cfg i) \<or> hn_desc (s i) = None" using n assms(2) by (simp_all add: node_ok_def)
  then show "hn_exit (s i) = None" using exit_none [of "hn_cli (s i)" "hn_srv (s i)" "hn_exit (s i)"] n by (simp add: node_ok_def)
qed

section \<open>Properties\<close>

text \<open>
  C23 (the hello demo releases what it creates). Whatever the two processes do, in whichever order, and
  whatever fails: no client panics, and a process that at any moment drops its resources and ends
  its thread has deleted every library object it created, none before an object that depends on it.
\<close>

theorem hello_clean:
  assumes "hello_run L cfg (hello_start cfg w) evs s"
    and "honest (event_log (thread_exit L (drop_res_opt L (hn_res (s i)) (hn_heap (s i)))))"
  shows "hn_cli (s i) \<noteq> Panicked
    \<and> prun proto_init (event_log (thread_exit L (drop_res_opt L (hn_res (s i)) (hn_heap (s i))))) = Some proto_init"
proof -
  have n: "node_ok (cfg i) (s i)" using hello_okD(1) [OF run_ok [OF assms(1) start_ok]] .
  then have "inv False {#} {#} (drop_res_opt L (hn_res (s i)) (hn_heap (s i)))"
    by (intro inv_drop_res) (simp add: node_ok_def owns_def)
  then show ?thesis using inv_thread_exit_clean assms(2) n by (simp add: node_ok_def)
qed

text \<open>
  C24 (memory under a reader). A node that ended well knows that the client of the other has read its
  message and finished without an error. While the client of the other reads, its descriptor is the
  one this node published, and the node still holds its resources unless it ended with an error.
\<close>

theorem hello_memory_outlives_reader:
  assumes "hello_run L cfg (hello_start cfg w) evs s"
  shows "(if hn_exit (s i) = Some (Inr ()) then hn_cli (s (\<not> i)) = ClientEnd (Inr ()) else True)
    \<and> (case hn_cli (s (\<not> i)) of
         Reading d \<Rightarrow> hn_desc (s i) = Some d
           \<and> (case hn_exit (s i) of
                None \<Rightarrow> hc_hook (cfg i) = (hn_res (s i) = None)
              | Some r \<Rightarrow> \<exists>e. r = Inl e)
       | _ \<Rightarrow> True)"
proof -
  have ok: "hello_ok cfg s" by (rule run_ok [OF assms start_ok])
  note n = hello_okD(1) [OF ok, of i] and l = hello_okD(3) [OF ok, of i]
  have well: "hn_cli (s (\<not> i)) = ClientEnd (Inr ())" if exit: "hn_exit (s i) = Some (Inr ())"
  proof -
    have e: "exit_ok (hn_cli (s i)) (hn_srv (s i)) (Some (Inr ()))" using n exit by (simp add: node_ok_def)
    then have ends: "hn_cli (s i) = ClientEnd (Inr ())" "srv_result (hn_srv (s i)) = Some (Inr ())"
      by (cases "(hn_cli (s i), hn_srv (s i), Some (Inr ()) :: unit result option)" rule: exit_ok.cases; simp)+
    then have "\<not> hn_stop (s i)" using n by (simp add: node_ok_def)
    then have "hn_done (s i)"
      using n ends(2) by (cases "hn_srv (s i)" rule: srv_result.cases) (auto simp: node_ok_def)
    then show ?thesis using l by (simp add: link_def)
  qed
  have reading: "hn_desc (s i) = Some d \<and> (case hn_exit (s i) of None \<Rightarrow> hc_hook (cfg i) = (hn_res (s i) = None)
      | Some r \<Rightarrow> \<exists>e. r = Inl e)" if "hn_cli (s (\<not> i)) = Reading d" for d
  proof -
    have d: "hn_desc (s i) = Some d" using l that by (simp add: link_def)
    show ?thesis
    proof (cases "hn_exit (s i)")
      case None
      then show ?thesis using n d by (auto simp: node_ok_def)
    next
      case (Some r)
      then have "r \<noteq> Inr ()" using well that by auto
      then show ?thesis using d Some by (cases r) auto
    qed
  qed
  show ?thesis using well reading by (auto split: hello_client.split)
qed


text \<open>
  C26 (a client whose peer stopped serving). Once the server of a node is over, the process of the other
  never ends well unless its client had finished before. A client that was then about to send a
  request sends it again and again: it never leaves that place and its process never ends, although
  its own server may long have given up, unless a try fails other than by a refused connection.
\<close>

theorem hello_survivor_hangs:
  assumes "hello_run L cfg (hello_start cfg w) evs s" and "srv_over (hn_srv (s (\<not> i)))"
    and "hn_cli (s i) \<noteq> ClientEnd (Inr ())" and "hello_run L cfg s evs' s'"
  shows "hn_exit (s' i) \<noteq> Some (Inr ())
    \<and> (if retries (cfg i) (hn_cli (s i)) \<and> \<not> list_ex (breaks i) evs'
       then hn_cli (s' i) = hn_cli (s i) \<and> hn_exit (s' i) = None else True)"
proof -
  have e: "exit_ok (hn_cli (s i)) (hn_srv (s i)) (hn_exit (s i))"
    using hello_okD(1) [OF run_ok [OF assms(1) start_ok], of i] by (simp add: node_ok_def)
  then have "never_well i s"
    using assms(2,3) by (cases "(hn_cli (s i), hn_srv (s i), hn_exit (s i))" rule: exit_ok.cases) (auto simp: never_well_def)
  then have "never_well i s'" by (rule run_stays [OF assms(4)]) (rule never_well_stays)
  moreover have "hn_exit (s i) = None" if "retries (cfg i) (hn_cli (s i))"
    by (rule exit_none [OF e]) (use that in auto)
  ultimately show ?thesis using wait_for_ever [OF assms(4,2)] by (auto simp: never_well_def)
qed

text \<open>
  C27 (a late start). If the server of a node gave up before the other node was started, the process of
  the other never ends, whatever happens short of a broken connection; over URMA the client of the
  first never learns the descriptor it needs to read. The order of the starts matters once the two
  minutes of the server's patience are over.
\<close>

theorem hello_late_start:
  assumes "hello_run L cfg (hello_start cfg w) evs s" and "hn_srv (s i) = Ended Timeout" and "\<not> hn_up (s (\<not> i))"
    and "hello_run L cfg s evs' s'" and "\<not> list_ex (breaks (\<not> i)) evs'"
  shows "hn_exit (s' (\<not> i)) = None
    \<and> (if hc_hook (cfg (\<not> i)) then True else hn_desc (s' (\<not> i)) = None \<and> \<not> past_polling (hn_cli (s' i)))"
proof -
  have ok: "hello_ok cfg s" by (rule run_ok [OF assms(1) start_ok])
  note quiet = not_up [OF ok assms(3)]
  have "srv_over (hn_srv (s i))" using assms(2) by (simp add: srv_over_def)
  then have gone: "hn_exit (s' (\<not> i)) = None" "hn_desc (s' (\<not> i)) = hn_desc (s (\<not> i))"
    using wait_for_ever [OF assms(4), of "\<not> i"] quiet assms(5) by simp_all
  then show ?thesis
    using quiet(3) hello_okD(2) [OF run_ok [OF assms(4) ok], of i] by (auto simp: link_def)
qed

end
