(* ===== verification/HelloDemo.thy ===== *)
theory HelloDemo
  imports HelloEnds
begin

text \<open>Concrete runs of the one-sided READ demo.\<close>

fun acts :: "'w liburma \<Rightarrow> (bool \<Rightarrow> hello_cfg) \<Rightarrow> hello_event list \<Rightarrow> 'w hello \<Rightarrow> 'w hello option" where
  "acts L cfg [] s = Some s"
| "acts L cfg (ev # evs) s = (case hello_act L cfg ev s of None \<Rightarrow> None | Some s1 \<Rightarrow> acts L cfg evs s1)"

lemma acts_run: "acts L cfg evs s = Some s' \<Longrightarrow> hello_run L cfg s evs s'"
  by (induction evs arbitrary: s) (auto intro: hello_run.begun run_cons split: option.splits)

lemma acts_append: "acts L cfg (evs @ evs') s = Option.bind (acts L cfg evs s) (acts L cfg evs')"
  by (induction evs arbitrary: s) (auto split: option.split)

lemma acts_seconds:
  "acts L cfg (replicate n Second) s =
     Some (\<lambda>i. if hn_srv (s i) = Serving then (s i)\<lparr>hn_age := hn_age (s i) + n\<rparr> else s i)"
proof (induction n arbitrary: s)
  case (Suc n)
  show ?case by (simp add: Suc) (rule ext, simp)
qed (simp add: fun_eq_iff)

section \<open>Over HTTP\<close>

definition hook_cfg :: "bool \<Rightarrow> hello_cfg" where
  "hook_cfg i = \<lparr>hc_dev = [], hc_name = (if i then [65] else [66]), hc_hook = True\<rparr>"

abbreviation hook_run :: "hello_event list \<Rightarrow> demo hello option" where
  "hook_run evs \<equiv> acts demo_lib hook_cfg evs (hello_start hook_cfg (\<lambda>_. demo_start [] []))"

lemmas act_defs = hello_start_def node_start_def hook_cfg_def step_node_def client_request_def get_info_def
  client_local_def ensure_resources_def announced_def post_bye_def srv_may_end_def node_exit_def
  client_refused_def Let_def

definition whole_round :: "hello_event list" where
  "whole_round = [Start True, Bind True None, Start False, Bind False None, Request True, Local True, Request True,
     Request True, Request True, Request False, Local False, Request False, Request False, Request False,
     Stop True Bye, Stop False Bye, Exit True, Exit False]"

lemma hook_round: "\<exists>s. hook_run whole_round = Some s \<and> (\<forall>i. hn_exit (s i) = Some (Inr ()))"
  by (simp add: whole_round_def act_defs)

theorem hello_memory_outlives_reader_witness:
  "\<exists>s. hook_run whole_round = Some s \<and> hn_exit (s True) = Some (Inr ()) \<and> hn_cli (s False) = ClientEnd (Inr ())"
proof -
  obtain s where s: "hook_run whole_round = Some s" "\<forall>i. hn_exit (s i) = Some (Inr ())" using hook_round by blast
  then show ?thesis using hello_memory_outlives_reader [OF acts_run [OF s(1)], of True] by simp
qed


text \<open>A port in use on one side: the client of the other is refused for ever.\<close>

theorem hello_survivor_hangs_witness:
  "\<exists>s. hook_run [Start True, Start False, Bind True None, Bind False (Some (Io []))] = Some s
     \<and> (\<forall>s'. hello_run demo_lib hook_cfg s [Retry True, Second] s' \<longrightarrow> hn_cli (s' True) = Polling \<and> hn_exit (s' True) = None)"
proof -
  obtain s where s: "hook_run [Start True, Start False, Bind True None, Bind False (Some (Io []))] = Some s"
    "hn_srv (s False) = BindFailed (Io [])" "hn_cli (s True) = Polling"
    by (simp add: act_defs)
  from hello_survivor_hangs [OF acts_run [OF s(1)], of True "[Retry True, Second]"] show ?thesis
    using s by (auto simp: srv_over_def)
qed

section \<open>Over URMA\<close>

definition urma_cfg :: "bool \<Rightarrow> hello_cfg" where
  "urma_cfg i = \<lparr>hc_dev = ''udma0'', hc_name = (if i then [65] else [66]), hc_hook = False\<rparr>"

abbreviation urma_run :: "hello_event list \<Rightarrow> demo hello option" where
  "urma_run evs \<equiv> acts rm_lib urma_cfg evs (hello_start urma_cfg (\<lambda>_. demo_start [] []))"

text \<open>The first node's server waited two minutes for a peer that was not there.\<close>

lemma impatient: "\<exists>s. urma_run ([Start True, Bind True None] @ replicate 120 Second @ [Stop True Timeout]) = Some s
    \<and> hn_srv (s True) = Ended Timeout \<and> \<not> hn_up (s False)"
  unfolding acts_append
  by (simp add: hello_start_def node_start_def urma_cfg_def step_node_def acts_seconds srv_may_end_def BYE_TIMEOUT_def)

theorem hello_late_start_witness:
  "\<exists>s. urma_run ([Start True, Bind True None] @ replicate 120 Second @ [Stop True Timeout]) = Some s
     \<and> (\<forall>s'. hello_run rm_lib urma_cfg s [Start False, Bind False None, Retry False, Request True] s' \<longrightarrow>
           hn_exit (s' False) = None \<and> \<not> past_polling (hn_cli (s' True)))"
proof -
  obtain s where s: "urma_run ([Start True, Bind True None] @ replicate 120 Second @ [Stop True Timeout]) = Some s"
    "hn_srv (s True) = Ended Timeout" "\<not> hn_up (s False)" using impatient by blast
  from hello_late_start [OF acts_run [OF s(1)], of True "[Start False, Bind False None, Retry False, Request True]"]
  show ?thesis using s by (auto simp: urma_cfg_def)
qed

text \<open>A process that has created its resources.\<close>

lemma made:
  assumes "length msg = 64"
  shows "\<exists>r. fst (UrmaRes_create rm_lib ''udma0'' msg (pheap (start (demo_start [] [])))) = Some (Inr r)"
    and "honest (event_log (bundle_end rm_lib ''udma0'' msg (pheap (start (demo_start [] [])))))"
  by (simp_all add: assms exec_defs query_device_def rm_lib_mode try_drop_simps rm_lib_def ffi_const
      UrmaRes_create_def MSG_SIZE_def export_seg_ctx_def BUF_SIZE_def drop_UrmaRes_def bundle_end_def
      honest_def cong: let_weak_cong try_drop_weak_cong)

theorem hello_clean_witness:
  "\<exists>s. urma_run [Start True, Start False, Bind True None, Bind False None, Request True, Local True] = Some s
     \<and> hn_res (s True) \<noteq> None
     \<and> prun proto_init (event_log (thread_exit rm_lib (drop_res_opt rm_lib (hn_res (s True)) (hn_heap (s True))))) = Some proto_init"
proof -
  obtain r h where made: "UrmaRes_create rm_lib ''udma0'' (hello_msg (urma_cfg True)) (pheap (start (demo_start [] []))) = (Some (Inr r), h)"
    "honest (event_log (thread_exit rm_lib (drop_UrmaRes rm_lib r h)))"
    using made [of "hello_msg (urma_cfg True)"]
    by (cases "UrmaRes_create rm_lib ''udma0'' (hello_msg (urma_cfg True)) (pheap (start (demo_start [] [])))")
      (auto simp: bundle_end_def MSG_SIZE_def)
  obtain s where s: "urma_run [Start True, Start False, Bind True None, Bind False None, Request True, Local True] = Some s"
    "hn_res (s True) = Some r" "hn_heap (s True) = h"
    using made(1) by (simp add: hello_start_def node_start_def step_node_def client_request_def get_info_def
        client_local_def ensure_resources_def drop_res_opt_def Let_def urma_cfg_def)
  have "honest (event_log (thread_exit rm_lib (drop_res_opt rm_lib (hn_res (s True)) (hn_heap (s True)))))"
    using made(2) s by (simp add: drop_res_opt_def)
  from hello_clean [OF acts_run [OF s(1)] this] show ?thesis using s by blast
qed

end
