(* ===== verification/Spec2Isabelle.thy ===== *)
theory Spec2Isabelle
  imports Flags Layout WorkRequests Loopback BenchCommands LookupDemo CliDemo UrmaLookupDemo HelloDemo
begin

text \<open>
  A verification library for urma-rs, the Rust bindings for the URMA (remote memory access)
  library and its command line tools.

  \<^bold>\<open>The program.\<close> The crate (\<open>src/src\<close>) wraps the C library \<open>liburma\<close>: \<open>ffi.rs\<close> transcribes its
  constants and structs, \<open>urma.rs\<close> gives safe handles (\<open>Urma\<close>, \<open>Context\<close>, \<open>CompletionQueue\<close>, \<open>Jetty\<close>,
  \<open>RegisteredBuf\<close>, \<open>Peer\<close>) with reference counts and drop handlers, work requests and completion
  polling, and \<open>error.rs\<close> its errors. On top of it \<open>examples/\<close> holds a benchmark, a command line
  tool and three demos that share \<open>common/mod.rs\<close>.

  \<^bold>\<open>The C library\<close> is not part of the repository. It is the parameter \<open>L\<close> of every definition that
  calls it, a record of functions (theory Provider); its state is of a type of its own. What a
  theorem needs of it is a named hypothesis: \<open>honest\<close> (a created object is new), \<open>orderly\<close>,
  \<open>draining\<close>, \<open>quiet\<close> (what a completion queue delivers). The barrier of tokio is a parameter too, with
  the hypothesis \<open>rendezvous\<close>. Theories DemoLib and Loopback hold
  concrete libraries that satisfy them; the witnesses run the model on those.

  \<^bold>\<open>The theories.\<close>
  \<^item> Prelude: machine integers, results, texts and byte orders that all theories share.
  \<^item> Errors (\<open>error.rs\<close>), Constants, FfiTypes and Layout (\<open>ffi.rs\<close> against \<open>urma_types.h\<close>), Flags and
    DeviceCaps (the plain data types of \<open>urma.rs\<close>).
  \<^item> Provider: the C library as a parameter, the log of the calls made to it and the protocol those
    calls must follow. Handles and Endpoints: every constructor and drop handler of the crate over
    a heap of reference-counted cells.
  \<^item> Contract, Ownership, Destruction, Creation: the invariant that ties the strong counts and the
    live library objects to the handles a program holds, and its preservation by every operation.
    Lifecycle: programs over the crate and the theorems about all of them.
  \<^item> Completion (\<open>poll\<close>, \<open>poll_batch\<close>, \<open>wait_read\<close>) and WorkRequests (\<open>sge\<close>, \<open>post_read\<close>,
    \<open>post_write\<close>, their list forms, \<open>post_send\<close>, \<open>post_recv\<close>), down to the chain of work requests
    the library reads.
  \<^item> Preflight and Common: the mode checks and what the examples share. Text, Wire, Sizes: the
    descriptor lines and size arguments of the tools.
  \<^item> Bandwidth, Pipeline, Reaping, Progress: the benchmark's pipelined pass: the numbering of its
    operations, the pass itself, what its counters prove, when it returns and when it cannot.
  \<^item> Uses, Holding: what a call that only uses the library leaves alone, and what a program may do with
    the values it holds. BenchRun: the commands serve-urma,
    read-urma and write-urma as whole programs. BenchSafety, BenchCommands: that they clean up on every
    way out, what their reports hold, and one complete run evaluated.
  \<^item> Records: the messages, master and client of the lookup demo (\<open>urma_lookup.rs\<close>), cut where other
    tasks may run. Lookup: master and clients as one transition system, with its invariant.
    LookupRuns: the directory, the two barriers, and why every run ends. LookupRecords: the contract a
    data plane has to meet for every client to read every record; TcpHook: the HTTP data plane of the
    demo, which meets it. UrmaLookup: its data plane over URMA. LookupDemo, UrmaLookupDemo: evaluated runs.
  \<^item> CliRun: the command line tool (\<open>urma_cli.rs\<close>) and the probe \<open>list_devices.rs\<close>; CliCommands, CliDemo:
    clean up, what \<open>read\<close> asks for, and a run evaluated.

  \<^bold>\<open>Conventions.\<close> A machine integer is a word of its width; arithmetic is that of a release build and
  wraps, where the code checks it is checked. A Rust panic is the value \<open>None\<close> of an option around
  the result; a fallible call returns a sum whose left side is the error. The clock of the benchmark
  is a sequence of readings in nanoseconds. The lookup demo's tasks interleave at their requests and
  at each access to state they share; every turn lowers a measure, so runs are finite. The main loop of a pass is a partial function, \<open>None\<close> when
  it does not end; that it ends is a theorem with a bound computed from the operation count. Every
  other loop is a total function: retries are bounded by their counters, parsers by their input.

  \<^bold>\<open>Not modelled.\<close> Printing, sleeping and the HTTP control plane; the floating point figures of the
  benchmark's reports; overflow of \<open>Instant\<close>; what a transfer does to memory, which is the library's;
  the benchmark's TCP reference; the hello and ping-pong demos.
\<close>

end
